(* ===== verification/Prelude.thy ===== *)
theory Prelude
  imports Main "HOL-Library.State_Monad" "HOL-Library.Finite_Map" "HOL-Library.Sublist"
begin

text \<open>
  The shared vocabulary of the development.

  \<^item> Collections of facts (\<^theory_text>\<open>named_theorems\<close>) that carry the component proofs.
  \<^item> Programs with effects.  A Go function that runs commands, opens files or talks HTTP is a
    state-monad program over the \<^emph>\<open>trace\<close> of the calls it has made and the replies it got.
    The outside world is an \<^emph>\<open>environment\<close>: any function of the calls and replies so far
    and of the next call.  A statement that holds for every environment holds for every way
    the operating system, the network or the scheduler can answer.
  \<^item> Labelled step relations, their runs, and the locale \<open>step_invariant\<close> through which a
    component lifts the preservation of its invariant by one step to every run.
\<close>

named_theorems go_defs \<open>definitions of the Go standard library functions\<close>
named_theorems run_simps \<open>equations that execute effectful programs\<close>
named_theorems api_defs \<open>definitions of the request handlers\<close>


section \<open>Effectful programs\<close>

type_synonym ('c, 'r) trace = "('c \<times> 'r) list"
type_synonym ('c, 'r) env = "('c, 'r) trace \<Rightarrow> 'c \<Rightarrow> 'r"
type_synonym ('c, 'r, 'a) prog = "(('c, 'r) trace, 'a) state"

definition perform :: "('c, 'r) env \<Rightarrow> 'c \<Rightarrow> ('c, 'r, 'r) prog" where
  "perform e c = State (\<lambda>tr. (e tr c, tr @ [(c, e tr c)]))"

lemma run_perform [simp, run_simps]:
  "run_state (perform e c) tr = (e tr c, tr @ [(c, e tr c)])"
  by (simp add: perform_def)

lemmas run_state_simps [run_simps] = run_state_bind run_state_return

text \<open>The value a program returns and the calls it makes, from an empty trace.\<close>

definition result :: "('c, 'r, 'a) prog \<Rightarrow> 'a" where
  "result p = fst (run_state p [])"

definition calls :: "('c, 'r, 'a) prog \<Rightarrow> 'c list" where
  "calls p = map fst (snd (run_state p []))"

text \<open>
  A program only ever appends to the trace.  The predicate is closed under the constructs the
  models are written with, so every model satisfies it by \<open>auto\<close>.
\<close>

definition extends :: "('c, 'r, 'a) prog \<Rightarrow> bool" where
  "extends p \<longleftrightarrow> (\<forall>tr. prefix tr (snd (run_state p tr)))"

lemma extends_perform [simp, intro]: "extends (perform e c)"
  by (simp add: extends_def)

lemma extends_return [simp, intro]: "extends (State_Monad.return x)"
  by (simp add: extends_def)

lemma extends_bind [intro]:
  assumes "extends p" and "\<And>x. extends (f x)"
  shows "extends (State_Monad.bind p f)"
proof -
  have "prefix tr (snd (run_state (f x) tr'))" if "prefix tr tr'" for tr x tr'
    using that assms(2)[of x] by (auto simp: extends_def intro: prefix_order.trans)
  then show ?thesis
    using assms(1) by (auto simp: extends_def run_state_bind split: prod.splits) (metis snd_conv)
qed

lemma extends_if [intro]: "extends p \<Longrightarrow> extends q \<Longrightarrow> extends (if b then p else q)"
  by simp


section \<open>Labelled step relations\<close>

inductive steps :: "('s \<Rightarrow> 'e \<Rightarrow> 's \<Rightarrow> bool) \<Rightarrow> 's \<Rightarrow> 'e list \<Rightarrow> 's \<Rightarrow> bool"
  for step :: "'s \<Rightarrow> 'e \<Rightarrow> 's \<Rightarrow> bool" where
  steps_Nil [intro!]: "steps step s [] s"
| steps_Cons [intro]: "step s e t \<Longrightarrow> steps step t es u \<Longrightarrow> steps step s (e # es) u"

inductive_simps steps_Nil_iff [simp]: "steps step s [] t"
inductive_simps steps_Cons_iff: "steps step s (e # es) t"

lemma steps_append:
  "steps step s es t \<Longrightarrow> steps step t fs u \<Longrightarrow> steps step s (es @ fs) u"
  by (induction rule: steps.induct) auto

lemma steps_one: "step s e t \<Longrightarrow> steps step s [e] t"
  by (rule steps_Cons) (assumption, rule steps_Nil)

lemma steps_snoc: "steps step s es t \<Longrightarrow> step t e u \<Longrightarrow> steps step s (es @ [e]) u"
  by (rule steps_append) (assumption, rule steps_one)

locale step_invariant =
  fixes step :: "'s \<Rightarrow> 'e \<Rightarrow> 's \<Rightarrow> bool"
    and inv :: "'s \<Rightarrow> bool"
  assumes step_inv: "inv s \<Longrightarrow> step s e t \<Longrightarrow> inv t"
begin

lemma steps_inv: "steps step s es t \<Longrightarrow> inv s \<Longrightarrow> inv t"
  by (induction rule: steps.induct) (auto intro: step_inv)

end


section \<open>Lists and finite maps\<close>

text \<open>Deleting a list of keys from a finite map, one after the other.\<close>

lemma fmlookup_fold_fmdrop:
  "fmlookup (fold fmdrop ks m) k = (if k \<in> set ks then None else fmlookup m k)"
  by (induction ks arbitrary: m) auto

lemma fmlookup_fold_fmupd:
  "fmlookup (fold (\<lambda>k. fmupd k v) ks m) k = (if k \<in> set ks then Some v else fmlookup m k)"
  by (induction ks arbitrary: m) auto

lemma map_filter_all_Some:
  "(\<And>x. x \<in> set xs \<Longrightarrow> f x = Some (g x)) \<Longrightarrow> List.map_filter f xs = map g xs"
  by (induction xs) (auto simp: List.map_filter_def)

end
