(* ===== verification/GoLib.thy ===== *)
theory GoLib
  imports Prelude
begin

text \<open>
  The parts of Go's \<open>strings\<close>, \<open>strconv\<close> and \<open>fmt\<close> packages that the
  program calls, on byte strings (\<open>string\<close> is a list of 8-bit characters, as a Go string
  is a sequence of bytes), and the 64-bit arithmetic of \<open>int\<close>, \<open>int64\<close> and
  \<open>time.Duration\<close> on the x86-64 hosts the program runs on.

  White space is Unicode white space: the six ASCII characters and the UTF-8 encodings of the
  others.  A lead byte never occurs inside another encoding, so matching encodings bytewise is
  exact.  Case mapping is bytewise on ASCII strings; for other strings Go consults its Unicode
  tables, which are a parameter here (as in the library, which branches the same way).
\<close>


abbreviation nl :: string where "nl \<equiv> [CHR 0x0A]"


section \<open>64-bit integers\<close>

definition wrap64 :: "int \<Rightarrow> int" where
  "wrap64 x = (x + 2 ^ 63) mod 2 ^ 64 - 2 ^ 63"

abbreviation int64_range :: "int \<Rightarrow> bool" where
  "int64_range x \<equiv> - (2 ^ 63) \<le> x \<and> x < 2 ^ 63"

lemma wrap64_range: "int64_range (wrap64 x)"
  by (simp add: wrap64_def)

lemma wrap64_id: "int64_range x \<Longrightarrow> wrap64 x = x"
  by (simp add: wrap64_def)

text \<open>Go's \<open>/\<close> and \<open>%\<close> truncate towards zero.\<close>

definition quot64 :: "int \<Rightarrow> int \<Rightarrow> int" where
  "quot64 a b = wrap64 (sgn a * sgn b * (\<bar>a\<bar> div \<bar>b\<bar>))"

definition rem64 :: "int \<Rightarrow> int \<Rightarrow> int" where
  "rem64 a b = sgn a * (\<bar>a\<bar> mod \<bar>b\<bar>)"


section \<open>Package strings\<close>

definition HasPrefix :: "string \<Rightarrow> string \<Rightarrow> bool" where
  "HasPrefix s p \<longleftrightarrow> length p \<le> length s \<and> take (length p) s = p"

definition HasSuffix :: "string \<Rightarrow> string \<Rightarrow> bool" where
  "HasSuffix s p \<longleftrightarrow> length p \<le> length s \<and> drop (length s - length p) s = p"

definition TrimPrefix :: "string \<Rightarrow> string \<Rightarrow> string" where
  "TrimPrefix s p = (if HasPrefix s p then drop (length p) s else s)"

definition TrimSuffix :: "string \<Rightarrow> string \<Rightarrow> string" where
  "TrimSuffix s p = (if HasSuffix s p then take (length s - length p) s else s)"

definition space_runes :: "string list" where
  "space_runes =
    [[CHR 0x20], [CHR 0x09], [CHR 0x0A], [CHR 0x0B], [CHR 0x0C], [CHR 0x0D],
     [CHR 0xC2, CHR 0x85], [CHR 0xC2, CHR 0xA0], [CHR 0xE1, CHR 0x9A, CHR 0x80],
     [CHR 0xE2, CHR 0x80, CHR 0x80], [CHR 0xE2, CHR 0x80, CHR 0x81],
     [CHR 0xE2, CHR 0x80, CHR 0x82], [CHR 0xE2, CHR 0x80, CHR 0x83],
     [CHR 0xE2, CHR 0x80, CHR 0x84], [CHR 0xE2, CHR 0x80, CHR 0x85],
     [CHR 0xE2, CHR 0x80, CHR 0x86], [CHR 0xE2, CHR 0x80, CHR 0x87],
     [CHR 0xE2, CHR 0x80, CHR 0x88], [CHR 0xE2, CHR 0x80, CHR 0x89],
     [CHR 0xE2, CHR 0x80, CHR 0x8A], [CHR 0xE2, CHR 0x80, CHR 0xA8],
     [CHR 0xE2, CHR 0x80, CHR 0xA9], [CHR 0xE2, CHR 0x80, CHR 0xAF],
     [CHR 0xE2, CHR 0x81, CHR 0x9F], [CHR 0xE3, CHR 0x80, CHR 0x80]]"

text \<open>The white space rune a string starts with, if any.\<close>

definition lead_rune :: "string list \<Rightarrow> string \<Rightarrow> string option" where
  "lead_rune ws s = find (\<lambda>w. w \<noteq> [] \<and> HasPrefix s w) ws"

lemma lead_rune_SomeD:
  assumes "lead_rune ws s = Some w"
  shows "w \<noteq> [] \<and> HasPrefix s w \<and> w \<in> set ws"
  using assms by (auto simp: lead_rune_def find_Some_iff)

lemma lead_rune_shorter [termination_simp]:
  "lead_rune ws s = Some w \<Longrightarrow> length s - length w < length s"
  by (cases w; cases s) (auto dest!: lead_rune_SomeD simp: HasPrefix_def)

lemma lead_rune_nonempty [termination_simp]: "lead_rune ws s = Some w \<Longrightarrow> w \<noteq> []"
  by (auto dest: lead_rune_SomeD)

fun strip_runes :: "string list \<Rightarrow> string \<Rightarrow> string" where
  "strip_runes ws s =
    (case lead_rune ws s of None \<Rightarrow> s | Some w \<Rightarrow> strip_runes ws (drop (length w) s))"

declare strip_runes.simps [simp del]

definition TrimSpace :: "string \<Rightarrow> string" where
  "TrimSpace s = rev (strip_runes (map rev space_runes) (rev (strip_runes space_runes s)))"

fun fields_from :: "string list \<Rightarrow> string \<Rightarrow> string \<Rightarrow> string list" where
  "fields_from ws cur s =
    (case s of
       [] \<Rightarrow> (if cur = [] then [] else [cur])
     | c # cs \<Rightarrow>
        (case lead_rune ws s of
           Some w \<Rightarrow> (if cur = [] then [] else [cur]) @ fields_from ws [] (drop (length w) s)
         | None \<Rightarrow> fields_from ws (cur @ [c]) cs))"

declare fields_from.simps [simp del]

definition Fields :: "string \<Rightarrow> string list" where
  "Fields s = fields_from space_runes [] s"

fun Split :: "char \<Rightarrow> string \<Rightarrow> string list" where
  "Split c [] = [[]]"
| "Split c (x # xs) =
    (if x = c then [] # Split c xs
     else case Split c xs of [] \<Rightarrow> [[x]] | w # ws \<Rightarrow> (x # w) # ws)"

text \<open>\<open>strings.SplitN(s, c, 2)\<close>: at most one split, at the first separator.\<close>

definition SplitN2 :: "char \<Rightarrow> string \<Rightarrow> string list" where
  "SplitN2 c s =
    (if c \<in> set s then [takeWhile (\<lambda>x. x \<noteq> c) s, tl (dropWhile (\<lambda>x. x \<noteq> c) s)] else [s])"

fun Join :: "string list \<Rightarrow> string \<Rightarrow> string" where
  "Join [] sep = []"
| "Join [w] sep = w"
| "Join (w # v # ws) sep = w @ sep @ Join (v # ws) sep"

definition ascii_upper :: "char \<Rightarrow> char" where
  "ascii_upper c =
    (let n = of_char c :: nat in if 97 \<le> n \<and> n \<le> 122 then char_of (n - 32) else c)"

definition ascii_lower :: "char \<Rightarrow> char" where
  "ascii_lower c =
    (let n = of_char c :: nat in if 65 \<le> n \<and> n \<le> 90 then char_of (n + 32) else c)"

definition is_ascii :: "string \<Rightarrow> bool" where
  "is_ascii s = list_all (\<lambda>c. (of_char c :: nat) < 128) s"

definition ToUpper :: "(string \<Rightarrow> string) \<Rightarrow> string \<Rightarrow> string" where
  "ToUpper uni s = (if is_ascii s then map ascii_upper s else uni s)"

definition ToLower :: "(string \<Rightarrow> string) \<Rightarrow> string \<Rightarrow> string" where
  "ToLower uni s = (if is_ascii s then map ascii_lower s else uni s)"


section \<open>Packages strconv and fmt: integers\<close>

definition digit_table :: string where
  "digit_table = ''0123456789ABCDEF''"

fun show_base :: "nat \<Rightarrow> nat \<Rightarrow> string" where
  "show_base b n =
    (if b < 2 \<or> n < b then [digit_table ! n]
     else show_base b (n div b) @ [digit_table ! (n mod b)])"

declare show_base.simps [simp del]

text \<open>\<open>fmt\<close>'s \<open>%d\<close> and \<open>%02X\<close>.\<close>

definition fmt_d :: "int \<Rightarrow> string" where
  "fmt_d i = (if i < 0 then CHR ''-'' # show_base 10 (nat (- i)) else show_base 10 (nat i))"

definition pad_zero :: "nat \<Rightarrow> string \<Rightarrow> string" where
  "pad_zero w s = replicate (w - length s) (CHR ''0'') @ s"

definition fmt_02X :: "int \<Rightarrow> string" where
  "fmt_02X i =
    (if i < 0 then CHR ''-'' # pad_zero 1 (show_base 16 (nat (- i)))
     else pad_zero 2 (show_base 16 (nat i)))"

definition is_digit :: "char \<Rightarrow> bool" where
  "is_digit c \<longleftrightarrow> 48 \<le> (of_char c :: nat) \<and> (of_char c :: nat) \<le> 57"

definition digit_val :: "char \<Rightarrow> nat" where
  "digit_val c = (let n = of_char c in if n \<le> 57 then n - 48 else n - 55)"

definition read_base :: "nat \<Rightarrow> string \<Rightarrow> nat" where
  "read_base b s = foldl (\<lambda>a c. a * b + digit_val c) 0 s"

text \<open>
  \<open>strconv.ParseInt(s, 10, 64)\<close>, on which \<open>strconv.Atoi\<close> is built:
  an optional sign and at least one digit, in range.
\<close>

definition split_sign :: "string \<Rightarrow> bool \<times> string" where
  "split_sign s =
    (case s of
       [] \<Rightarrow> (False, [])
     | c # cs \<Rightarrow> if c = CHR ''-'' then (True, cs) else if c = CHR ''+'' then (False, cs)
               else (False, s))"

definition Atoi :: "string \<Rightarrow> int option" where
  "Atoi s =
    (case split_sign s of (neg, ds) \<Rightarrow>
      if ds = [] \<or> \<not> list_all is_digit ds then None
      else let v = int (read_base 10 ds); x = (if neg then - v else v)
           in if int64_range x then Some x else None)"

text \<open>\<open>strconv.ParseUint(s, 10, 64)\<close> with the error dropped: 0 for a malformed
  number, the largest value for one out of range.\<close>

definition ParseUint :: "string \<Rightarrow> nat" where
  "ParseUint s =
    (if s = [] \<or> \<not> list_all is_digit s then 0 else min (read_base 10 s) (2 ^ 64 - 1))"

text \<open>
  \<open>fmt.Sscanf(s, "%d", &n)\<close> with \<open>n\<close> zero before the call: white space is
  skipped (a newline is an error), an optional sign and at least one digit are read, what
  follows is ignored; on an error \<open>n\<close> stays 0.
\<close>

fun skip_space :: "string \<Rightarrow> string option" where
  "skip_space s =
    (case lead_rune space_runes s of
       None \<Rightarrow> Some s
     | Some w \<Rightarrow> if w = [CHR 0x0A] then None else skip_space (drop (length w) s))"

declare skip_space.simps [simp del]

definition Sscanf_d :: "string \<Rightarrow> int" where
  "Sscanf_d s =
    (case skip_space s of
       None \<Rightarrow> 0
     | Some s' \<Rightarrow>
        (case split_sign s' of (neg, t) \<Rightarrow>
          let ds = takeWhile is_digit t in
          if ds = [] then 0
          else let v = int (read_base 10 ds); x = (if neg then - v else v)
               in if int64_range x then x else 0))"

lemmas go_string_defs [go_defs] =
  HasPrefix_def HasSuffix_def TrimPrefix_def TrimSuffix_def SplitN2_def split_sign_def


section \<open>Facts about white space\<close>

definition graphic :: "char \<Rightarrow> bool" where
  "graphic c \<longleftrightarrow> 33 \<le> (of_char c :: nat) \<and> (of_char c :: nat) \<le> 126"

lemma lead_rune_graphic:
  assumes "graphic c"
  shows "lead_rune space_runes (c # cs) = None" "lead_rune (map rev space_runes) (c # cs) = None"
proof -
  have "list_all (\<lambda>w. w = [] \<or> \<not> graphic (hd w)) space_runes"
    "list_all (\<lambda>w. w = [] \<or> \<not> graphic (hd w)) (map rev space_runes)"
    by (simp_all add: space_runes_def graphic_def)
  moreover have "lead_rune ws (c # cs) = None" if "list_all (\<lambda>w. w = [] \<or> \<not> graphic (hd w)) ws" for ws
    using that assms by (induction ws) (auto simp: lead_rune_def HasPrefix_def neq_Nil_conv)
  ultimately show "lead_rune space_runes (c # cs) = None" "lead_rune (map rev space_runes) (c # cs) = None"
    by blast+
qed

lemma strip_runes_graphic:
  "graphic c \<Longrightarrow> strip_runes space_runes (c # cs) = c # cs"
  "graphic c \<Longrightarrow> strip_runes (map rev space_runes) (c # cs) = c # cs"
  by (simp_all add: strip_runes.simps[of _ "c # cs"] lead_rune_graphic)

lemma TrimSpace_graphic:
  assumes "s \<noteq> []" "graphic (hd s)" "graphic (last s)"
  shows "TrimSpace s = s"
proof -
  obtain c cs where s: "s = c # cs" using assms(1) by (cases s) auto
  obtain d ds where r: "rev s = d # ds" using assms(1) by (cases "rev s") auto
  then have "graphic d" using assms(3) by (metis hd_rev list.sel(1))
  then have "strip_runes (map rev space_runes) (rev s) = rev s"
    by (simp add: r strip_runes_graphic)
  moreover have "strip_runes space_runes s = s" using assms(2) by (simp add: s strip_runes_graphic)
  ultimately show ?thesis by (simp add: TrimSpace_def)
qed

lemma TrimSpace_leading_space: "TrimSpace (CHR '' '' # s) = TrimSpace s"
proof -
  have "lead_rune space_runes (CHR '' '' # s) = Some '' ''"
    by (simp add: lead_rune_def space_runes_def HasPrefix_def)
  then have "strip_runes space_runes (CHR '' '' # s) = strip_runes space_runes s"
    by (simp add: strip_runes.simps[of _ "CHR '' '' # s"])
  then show ?thesis by (simp add: TrimSpace_def)
qed

text \<open>The white space separated words.\<close>

lemma lead_rune_space: "lead_rune space_runes (CHR '' '' # s) = Some '' ''"
  by (simp add: lead_rune_def space_runes_def HasPrefix_def)

lemma fields_from_word:
  "list_all graphic w \<Longrightarrow> fields_from space_runes cur (w @ s) = fields_from space_runes (cur @ w) s"
proof (induction w arbitrary: cur)
  case (Cons c w)
  then show ?case by (subst fields_from.simps) (simp add: lead_rune_graphic)
qed simp

lemma fields_from_space:
  "fields_from space_runes cur (CHR '' '' # s) =
    (if cur = [] then [] else [cur]) @ fields_from space_runes [] s"
  by (subst fields_from.simps) (simp add: lead_rune_space)

lemma Fields_space: "Fields (CHR '' '' # s) = Fields s"
  by (simp add: Fields_def fields_from_space)

lemma Fields_spaces: "Fields (replicate n (CHR '' '') @ s) = Fields s"
  by (induction n) (simp_all add: Fields_space)

lemma Fields_word:
  "w \<noteq> [] \<Longrightarrow> list_all graphic w \<Longrightarrow> Fields (w @ CHR '' '' # s) = w # Fields s"
  using fields_from_word[of w "[]" "CHR '' '' # s"] by (simp add: Fields_def fields_from_space)

lemma Fields_last: "w \<noteq> [] \<Longrightarrow> list_all graphic w \<Longrightarrow> Fields w = [w]"
  using fields_from_word[of w "[]" "[]"] by (simp add: Fields_def fields_from.simps[of _ _ "[]"])

text \<open>Splitting at a character.\<close>

lemma Split_no_sep: "c \<notin> set w \<Longrightarrow> Split c w = [w]"
  by (induction w) auto

lemma Split_append_sep: "c \<notin> set w \<Longrightarrow> Split c (w @ c # s) = w # Split c s"
  by (induction w) auto

lemma graphic_digit: "is_digit c \<Longrightarrow> graphic c"
  by (simp add: is_digit_def graphic_def)


section \<open>Facts about number formats\<close>

lemma digit_table_facts:
  assumes "d < 16"
  shows "digit_val (digit_table ! d) = d" "d < 10 \<Longrightarrow> is_digit (digit_table ! d)"
    "digit_table ! d \<noteq> CHR ''-''" "digit_table ! d \<noteq> CHR ''+''"
proof -
  have "list_all (\<lambda>d. digit_val (digit_table ! d) = d \<and> (d < 10 \<longrightarrow> is_digit (digit_table ! d)) \<and>
      digit_table ! d \<noteq> CHR ''-'' \<and> digit_table ! d \<noteq> CHR ''+'')
      [0, 1, 2, 3, 4, 5, 6, 7, 8, 9, 10, 11, 12, 13, 14, 15]"
    by (simp add: digit_table_def digit_val_def is_digit_def)
  moreover have "[0, 1, 2, 3, 4, 5, 6, 7, 8, 9, 10, 11, 12, 13, 14, 15] = [0..<16]"
    by (simp add: upt_rec)
  ultimately show "digit_val (digit_table ! d) = d" "d < 10 \<Longrightarrow> is_digit (digit_table ! d)"
    "digit_table ! d \<noteq> CHR ''-''" "digit_table ! d \<noteq> CHR ''+''"
    using assms by (simp_all only: list_all_iff set_upt) auto
qed

lemma show_base_nonempty [simp]: "show_base b n \<noteq> []"
  by (subst show_base.simps) simp

lemma read_base_snoc: "read_base b (s @ [c]) = read_base b s * b + digit_val c"
  by (simp add: read_base_def)

lemma read_show_base:
  assumes "2 \<le> b" "b \<le> 16"
  shows "read_base b (show_base b n) = n"
  using assms
proof (induction b n rule: show_base.induct)
  case (1 b n)
  show ?case
  proof (cases "n < b")
    case True
    with 1 show ?thesis
      by (subst show_base.simps) (simp add: read_base_def digit_table_facts)
  next
    case False
    have "n mod b < 16" using 1 by (simp add: less_le_trans[OF mod_less_divisor])
    with False 1 show ?thesis
      by (subst show_base.simps) (simp add: read_base_snoc digit_table_facts)
  qed
qed

lemma show_base_inj: "2 \<le> b \<Longrightarrow> b \<le> 16 \<Longrightarrow> show_base b m = show_base b n \<Longrightarrow> m = n"
  by (metis read_show_base)

lemma show_base_all:
  assumes "2 \<le> b" "b \<le> 16" and "\<And>d. d < b \<Longrightarrow> P (digit_table ! d)"
  shows "c \<in> set (show_base b n) \<Longrightarrow> P c"
  using assms
proof (induction b n rule: show_base.induct)
  case (1 b n)
  have "n mod b < b" using 1 by simp
  show ?case
  proof (cases "n < b")
    case True
    with 1 show ?thesis by (simp add: show_base.simps[of b n])
  next
    case False
    with 1(2,3) consider "c \<in> set (show_base b (n div b))" | "c = digit_table ! (n mod b)"
      by (auto simp: show_base.simps[of b n])
    then show ?thesis
      using 1 False \<open>n mod b < b\<close> by cases auto
  qed
qed

lemma show_dec_digits: "c \<in> set (show_base 10 n) \<Longrightarrow> is_digit c"
  by (rule show_base_all[of 10 is_digit]) (auto simp: digit_table_facts)

lemma show_base_no_sign:
  assumes "2 \<le> b" "b \<le> 16" "c \<in> set (show_base b n)"
  shows "c \<noteq> CHR ''-'' \<and> c \<noteq> CHR ''+''"
  by (rule show_base_all[of b "\<lambda>c. c \<noteq> CHR ''-'' \<and> c \<noteq> CHR ''+''", OF assms(1,2) _ assms(3)])
     (use assms in \<open>auto simp: digit_table_facts\<close>)

lemma split_sign_show: "split_sign (show_base 10 n) = (False, show_base 10 n)"
proof -
  obtain c cs where eq: "show_base 10 n = c # cs"
    by (cases "show_base 10 n") auto
  then have "c \<noteq> CHR ''-'' \<and> c \<noteq> CHR ''+''"
    using show_base_no_sign[of 10 c n] by simp
  with eq show ?thesis by (simp add: split_sign_def)
qed

lemma split_sign_fmt_d: "split_sign (fmt_d i) = (i < 0, show_base 10 (nat \<bar>i\<bar>))"
  by (auto simp: fmt_d_def split_sign_show) (simp add: split_sign_def)

text \<open>Printing with \<open>%d\<close> and reading with \<open>Atoi\<close> are inverse on \<open>int64\<close>.\<close>

lemma Atoi_fmt_d: "int64_range i \<Longrightarrow> Atoi (fmt_d i) = Some i"
  using show_dec_digits
  by (auto simp: Atoi_def split_sign_fmt_d read_show_base list_all_iff Let_def)

lemma fmt_d_inj: "fmt_d i = fmt_d j \<Longrightarrow> i = j"
proof -
  assume "fmt_d i = fmt_d j"
  then have "split_sign (fmt_d i) = split_sign (fmt_d j)" by simp
  then have "(i < 0) = (j < 0)" "nat \<bar>i\<bar> = nat \<bar>j\<bar>"
    using show_base_inj[of 10] by (auto simp: split_sign_fmt_d)
  then show "i = j" by (cases "i < 0") auto
qed

lemma read_base_zeros: "read_base b (replicate k (CHR ''0'') @ s) = read_base b s"
proof -
  have "foldl (\<lambda>a c. a * b + digit_val c) 0 (replicate k (CHR ''0'')) = 0"
    by (induction k) (auto simp: digit_val_def)
  then show ?thesis by (simp add: read_base_def)
qed

lemma fmt_02X_inj: "0 \<le> i \<Longrightarrow> 0 \<le> j \<Longrightarrow> fmt_02X i = fmt_02X j \<Longrightarrow> i = j"
proof -
  assume nn: "0 \<le> i" "0 \<le> j" and eq: "fmt_02X i = fmt_02X j"
  have "read_base 16 (fmt_02X i) = nat i" "read_base 16 (fmt_02X j) = nat j"
    using nn by (auto simp: fmt_02X_def pad_zero_def read_base_zeros read_show_base)
  with eq nn show "i = j" by (metis nat_0_le)
qed

text \<open>
  What the naming of per-VM resources relies on: a number format that never gives two
  identifiers the same text.  A name built around it then identifies the VM.
\<close>

locale number_format =
  fixes fmt :: "int \<Rightarrow> string"
  assumes fmt_inj: "0 \<le> i \<Longrightarrow> 0 \<le> j \<Longrightarrow> fmt i = fmt j \<Longrightarrow> i = j"
begin

lemma name_eq_iff:
  "0 \<le> i \<Longrightarrow> 0 \<le> j \<Longrightarrow> pre @ fmt i @ suf = pre @ fmt j @ suf \<longleftrightarrow> i = j"
  using fmt_inj by auto

lemma name_eq_iff_plain: "0 \<le> i \<Longrightarrow> 0 \<le> j \<Longrightarrow> pre @ fmt i = pre @ fmt j \<longleftrightarrow> i = j"
  using fmt_inj by auto

lemma names_distinct:
  "distinct is \<Longrightarrow> \<forall>i\<in>set is. 0 \<le> i \<Longrightarrow> distinct (map (\<lambda>i. pre @ fmt i @ suf) is)"
  using fmt_inj by (auto simp: distinct_map inj_on_def)

end

interpretation decimal: number_format fmt_d
  by unfold_locales (rule fmt_d_inj)

interpretation hex_succ: number_format "\<lambda>i. fmt_02X (i + 1)"
proof
  fix i j :: int
  assume "0 \<le> i" "0 \<le> j" "fmt_02X (i + 1) = fmt_02X (j + 1)"
  then show "i = j" using fmt_02X_inj[of "i + 1" "j + 1"] by simp
qed

end
