(* ===== verification/Float64.thy ===== *)
theory Float64
  imports Complex_Main GoLib
begin

text \<open>
  Go's \<open>float64\<close>: IEEE 754 binary64 with round-to-nearest-even, as far as the program uses it
  (conversion from and to 64-bit integers, \<open>+\<close>, \<open>*\<close>, \<open>/\<close> by a non-zero
  number, comparisons).  A finite value is the rational it denotes; \<open>rnd\<close> rounds an exact result
  to 53 significant bits, gradually fewer below \<open>2 ^ -1022\<close>, and overflows to infinity.
  Zero carries no sign: no operation of the program distinguishes the two zeros.  Conversion to
  \<open>int\<close> truncates; out of range it gives the smallest integer, as the x86-64 instruction
  the compiler emits does.

  Shown: rounding is monotone, exact on small integers, and so are the derived operations the
  scoring rules rely on.
\<close>

datatype f64 = NaN | Inf bool | Fin rat

text \<open>The number of binary digits, and the exponent \<open>e\<close> with \<open>2 powi e \<le> x < 2 powi (e + 1)\<close>.\<close>

fun bits :: "nat \<Rightarrow> nat" where
  "bits n = (if n = 0 then 0 else Suc (bits (n div 2)))"

declare bits.simps [simp del]

definition ilog2 :: "rat \<Rightarrow> int" where
  "ilog2 x =
    (if 1 \<le> x then int (bits (nat \<lfloor>x\<rfloor>)) - 1 else - int (bits (nat (\<lceil>1 / x\<rceil> - 1))))"

text \<open>Round half to even.\<close>

definition rne :: "rat \<Rightarrow> int" where
  "rne x =
    (let f = \<lfloor>x\<rfloor>; d = x - of_int f in
     if d < 1 / 2 then f else if 1 / 2 < d then f + 1 else if even f then f else f + 1)"

definition rnd_pos :: "rat \<Rightarrow> rat" where
  "rnd_pos x =
    (if x = 0 then 0
     else let e = max (ilog2 x - 52) (- 1074) in of_int (rne (x / 2 powi e)) * 2 powi e)"

definition rnd :: "rat \<Rightarrow> f64" where
  "rnd x =
    (let y = rnd_pos \<bar>x\<bar> in
     if 2 ^ 1024 \<le> y then Inf (x < 0) else Fin (if x < 0 then - y else y))"

definition f64_of_int :: "int \<Rightarrow> f64" where
  "f64_of_int i = rnd (of_int i)"

fun f64_add :: "f64 \<Rightarrow> f64 \<Rightarrow> f64" where
  "f64_add (Fin x) (Fin y) = rnd (x + y)"
| "f64_add (Inf s) (Fin y) = Inf s"
| "f64_add (Fin x) (Inf t) = Inf t"
| "f64_add (Inf s) (Inf t) = (if s = t then Inf s else NaN)"
| "f64_add _ _ = NaN"

fun f64_mul :: "f64 \<Rightarrow> f64 \<Rightarrow> f64" where
  "f64_mul (Fin x) (Fin y) = rnd (x * y)"
| "f64_mul (Inf s) (Fin y) = (if y = 0 then NaN else Inf (s \<noteq> (y < 0)))"
| "f64_mul (Fin x) (Inf t) = (if x = 0 then NaN else Inf (t \<noteq> (x < 0)))"
| "f64_mul (Inf s) (Inf t) = Inf (s \<noteq> t)"
| "f64_mul _ _ = NaN"

text \<open>The program never divides by zero; the equations treat a zero divisor as positive zero.\<close>

fun f64_div :: "f64 \<Rightarrow> f64 \<Rightarrow> f64" where
  "f64_div (Fin x) (Fin y) =
    (if y = 0 then if x = 0 then NaN else Inf (x < 0) else rnd (x / y))"
| "f64_div (Inf s) (Fin y) = Inf (s \<noteq> (y < 0))"
| "f64_div (Fin x) (Inf t) = Fin 0"
| "f64_div _ _ = NaN"

fun f64_lt :: "f64 \<Rightarrow> f64 \<Rightarrow> bool" where
  "f64_lt (Fin x) (Fin y) \<longleftrightarrow> x < y"
| "f64_lt (Inf s) (Fin y) \<longleftrightarrow> s"
| "f64_lt (Fin x) (Inf t) \<longleftrightarrow> \<not> t"
| "f64_lt (Inf s) (Inf t) \<longleftrightarrow> s \<and> \<not> t"
| "f64_lt _ _ \<longleftrightarrow> False"

definition f64_ge :: "f64 \<Rightarrow> f64 \<Rightarrow> bool" where
  "f64_ge x y \<longleftrightarrow> f64_lt y x \<or> x = y \<and> x \<noteq> NaN"

fun f64_to_int :: "f64 \<Rightarrow> int" where
  "f64_to_int (Fin x) =
    (let i = (if x < 0 then \<lceil>x\<rceil> else \<lfloor>x\<rfloor>) in if int64_range i then i else - (2 ^ 63))"
| "f64_to_int _ = - (2 ^ 63)"


section \<open>The exponent\<close>

lemma bits_bounds: "0 < n \<Longrightarrow> 2 ^ (bits n - 1) \<le> n \<and> n < 2 ^ bits n \<and> 0 < bits n"
proof (induction n rule: bits.induct)
  case (1 n)
  show ?case
  proof (cases "n = 1")
    case True
    then show ?thesis by (simp add: bits.simps)
  next
    case False
    with 1 have "2 ^ (bits (n div 2) - 1) \<le> n div 2" "n div 2 < 2 ^ bits (n div 2)"
      "0 < bits (n div 2)" by auto
    moreover from this have "2 * 2 ^ (bits (n div 2) - 1) = (2::nat) ^ bits (n div 2)"
      by (cases "bits (n div 2)") auto
    moreover have "n = 2 * (n div 2) \<or> n = 2 * (n div 2) + 1" by arith
    moreover have "bits n = Suc (bits (n div 2))" using 1 by (subst bits.simps) simp
    ultimately show ?thesis by (auto simp: bits.simps[of n])
  qed
qed

lemma of_nat_less_pow2: "n < 2 ^ k \<Longrightarrow> (of_nat n + 1 :: rat) \<le> 2 ^ k"
  by (metis (mono_tags) Suc_leI of_nat_Suc of_nat_le_iff of_nat_numeral of_nat_power add.commute)

lemma pow2_le_of_nat: "2 ^ k \<le> n \<Longrightarrow> (2::rat) ^ k \<le> of_nat n"
  by (metis of_nat_le_iff of_nat_numeral of_nat_power)

lemma ilog2_bounds:
  assumes "0 < x"
  shows "2 powi (ilog2 x) \<le> x" "x < 2 powi (ilog2 x + 1)"
proof -
  have "2 powi (ilog2 x) \<le> x \<and> x < 2 powi (ilog2 x + 1)"
  proof (cases "1 \<le> x")
    case True
    define n where "n = nat \<lfloor>x\<rfloor>"
    have n: "0 < n" "of_nat n \<le> x" "x < of_nat n + 1"
      using True floor_correct[of x] by (simp_all add: n_def le_floor_iff of_nat_nat)
    note b = bits_bounds[OF n(1)]
    have "(2::rat) powi (int (bits n) - 1) = 2 ^ (bits n - 1)" "(2::rat) powi int (bits n) = 2 ^ bits n"
      using b by (simp_all add: power_int_nonneg_exp nat_diff_distrib)
    moreover have "(2::rat) ^ (bits n - 1) \<le> x"
      using b n(2) pow2_le_of_nat[of "bits n - 1" n] by linarith
    moreover have "x < 2 ^ bits n"
      using b n(3) of_nat_less_pow2[of n "bits n"] by linarith
    ultimately show ?thesis using True by (simp add: ilog2_def flip: n_def)
  next
    case False
    define n where "n = nat (\<lceil>1 / x\<rceil> - 1)"
    have "1 < 1 / x" using False assms by simp
    then have c: "1 < \<lceil>1 / x\<rceil>" by (simp add: less_ceiling_iff)
    have n: "0 < n" "of_nat n < 1 / x" "1 / x \<le> of_nat n + 1"
      using c by (simp_all add: n_def of_nat_nat) linarith+
    note b = bits_bounds[OF n(1)]
    have "(2::rat) ^ (bits n - 1) < 1 / x"
      using b n(2) pow2_le_of_nat[of "bits n - 1" n] by linarith
    then have "x < 1 / 2 ^ (bits n - 1)" using assms by (simp add: field_simps)
    moreover have "1 / x \<le> 2 ^ bits n"
      using b n(3) of_nat_less_pow2[of n "bits n"] by linarith
    then have "1 / 2 ^ bits n \<le> x" using assms by (simp add: field_simps)
    moreover have "(2::rat) powi (1 - int (bits n)) = 1 / 2 ^ (bits n - 1)"
      "(2::rat) powi (- int (bits n)) = 1 / 2 ^ bits n"
    proof -
      have e: "1 - int (bits n) = - int (bits n - 1)" using b by simp
      show "(2::rat) powi (1 - int (bits n)) = 1 / 2 ^ (bits n - 1)"
        unfolding e by (simp only: power_int_minus power_int_of_nat divide_inverse mult_1)
      show "(2::rat) powi (- int (bits n)) = 1 / 2 ^ bits n"
        by (simp only: power_int_minus power_int_of_nat divide_inverse mult_1)
    qed
    ultimately show ?thesis using False by (simp add: ilog2_def flip: n_def)
  qed
  then show "2 powi (ilog2 x) \<le> x" "x < 2 powi (ilog2 x + 1)" by auto
qed

lemma powi2_less_iff: "(2::rat) powi m < 2 powi n \<longleftrightarrow> m < n"
proof
  assume "(2::rat) powi m < 2 powi n"
  then show "m < n" by (rule contrapos_pp) (simp add: not_less power_int_increasing)
next
  assume "m < n"
  then show "(2::rat) powi m < 2 powi n" by (rule power_int_strict_increasing) simp
qed

lemma ilog2_mono:
  assumes "0 < x" "x \<le> y"
  shows "ilog2 x \<le> ilog2 y"
proof -
  have "2 powi (ilog2 x) < (2::rat) powi (ilog2 y + 1)"
    using ilog2_bounds[of x] ilog2_bounds[of y] assms by linarith
  then show ?thesis by (simp add: powi2_less_iff)
qed


section \<open>Rounding\<close>

lemma rne_mono: "x \<le> y \<Longrightarrow> rne x \<le> rne y"
proof -
  assume le: "x \<le> y"
  then have fl: "\<lfloor>x\<rfloor> \<le> \<lfloor>y\<rfloor>" by (rule floor_mono)
  have step: "\<lfloor>z\<rfloor> \<le> rne z \<and> rne z \<le> \<lfloor>z\<rfloor> + 1" for z
    by (auto simp: rne_def Let_def)
  show ?thesis
  proof (cases "\<lfloor>x\<rfloor> = \<lfloor>y\<rfloor>")
    case True
    with le show ?thesis by (auto simp: rne_def Let_def)
  next
    case False
    with fl have "\<lfloor>x\<rfloor> + 1 \<le> \<lfloor>y\<rfloor>" by simp
    with step[of x] step[of y] show ?thesis by linarith
  qed
qed

lemma rne_of_int [simp]: "rne (of_int i) = i"
  by (simp add: rne_def)

lemma rne_nonneg: "0 \<le> x \<Longrightarrow> 0 \<le> rne x"
  using rne_mono[of 0 x] rne_of_int[of 0] by simp

lemma rnd_pos_nonneg: "0 \<le> x \<Longrightarrow> 0 \<le> rnd_pos x"
  by (auto simp: rnd_pos_def Let_def intro!: mult_nonneg_nonneg rne_nonneg divide_nonneg_nonneg)

lemma rnd_pos_mono:
  assumes "0 \<le> x" "x \<le> y"
  shows "rnd_pos x \<le> rnd_pos y"
proof (cases "x = 0")
  case True
  then show ?thesis using assms rnd_pos_nonneg[of y] by (simp add: rnd_pos_def)
next
  case False
  define ex where "ex = max (ilog2 x - 52) (- 1074)"
  define ey where "ey = max (ilog2 y - 52) (- 1074)"
  have rx: "rnd_pos x = of_int (rne (x / 2 powi ex)) * 2 powi ex"
    and ry: "rnd_pos y = of_int (rne (y / 2 powi ey)) * 2 powi ey"
    using False assms by (auto simp: rnd_pos_def ex_def ey_def Let_def)
  have e: "ex \<le> ey" unfolding ex_def ey_def using False assms ilog2_mono[of x y] by auto
  show ?thesis
  proof (cases "ex = ey")
    case True
    have "rne (x / 2 powi ex) \<le> rne (y / 2 powi ex)"
      by (rule rne_mono) (simp add: divide_right_mono assms)
    then show ?thesis unfolding rx ry True by (intro mult_right_mono) auto
  next
    case False
    with e have lt: "ex < ey" by simp
    then have ey: "ey = ilog2 y - 52" unfolding ex_def ey_def by auto
    have "x < 2 powi (ilog2 x + 1)" using ilog2_bounds[of x] \<open>x \<noteq> 0\<close> assms by auto
    also have "\<dots> \<le> 2 powi (ex + 53)"
      by (rule power_int_increasing) (auto simp: ex_def)
    finally have "x / 2 powi ex \<le> of_int (2 ^ 53)"
      by (simp add: power_int_add divide_le_eq mult.commute)
    then have "rne (x / 2 powi ex) \<le> 2 ^ 53" using rne_mono rne_of_int by metis
    then have "rnd_pos x \<le> of_int (2 ^ 53) * 2 powi ex"
      unfolding rx by (intro mult_right_mono) (auto simp: of_int_le_iff simp del: of_int_power)
    also have "\<dots> = 2 powi (ex + 53)" by (simp add: power_int_add)
    also have "\<dots> \<le> 2 powi (ey + 52)" using lt by (intro power_int_increasing) auto
    also have "\<dots> = of_int (2 ^ 52) * 2 powi ey" by (simp add: power_int_add)
    also have "\<dots> \<le> rnd_pos y"
    proof -
      have "2 powi (ey + 52) \<le> y" using ilog2_bounds(1)[of y] \<open>x \<noteq> 0\<close> assms by (simp add: ey)
      then have "of_int (2 ^ 52) \<le> y / 2 powi ey"
        by (simp add: power_int_add le_divide_eq mult.commute)
      then have "2 ^ 52 \<le> rne (y / 2 powi ey)" using rne_mono rne_of_int by metis
      then show ?thesis
        unfolding ry by (intro mult_right_mono) (auto simp: of_int_le_iff simp del: of_int_power)
    qed
    finally show ?thesis .
  qed
qed

text \<open>A number of at most 53 bits, scaled by a power of two, is represented exactly.\<close>

lemma powi2_nonneg_int: "0 \<le> k \<Longrightarrow> (2::rat) powi k = of_int (2 ^ nat k)"
  by (simp add: power_int_nonneg_exp)

lemma rnd_pos_scaled:
  assumes "0 < m" "m < 2 ^ 53" "- 1074 \<le> t" and x: "x = of_int m * 2 powi t"
  shows "rnd_pos x = x"
proof -
  have pos: "0 < x" using assms by (simp add: zero_less_mult_iff)
  define e where "e = max (ilog2 x - 52) (- 1074)"
  have "of_int m < (2::rat) ^ 53" using assms(2)
    by (metis of_int_less_iff of_int_numeral of_int_power)
  then have "x < 2 ^ 53 * 2 powi t" unfolding x by (intro mult_strict_right_mono) auto
  also have "\<dots> = 2 powi (t + 53)" by (simp add: power_int_add)
  finally have "2 powi ilog2 x < (2::rat) powi (t + 53)"
    using ilog2_bounds(1)[OF pos] by linarith
  then have "ilog2 x < t + 53" by (simp only: powi2_less_iff)
  then have "e \<le> t" using assms(3) by (auto simp: e_def)
  then have "x / 2 powi e = of_int m * 2 powi (t - e)"
    unfolding x by (simp add: power_int_diff)
  also have "\<dots> = of_int (m * 2 ^ nat (t - e))"
    using \<open>e \<le> t\<close> by (simp only: powi2_nonneg_int diff_ge_0_iff_ge of_int_mult)
  finally have k: "x / 2 powi e = of_int (m * 2 ^ nat (t - e))" .
  then have "of_int (m * 2 ^ nat (t - e)) * 2 powi e = x"
    by (metis nonzero_eq_divide_eq power_int_not_zero zero_neq_numeral)
  moreover have "rnd_pos x = of_int (rne (x / 2 powi e)) * 2 powi e"
    using pos by (simp only: rnd_pos_def Let_def e_def[symmetric]) simp
  ultimately show ?thesis by (simp only: k rne_of_int)
qed

lemma rnd_pos_pow2: "rnd_pos (2 ^ n) = 2 ^ n"
  by (rule rnd_pos_scaled[of 1 "int n"]) simp_all

lemma rnd_pos_small_int: "0 \<le> i \<Longrightarrow> i < 2 ^ 53 \<Longrightarrow> rnd_pos (of_int i) = of_int i"
  using rnd_pos_scaled[of i 0 "of_int i"] by (cases "i = 0") (simp_all add: rnd_pos_def)

text \<open>The operations on non-negative finite values, as long as they do not overflow.\<close>

lemma rnd_nonneg_eq: "0 \<le> x \<Longrightarrow> rnd_pos x < 2 ^ 1024 \<Longrightarrow> rnd x = Fin (rnd_pos x)"
  by (simp add: rnd_def Let_def)

lemma rnd_pos_le_int:
  assumes "0 \<le> x" "x \<le> of_int i" "0 \<le> i" "i < 2 ^ 53"
  shows "rnd_pos x \<le> of_int i"
  using rnd_pos_mono[OF assms(1,2)] rnd_pos_small_int[OF assms(3,4)] by simp

lemma rnd_pos_le_pow2: "0 \<le> x \<Longrightarrow> x \<le> 2 ^ n \<Longrightarrow> rnd_pos x \<le> 2 ^ n"
  using rnd_pos_mono[of x "2 ^ n"] rnd_pos_pow2[of n] by simp

end
