(* ===== verification/GoTime.thy ===== *)
theory GoTime
  imports Float64
begin

text \<open>
  Package \<open>time\<close>: a \<open>Duration\<close> is a 64-bit count of nanoseconds.  \<open>ParseDuration\<close> follows the
  library's scanner, its overflow checks and its use of floating point for fractions;
  \<open>Seconds\<close> splits whole seconds from nanoseconds before it divides, as the library does.
\<close>

abbreviation (input) Second :: int where "Second \<equiv> 1000000000"
abbreviation (input) Minute :: int where "Minute \<equiv> 60000000000"
abbreviation (input) Millisecond :: int where "Millisecond \<equiv> 1000000"

definition Seconds :: "int \<Rightarrow> f64" where
  "Seconds d =
    f64_add (f64_of_int (quot64 d Second)) (f64_div (f64_of_int (rem64 d Second)) (Fin 1000000000))"

text \<open>\<open>leadingInt\<close>: the value of the leading digits, or \<open>None\<close> on overflow.\<close>

fun leadingInt :: "nat \<Rightarrow> string \<Rightarrow> (nat \<times> string) option" where
  "leadingInt x [] = Some (x, [])"
| "leadingInt x (c # cs) =
    (if \<not> is_digit c then Some (x, c # cs)
     else if 2 ^ 63 div 10 < x then None
     else let x' = x * 10 + digit_val c in if 2 ^ 63 < x' then None else leadingInt x' cs)"

text \<open>\<open>leadingFraction\<close>: digits that would overflow are skipped.\<close>

fun leadingFraction :: "nat \<Rightarrow> f64 \<Rightarrow> bool \<Rightarrow> string \<Rightarrow> nat \<times> f64 \<times> string" where
  "leadingFraction x scale ov [] = (x, scale, [])"
| "leadingFraction x scale ov (c # cs) =
    (if \<not> is_digit c then (x, scale, c # cs)
     else if ov then leadingFraction x scale ov cs
     else if (2 ^ 63 - 1) div 10 < x then leadingFraction x scale True cs
     else let y = x * 10 + digit_val c in
          if 2 ^ 63 < y then leadingFraction x scale True cs
          else leadingFraction y (f64_mul scale (Fin 10)) False cs)"

definition unit_of :: "string \<Rightarrow> nat option" where
  "unit_of u =
    (if u = ''ns'' then Some 1
     else if u \<in> {''us'', [CHR 0xC2, CHR 0xB5, CHR ''s''], [CHR 0xCE, CHR 0xBC, CHR ''s'']}
       then Some 1000
     else if u = ''ms'' then Some 1000000
     else if u = ''s'' then Some 1000000000
     else if u = ''m'' then Some 60000000000
     else if u = ''h'' then Some 3600000000000
     else None)"

fun f64_to_nat :: "f64 \<Rightarrow> nat" where
  "f64_to_nat (Fin x) = nat \<lfloor>x\<rfloor>"
| "f64_to_nat _ = 2 ^ 63"

definition unit_char :: "char \<Rightarrow> bool" where
  "unit_char c \<longleftrightarrow> c \<noteq> CHR ''.'' \<and> \<not> is_digit c"

text \<open>One iteration of the loop: a number with a unit, its value in nanoseconds, the rest.\<close>

definition parse_component :: "string \<Rightarrow> (nat \<times> string) option" where
  "parse_component s =
    (case s of
       [] \<Rightarrow> None
     | c # _ \<Rightarrow>
       if \<not> (c = CHR ''.'' \<or> is_digit c) then None
       else (case leadingInt 0 s of
          None \<Rightarrow> None
        | Some (v, s1) \<Rightarrow>
          let pre = (length s \<noteq> length s1);
              (f, scale, s2, post) =
                (case s1 of
                   d # ds \<Rightarrow>
                     if d = CHR ''.'' then
                       (case leadingFraction 0 (Fin 1) False ds of
                          (f, scale, r) \<Rightarrow> (f, scale, r, length ds \<noteq> length r))
                     else (0, Fin 1, s1, False)
                 | [] \<Rightarrow> (0, Fin 1, s1, False))
          in if \<not> pre \<and> \<not> post then None
             else let u = takeWhile unit_char s2; s3 = dropWhile unit_char s2 in
               if u = [] then None
               else (case unit_of u of
                   None \<Rightarrow> None
                 | Some unit \<Rightarrow>
                   if 2 ^ 63 div unit < v then None
                   else let v1 = v * unit;
                            v2 = (if 0 < f
                                  then v1 + f64_to_nat (f64_mul (f64_of_int (int f))
                                              (f64_div (f64_of_int (int unit)) scale))
                                  else v1)
                        in if 2 ^ 63 < v2 then None else Some (v2, s3))))"

lemma length_leadingInt: "leadingInt x s = Some (v, r) \<Longrightarrow> length r \<le> length s"
  by (induction x s rule: leadingInt.induct) (auto simp: Let_def split: if_splits)

lemma length_leadingFraction:
  "leadingFraction x sc ov s = (f, scale, r) \<Longrightarrow> length r \<le> length s"
  by (induction x sc ov s rule: leadingFraction.induct) (auto simp: Let_def split: if_splits)

lemma length_dropWhile_less: "length xs \<le> n \<Longrightarrow> length (dropWhile P xs) < Suc n"
  using length_dropWhile_le[of P xs] by simp

lemma length_dropWhile_takeWhile:
  "takeWhile P xs \<noteq> [] \<Longrightarrow> length (dropWhile P xs) < length xs"
  by (cases xs) (auto simp: length_dropWhile_less split: if_splits)

lemma parse_component_shorter [termination_simp]:
  "parse_component s = Some (v, r) \<Longrightarrow> length r < length s"
  by (auto simp: parse_component_def Let_def
           split: list.splits option.splits if_splits prod.splits
           dest!: length_leadingInt length_leadingFraction length_dropWhile_takeWhile
           intro!: length_dropWhile_less)

fun parse_components :: "nat \<Rightarrow> string \<Rightarrow> nat option" where
  "parse_components d s =
    (if s = [] then Some d
     else case parse_component s of
            None \<Rightarrow> None
          | Some (v, r) \<Rightarrow>
              let d' = (d + v) mod 2 ^ 64 in
              if 2 ^ 63 < d' then None else parse_components d' r)"

declare parse_components.simps [simp del]

definition ParseDuration :: "string \<Rightarrow> int option" where
  "ParseDuration s =
    (case split_sign s of (neg, t) \<Rightarrow>
      if t = ''0'' then Some 0
      else if t = '''' then None
      else case parse_components 0 t of
             None \<Rightarrow> None
           | Some d \<Rightarrow> if neg then Some (- int d)
                       else if 2 ^ 63 - 1 < d then None else Some (int d))"


section \<open>Ranges and round trips\<close>

lemma parse_components_bound:
  "d \<le> 2 ^ 63 \<Longrightarrow> parse_components d s = Some r \<Longrightarrow> r \<le> 2 ^ 63"
proof (induction d s rule: parse_components.induct)
  case (1 d s)
  then show ?case
    by (subst (asm) parse_components.simps) (auto simp: Let_def split: if_splits option.splits)
qed

lemma ParseDuration_range: "ParseDuration s = Some d \<Longrightarrow> int64_range d"
  using parse_components_bound[of 0]
  by (fastforce simp: ParseDuration_def split: prod.splits if_splits option.splits)

lemma leadingInt_digits:
  assumes "list_all is_digit ds" "\<not> is_digit c"
  shows "foldl (\<lambda>a c. a * 10 + digit_val c) x ds \<le> 2 ^ 63 \<Longrightarrow>
    leadingInt x (ds @ c # cs) = Some (foldl (\<lambda>a c. a * 10 + digit_val c) x ds, c # cs)"
  using assms(1)
proof (induction ds arbitrary: x)
  case (Cons d ds)
  have mono: "x \<le> foldl (\<lambda>a c. a * 10 + digit_val c) x ds" for x
  proof (induction ds arbitrary: x)
    case (Cons d ds)
    from Cons[of "x * 10 + digit_val d"] show ?case by simp
  qed simp
  from Cons.prems mono[of "x * 10 + digit_val d"]
  have "x * 10 + digit_val d \<le> 2 ^ 63" by simp
  then have "x \<le> 2 ^ 63 div 10" "x * 10 + digit_val d \<le> 2 ^ 63" by auto
  with Cons show ?case by (simp add: Let_def)
qed (use assms in simp)

text \<open>A whole number of seconds, minutes, \<open>\<dots>\<close> is read back exactly.\<close>

lemma ParseDuration_whole:
  assumes u: "unit_of u = Some unit" and n: "n * unit < 2 ^ 63"
  shows "ParseDuration (show_base 10 n @ u) = Some (int (n * unit))"
proof -
  have uc: "u \<noteq> []" "list_all unit_char u" and unit: "0 < unit"
    using u by (auto simp: unit_of_def unit_char_def is_digit_def split: if_splits)
  then obtain c cs where ucs: "u = c # cs" and c: "\<not> is_digit c" "c \<noteq> CHR ''.''"
    by (cases u) (auto simp: unit_char_def)
  have "n \<le> n * unit" using unit by simp
  then have nb: "n \<le> 2 ^ 63" using n by linarith
  have ds: "list_all is_digit (show_base 10 n)" using show_dec_digits by (simp add: list_all_iff)
  have li: "leadingInt 0 (show_base 10 n @ u) = Some (n, u)"
    using leadingInt_digits[OF ds c(1), of 0 cs] nb read_show_base[of 10 n]
    by (simp add: ucs read_base_def)
  obtain d dr where s: "show_base 10 n @ u = d # dr" and d: "is_digit d"
    using ds by (cases "show_base 10 n") auto
  have tw: "unit_char c" "takeWhile unit_char cs = cs" "dropWhile unit_char cs = []"
    using uc(2) by (auto simp: ucs list_all_iff)
  have len: "length dr \<noteq> length cs"
    using arg_cong[OF s, of length] show_base_nonempty[of 10 n]
    by (auto simp: ucs simp del: show_base_nonempty)
  have "n \<le> 2 ^ 63 div unit"
    using n unit by (simp add: less_eq_div_iff_mult_less_eq)
  then have pc: "parse_component (show_base 10 n @ u) = Some (n * unit, [])"
    using li[unfolded s, unfolded ucs] d n u[unfolded ucs] c len
    unfolding s by (simp add: parse_component_def Let_def tw del: leadingInt.simps)
  have "split_sign (show_base 10 n @ u) = (False, show_base 10 n @ u)"
    using d unfolding s by (auto simp: split_sign_def is_digit_def)
  moreover have "show_base 10 n @ u \<noteq> ''0''"
    using uc(1) by (cases "show_base 10 n"; cases u) auto
  ultimately show ?thesis
    using n pc by (simp add: ParseDuration_def parse_components.simps[of _ "_ @ _"]
        parse_components.simps[of _ "[]"])
qed

section \<open>Rounding and printing\<close>

text \<open>\<open>Duration.Round(m)\<close> for \<open>m\<close> positive: half away from zero, saturating.\<close>

definition Round :: "int \<Rightarrow> int \<Rightarrow> int" where
  "Round m d =
    (let r = \<bar>d\<bar> mod m in
     if d < 0 then (if 2 * r < m then d + r else max (d - m + r) (- (2 ^ 63)))
     else (if 2 * r < m then d - r else min (d + m - r) (2 ^ 63 - 1)))"

text \<open>
  \<open>Duration.String()\<close>: hours, minutes and seconds with leading zero units omitted, or a smaller unit
  below a second; a fraction has no trailing zeros.  The first argument of \<open>fmt_frac\<close> is the
  number of digits after the point.
\<close>

definition fmt_frac :: "nat \<Rightarrow> nat \<Rightarrow> string" where
  "fmt_frac prec u =
    (let ds = pad_zero prec (show_base 10 (u mod 10 ^ prec));
         ks = rev (dropWhile (\<lambda>c. c = CHR ''0'') (rev ds))
     in show_base 10 (u div 10 ^ prec) @ (if ks = [] then [] else CHR ''.'' # ks))"

definition duration_string :: "int \<Rightarrow> string" where
  "duration_string d =
    (let u = nat \<bar>d\<bar>;
         body =
           (if u = 0 then ''0s''
            else if u < 1000 then show_base 10 u @ ''ns''
            else if u < 1000000 then fmt_frac 3 u @ [CHR 0xC2, CHR 0xB5] @ ''s''
            else if u < 1000000000 then fmt_frac 6 u @ ''ms''
            else
              let secs = u div 1000000000; mins = secs div 60; hours = mins div 60;
                  sec_part = fmt_frac 9 (u mod (60 * 1000000000)) @ ''s''
              in if mins = 0 then sec_part
                 else if hours = 0 then show_base 10 (mins mod 60) @ ''m'' @ sec_part
                 else show_base 10 hours @ ''h'' @ show_base 10 (mins mod 60) @ ''m'' @ sec_part)
     in if d < 0 then CHR ''-'' # body else body)"

end
