(* ===== verification/ScenarioTypes.thy ===== *)
theory ScenarioTypes
  imports GoTime
begin

text \<open>
  \<open>src/scenario/types.go\<close>: the scenario document, the VM plan and the score.  The structs are
  records (their field names carry a prefix, since Isabelle's record fields share one name
  space); Go's string enumerations stay strings, because a scenario file may hold any text
  there.  Maps with string keys are finite maps or, where the program only looks keys up,
  partial functions.

  Shown: the score never drops below zero, never exceeds the base, equals the base minus the
  truncated time penalty and the hint penalty, and never rises as time passes or hints are used,
  all in 64-bit and floating-point arithmetic.
\<close>

type_synonym Architecture = string
type_synonym Difficulty = string
type_synonym FaultType = string
type_synonym CheckType = string

definition ArchMonolith :: Architecture where "ArchMonolith = ''monolith''"
definition ArchMicroservices :: Architecture where "ArchMicroservices = ''microservices''"
definition ArchBoth :: Architecture where "ArchBoth = ''both''"

definition DifficultyEasy :: Difficulty where "DifficultyEasy = ''easy''"
definition DifficultyMedium :: Difficulty where "DifficultyMedium = ''medium''"
definition DifficultyHard :: Difficulty where "DifficultyHard = ''hard''"
definition DifficultyExpert :: Difficulty where "DifficultyExpert = ''expert''"

record ScenarioMeta =
  meta_ID :: string
  meta_Title :: string
  meta_Difficulty :: Difficulty
  meta_Architecture :: Architecture
  meta_Tags :: "string list"
  meta_Description :: string

record Tier =
  tier_Name :: string
  tier_Count :: int
  tier_CountMin :: int
  tier_CountMax :: int
  tier_VCPUs :: int
  tier_MemMB :: int
  tier_DiskMB :: int
  tier_Services :: "string list"
  tier_Setup :: "string list"

record Environment =
  env_Extends :: string
  env_Tiers :: "Tier list"

definition FaultCPU :: FaultType where "FaultCPU = ''cpu''"
definition FaultMemory :: FaultType where "FaultMemory = ''memory''"
definition FaultDisk :: FaultType where "FaultDisk = ''disk''"
definition FaultNetwork :: FaultType where "FaultNetwork = ''network''"
definition FaultProcess :: FaultType where "FaultProcess = ''process''"
definition FaultDNS :: FaultType where "FaultDNS = ''dns''"
definition FaultFilesystem :: FaultType where "FaultFilesystem = ''filesystem''"
definition FaultResource :: FaultType where "FaultResource = ''resource''"

record FaultTarget =
  target_VM :: string
  target_Tier :: string
  target_Select :: string

record FaultTrigger =
  trigger_Fault :: string
  trigger_When :: string

record Fault =
  fault_ID :: string
  fault_Type :: FaultType
  fault_Target :: FaultTarget
  fault_Params :: "(string, string) fmap"
  fault_At :: string
  fault_Duration :: string
  fault_Triggers :: "FaultTrigger list"

text \<open>A duration field: empty means zero; \<open>None\<close> is the error of \<open>time.ParseDuration\<close>.\<close>

definition AtDuration :: "Fault \<Rightarrow> int option" where
  "AtDuration f = (if fault_At f = '''' then Some 0 else ParseDuration (fault_At f))"

definition DurationDuration :: "Fault \<Rightarrow> int option" where
  "DurationDuration f =
    (if fault_Duration f = '''' then Some 0 else ParseDuration (fault_Duration f))"

record Alert =
  alert_Name :: string
  alert_Severity :: string
  alert_FiredAt :: string
  alert_Message :: string

record Signals =
  signals_Alerts :: "Alert list"
  signals_Symptoms :: "string list"
  signals_RunbookURL :: string

definition CheckHTTP :: CheckType where "CheckHTTP = ''http''"
definition CheckFileExists :: CheckType where "CheckFileExists = ''file-exists''"
definition CheckAgentMetric :: CheckType where "CheckAgentMetric = ''agent-metric''"
definition CheckProcessActive :: CheckType where "CheckProcessActive = ''process-running''"

record ObjectiveCheck =
  check_Type :: CheckType
  check_Target :: FaultTarget
  check_Path :: string
  check_ExpectedStatus :: int
  check_Window :: string
  check_Metric :: string
  check_Condition :: string
  check_Service :: string

record Objective =
  objective_ID :: string
  objective_Description :: string
  objective_Check :: ObjectiveCheck

record Hint =
  hint_Text :: string

record Scoring =
  scoring_Base :: int
  scoring_TimePenaltyPerSecond :: f64
  scoring_HintPenalty :: int
  scoring_PerfectWindow :: string

record Scenario =
  Meta :: ScenarioMeta
  Environment :: Environment
  Faults :: "Fault list"
  Signals :: Signals
  Objectives :: "Objective list"
  Hints :: "Hint list"
  Scoring :: Scoring

text \<open>The constant \<open>0.05\<close> is the floating-point number nearest to it.\<close>

definition DefaultScoring :: Scoring where
  "DefaultScoring =
    \<lparr>scoring_Base = 100, scoring_TimePenaltyPerSecond = rnd (5 / 100),
     scoring_HintPenalty = 10, scoring_PerfectWindow = ''5m''\<rparr>"

record Score =
  score_Base :: int
  score_Elapsed :: int
  score_HintsUsed :: int
  score_HintPenalty :: int
  score_TimePenaltyPerSecond :: f64

definition Current :: "Score \<Rightarrow> int" where
  "Current s =
    (let timePenalty = f64_to_int (f64_mul (Seconds (score_Elapsed s)) (score_TimePenaltyPerSecond s));
         hintPenalty = wrap64 (score_HintsUsed s * score_HintPenalty s);
         res = wrap64 (wrap64 (score_Base s - timePenalty) - hintPenalty)
     in if res < 0 then 0 else res)"

record VMEntry =
  vm_Index :: int
  vm_Name :: string
  vm_Tier :: string
  vm_TierIndex :: int
  vm_VCPUs :: int
  vm_MemMB :: int
  vm_DiskMB :: int
  vm_Services :: "string list"

record VMPlan =
  TotalVMs :: int
  VMs :: "VMEntry list"
  ByName :: "string \<rightharpoonup> nat"
  ByTier :: "string \<rightharpoonup> nat list"

definition AgentURL :: "VMEntry \<Rightarrow> string" where
  "AgentURL e = ''http://172.16.'' @ fmt_d (vm_Index e) @ ''.2:7777''"

record RunOptions =
  opt_KernelPath :: string
  opt_RootFSPath :: string
  opt_CloudInitISO :: string
  opt_FirecrackerBin :: string
  opt_ScaleOverrides :: "(string, int) fmap"
  opt_DiskOverrides :: "(string, int) fmap"
  opt_DryRun :: bool
  opt_WebPort :: int
  opt_VMIDs :: "int list"


section \<open>The score\<close>

lemma quot_rem_nonneg:
  assumes "0 \<le> d" "d < 2 ^ 63"
  shows "quot64 d Second = d div Second" "rem64 d Second = d mod Second"
proof -
  have "0 \<le> d div Second" "d div Second \<le> d" using assms by auto
  then show "quot64 d Second = d div Second"
    using assms by (cases "d = 0") (simp_all add: quot64_def wrap64_id sgn_if)
  show "rem64 d Second = d mod Second"
    using assms by (cases "d = 0") (simp_all add: rem64_def sgn_if)
qed

text \<open>The exact value that \<open>Seconds\<close> rounds.\<close>

definition seconds_exact :: "int \<Rightarrow> rat" where
  "seconds_exact d = of_int (d div Second) + rnd_pos (of_int (d mod Second) / of_int Second)"

lemma seconds_frac:
  "0 \<le> rnd_pos (of_int (d mod Second) / of_int Second)"
  "rnd_pos (of_int (d mod Second) / of_int Second) \<le> 1"
  "a mod Second \<le> b mod Second \<Longrightarrow>
    rnd_pos (of_int (a mod Second) / of_int Second) \<le> rnd_pos (of_int (b mod Second) / of_int Second)"
proof -
  have lt: "d mod Second < Second" "0 \<le> d mod Second" for d by simp_all
  then have "(of_int (d mod Second) :: rat) \<le> of_int Second"
    by (metis less_imp_le of_int_le_iff)
  then have "of_int (d mod Second) / of_int Second \<le> (of_int 1 :: rat)" by simp
  from rnd_pos_le_int[OF _ this]
  show "rnd_pos (of_int (d mod Second) / of_int Second) \<le> 1" using lt[of d] by simp
qed (auto intro!: rnd_pos_nonneg rnd_pos_mono divide_right_mono)

lemma seconds_exact_bounds:
  assumes "0 \<le> d" "d < 2 ^ 63"
  shows "0 \<le> seconds_exact d" "seconds_exact d \<le> 2 ^ 34"
proof -
  have "0 \<le> d div Second" "d div Second + 1 \<le> 2 ^ 34" using assms by auto
  then have "of_int 0 \<le> (of_int (d div Second) :: rat)"
    "of_int (d div Second + 1) \<le> (of_int (2 ^ 34) :: rat)"
    by (simp_all only: of_int_le_iff)
  then have "(0::rat) \<le> of_int (d div Second)" "of_int (d div Second) + 1 \<le> (2::rat) ^ 34"
    by simp_all
  with seconds_frac(1,2)[of d] show "0 \<le> seconds_exact d" "seconds_exact d \<le> 2 ^ 34"
    unfolding seconds_exact_def by linarith+
qed

lemma seconds_exact_mono:
  assumes "a \<le> b"
  shows "seconds_exact a \<le> seconds_exact b"
proof (cases "a div Second = b div Second")
  case True
  then have "a mod Second \<le> b mod Second"
    using assms by (simp add: minus_mult_div_eq_mod[symmetric])
  with True show ?thesis using seconds_frac(3) by (simp add: seconds_exact_def)
next
  case False
  with assms have "a div Second + 1 \<le> b div Second"
    using zdiv_mono1[of a b Second] by linarith
  then have "of_int (a div Second) + 1 \<le> (of_int (b div Second) :: rat)"
    by (metis of_int_1 of_int_add of_int_le_iff)
  with seconds_frac(2)[of a] seconds_frac(1)[of b] show ?thesis
    unfolding seconds_exact_def by linarith
qed

lemma pow2_lt_1024: "x \<le> (2::rat) ^ 60 \<Longrightarrow> x < 2 ^ 1024"
  by (erule le_less_trans, rule power_strict_increasing) simp_all

lemma rnd_small: "0 \<le> x \<Longrightarrow> x \<le> 2 ^ 60 \<Longrightarrow> rnd x = Fin (rnd_pos x)"
  by (rule rnd_nonneg_eq, assumption) (rule pow2_lt_1024, rule rnd_pos_le_pow2)

lemma f64_of_small_int:
  assumes "0 \<le> i" "i < 2 ^ 53"
  shows "f64_of_int i = Fin (of_int i)"
proof -
  have "i \<le> 2 ^ 60" using assms by simp
  then have "of_int i \<le> (2::rat) ^ 60" by (metis of_int_le_iff of_int_numeral of_int_power)
  then show ?thesis using assms rnd_pos_small_int[OF assms]
    by (simp add: f64_of_int_def rnd_small)
qed

lemma Seconds_eq:
  assumes "0 \<le> d" "d < 2 ^ 63"
  shows "Seconds d = Fin (rnd_pos (seconds_exact d))" "0 \<le> rnd_pos (seconds_exact d)"
    "rnd_pos (seconds_exact d) \<le> 2 ^ 34"
proof -
  note b = seconds_exact_bounds[OF assms]
  show "0 \<le> rnd_pos (seconds_exact d)" "rnd_pos (seconds_exact d) \<le> 2 ^ 34"
    by (rule rnd_pos_nonneg[OF b(1)], rule rnd_pos_le_pow2[OF b])
  have "d div Second < 2 ^ 53" "0 \<le> d div Second" using assms by auto
  note q = f64_of_small_int[OF this(2,1)]
  have "d mod Second < Second" by simp
  then have "d mod Second < 2 ^ 53" "0 \<le> d mod Second" by simp_all
  note r = f64_of_small_int[OF this(2,1)]
  let ?f = "of_int (d mod Second) / of_int Second :: rat"
  have "?f \<le> 1" "0 \<le> ?f" by (simp_all add: less_imp_le)
  then have "rnd ?f = Fin (rnd_pos ?f)" by (simp add: rnd_small)
  moreover have "rnd (seconds_exact d) = Fin (rnd_pos (seconds_exact d))"
    using b by (simp add: rnd_small)
  ultimately show "Seconds d = Fin (rnd_pos (seconds_exact d))"
    unfolding Seconds_def quot_rem_nonneg[OF assms] q r seconds_exact_def by simp
qed

text \<open>
  The scores the theorems are about: a non-negative elapsed time, a finite non-negative rate up
  to a million points a second, non-negative base and hint penalty, and no overflow of their
  own.
\<close>

definition rate_of :: "f64 \<Rightarrow> rat" where
  "rate_of r = (case r of Fin x \<Rightarrow> x | _ \<Rightarrow> - 1)"

definition score_ok :: "Score \<Rightarrow> bool" where
  "score_ok s \<longleftrightarrow> 0 \<le> score_Elapsed s \<and> score_Elapsed s < 2 ^ 63 \<and>
    0 \<le> rate_of (score_TimePenaltyPerSecond s) \<and> rate_of (score_TimePenaltyPerSecond s) \<le> 1000000 \<and>
    0 \<le> score_Base s \<and> score_Base s < 2 ^ 63 \<and>
    0 \<le> score_HintsUsed s * score_HintPenalty s \<and> score_HintsUsed s * score_HintPenalty s < 2 ^ 62"

definition time_penalty :: "int \<Rightarrow> f64 \<Rightarrow> int" where
  "time_penalty d r = \<lfloor>rnd_pos (rnd_pos (seconds_exact d) * rate_of r)\<rfloor>"

lemma rate_of_nonneg: "0 \<le> rate_of r \<Longrightarrow> r = Fin (rate_of r)"
  by (cases r) (auto simp: rate_of_def)

lemma time_penalty_bounds:
  assumes "0 \<le> d" "d < 2 ^ 63" "0 \<le> rate_of r" "rate_of r \<le> 1000000"
  shows "f64_to_int (f64_mul (Seconds d) r) = time_penalty d r"
    and "0 \<le> time_penalty d r" "time_penalty d r \<le> 2 ^ 54"
proof -
  let ?p = "rnd_pos (seconds_exact d) * rate_of r"
  note sec = Seconds_eq[OF assms(1,2)]
  have "rate_of r \<le> 2 ^ 20" using assms(4) by simp
  with sec(2,3) assms(3) have "?p \<le> 2 ^ 34 * 2 ^ 20" by (intro mult_mono) auto
  then have p: "0 \<le> ?p" "?p \<le> 2 ^ 54" using sec(2) assms(3) by (simp_all flip: power_add)
  have "?p \<le> 2 ^ 60" using p(2) by simp
  then have rnd: "rnd ?p = Fin (rnd_pos ?p)" by (rule rnd_small[OF p(1)])
  have rp: "0 \<le> rnd_pos ?p" "rnd_pos ?p \<le> 2 ^ 54"
    by (rule rnd_pos_nonneg[OF p(1)], rule rnd_pos_le_pow2[OF p])
  then have "rnd_pos ?p \<le> of_int (2 ^ 54)" by simp
  from floor_mono[OF this] rp(1) show b: "0 \<le> time_penalty d r" "time_penalty d r \<le> 2 ^ 54"
    by (simp_all add: time_penalty_def)
  show "f64_to_int (f64_mul (Seconds d) r) = time_penalty d r"
    using b rp(1) rnd by (subst rate_of_nonneg[OF assms(3)]) (simp add: sec(1) time_penalty_def Let_def)
qed

lemma time_penalty_mono:
  assumes "0 \<le> d" "d \<le> e" "e < 2 ^ 63" "0 \<le> rate_of r"
  shows "time_penalty d r \<le> time_penalty e r"
proof -
  note b = seconds_exact_bounds(1)[of d]
  have "rnd_pos (seconds_exact d) \<le> rnd_pos (seconds_exact e)"
    using assms b by (intro rnd_pos_mono seconds_exact_mono) auto
  then have "rnd_pos (seconds_exact d) * rate_of r \<le> rnd_pos (seconds_exact e) * rate_of r"
    using assms(4) by (rule mult_right_mono)
  then show ?thesis
    unfolding time_penalty_def using assms b
    by (intro floor_mono rnd_pos_mono mult_nonneg_nonneg rnd_pos_nonneg) auto
qed

lemma Current_eq:
  assumes "score_ok s"
  shows "Current s = max 0 (score_Base s -
    time_penalty (score_Elapsed s) (score_TimePenaltyPerSecond s) -
    score_HintsUsed s * score_HintPenalty s)"
proof -
  let ?t = "time_penalty (score_Elapsed s) (score_TimePenaltyPerSecond s)"
  let ?h = "score_HintsUsed s * score_HintPenalty s"
  have ok: "0 \<le> score_Elapsed s" "score_Elapsed s < 2 ^ 63"
    "0 \<le> rate_of (score_TimePenaltyPerSecond s)" "rate_of (score_TimePenaltyPerSecond s) \<le> 1000000"
    "0 \<le> score_Base s" "score_Base s < 2 ^ 63" "0 \<le> ?h" "?h < 2 ^ 62"
    using assms by (simp_all add: score_ok_def)
  note t = time_penalty_bounds[OF ok(1-4)]
  have "wrap64 ?h = ?h" "wrap64 (score_Base s - ?t) = score_Base s - ?t"
    "wrap64 (score_Base s - ?t - ?h) = score_Base s - ?t - ?h"
    using ok(5-8) t(2,3) by (auto intro!: wrap64_id)
  then show ?thesis by (simp add: Current_def t(1) Let_def)
qed

text \<open>
  C23. The score is a formula of time and hints.  For an elapsed time of at least 0 that a duration can
  hold, a rate between 0 and a million points per second, a base between 0 and 2^63 and a hint penalty
  between 0 and 2^62 in total: the current score, computed in 64-bit and floating-point arithmetic, is
  the base minus the truncated time penalty minus the hint penalty, and zero where that is negative;
  it never exceeds the base.  The penalty runs from the first second: the perfect window of the
  scoring rules is not part of the formula.
\<close>

theorem Current_spec:
  assumes "score_ok s"
  shows "Current s = max 0 (score_Base s -
      \<lfloor>rnd_pos (rnd_pos (seconds_exact (score_Elapsed s)) * rate_of (score_TimePenaltyPerSecond s))\<rfloor> -
      score_HintsUsed s * score_HintPenalty s) \<and>
    0 \<le> Current s \<and> Current s \<le> score_Base s"
proof -
  have ok: "0 \<le> score_Elapsed s" "score_Elapsed s < 2 ^ 63"
    "0 \<le> rate_of (score_TimePenaltyPerSecond s)" "rate_of (score_TimePenaltyPerSecond s) \<le> 1000000"
    "0 \<le> score_Base s" "0 \<le> score_HintsUsed s * score_HintPenalty s"
    using assms by (simp_all add: score_ok_def)
  note t = time_penalty_bounds(2)[OF ok(1-4)]
  show ?thesis
    unfolding Current_eq[OF assms] time_penalty_def[symmetric] using t ok(5,6) by linarith
qed

lemma Current_mono:
  assumes "score_ok s" "score_ok t"
    and "score_Base t = score_Base s" "score_HintPenalty t = score_HintPenalty s"
      "score_TimePenaltyPerSecond t = score_TimePenaltyPerSecond s"
    and "score_Elapsed s \<le> score_Elapsed t" "score_HintsUsed s \<le> score_HintsUsed t"
      "0 \<le> score_HintPenalty s"
  shows "Current t \<le> Current s"
proof -
  have "score_HintsUsed s * score_HintPenalty s \<le> score_HintsUsed t * score_HintPenalty s"
    using assms(7,8) by (rule mult_right_mono)
  moreover have "time_penalty (score_Elapsed s) (score_TimePenaltyPerSecond s) \<le>
      time_penalty (score_Elapsed t) (score_TimePenaltyPerSecond s)"
    using assms by (intro time_penalty_mono) (auto simp: score_ok_def)
  ultimately show ?thesis
    using assms(3-5) by (simp add: Current_eq assms(1,2))
qed

text \<open>
  The score never improves by waiting or by asking for hints: with the same rules, a later
  moment with at least as many hints used has at most the score of the earlier one.
\<close>

theorem Current_antitone:
  assumes "score_ok s" "score_ok t"
    and "score_Base t = score_Base s" "score_HintPenalty t = score_HintPenalty s"
      "score_TimePenaltyPerSecond t = score_TimePenaltyPerSecond s"
    and "score_Elapsed s \<le> score_Elapsed t" "score_HintsUsed s \<le> score_HintsUsed t"
      "0 \<le> score_HintPenalty s"
  shows "Current t \<le> Current s"
  by (rule Current_mono[OF assms])

lemma rate_DefaultScoring:
  "0 \<le> rate_of (scoring_TimePenaltyPerSecond DefaultScoring)"
  "rate_of (scoring_TimePenaltyPerSecond DefaultScoring) \<le> 1"
proof -
  have "rnd (5 / 100) = Fin (rnd_pos (5 / 100))" by (rule rnd_small) simp_all
  moreover have "rnd_pos (5 / 100) \<le> of_int 1" by (rule rnd_pos_le_int) simp_all
  ultimately show "0 \<le> rate_of (scoring_TimePenaltyPerSecond DefaultScoring)"
    "rate_of (scoring_TimePenaltyPerSecond DefaultScoring) \<le> 1"
    using rnd_pos_nonneg[of "5 / 100"] by (simp_all add: DefaultScoring_def rate_of_def)
qed

definition default_score :: "int \<Rightarrow> int \<Rightarrow> Score" where
  "default_score elapsed hints =
    \<lparr>score_Base = scoring_Base DefaultScoring, score_Elapsed = elapsed, score_HintsUsed = hints,
     score_HintPenalty = scoring_HintPenalty DefaultScoring,
     score_TimePenaltyPerSecond = scoring_TimePenaltyPerSecond DefaultScoring\<rparr>"

lemma score_ok_default:
  "0 \<le> d \<Longrightarrow> d < 2 ^ 63 \<Longrightarrow> 0 \<le> h \<Longrightarrow> h < 2 ^ 32 \<Longrightarrow> score_ok (default_score d h)"
  using rate_DefaultScoring by (simp add: score_ok_def default_score_def) (simp add: DefaultScoring_def)

theorem Current_antitone_witness:
  "Current (default_score (10 * Minute) 2) \<le> Current (default_score Minute 1)"
  by (rule Current_antitone[OF score_ok_default score_ok_default])
     (simp_all add: default_score_def DefaultScoring_def)

lemma rate_default_exact: "rnd_pos (1 / 20) = 7205759403792794 / 2 ^ 57"
proof -
  have "ilog2 (1 / 20) = - 5" by (simp add: ilog2_def bits.simps)
  moreover have "(2::rat) powi - 57 = 1 / 144115188075855872" by (simp add: power_int_def power_one_over)
  moreover have "\<lfloor>36028797018963968 / 5 :: rat\<rfloor> = 7205759403792793" by (rule floor_unique) simp_all
  ultimately show ?thesis by (simp add: rnd_pos_def rne_def Let_def)
qed

lemma minute_penalty:
  "\<lfloor>rnd_pos (rnd_pos (seconds_exact Minute) * rate_of (score_TimePenaltyPerSecond (default_score Minute h)))\<rfloor> = 3"
proof -
  have sec: "rnd_pos (seconds_exact Minute) = 60"
    using rnd_pos_small_int[of 60] by (simp add: seconds_exact_def rnd_pos_def)
  let ?p = "60 * (7205759403792794 / 2 ^ 57) :: rat"
  have "rnd_pos 3 \<le> rnd_pos ?p" "rnd_pos ?p \<le> rnd_pos (7 / 2)"
    by (rule rnd_pos_mono; simp)+
  moreover have "rnd_pos 3 = 3" using rnd_pos_small_int[of 3] by simp
  moreover have "rnd_pos (7 / 2) = 7 / 2"
    by (rule rnd_pos_scaled[of 7 "- 1"]) (simp_all add: power_int_def)
  ultimately have fl: "\<lfloor>rnd_pos ?p\<rfloor> = 3" by (intro floor_unique) auto
  have rate: "rate_of (score_TimePenaltyPerSecond (default_score Minute h)) =
      7205759403792794 / 2 ^ 57"
    using rnd_small[of "1 / 20"] rate_default_exact
    by (simp add: default_score_def DefaultScoring_def rate_of_def)
  show ?thesis unfolding rate sec using fl .
qed

lemma default_fields:
  "score_Base (default_score d h) = 100" "score_Elapsed (default_score d h) = d"
  "score_HintsUsed (default_score d h) = h" "score_HintPenalty (default_score d h) = 10"
  by (simp_all add: default_score_def DefaultScoring_def)

theorem Current_spec_witness: "Current (default_score Minute 1) = 87"
proof -
  have ok: "score_ok (default_score Minute 1)" by (rule score_ok_default) simp_all
  from Current_spec[OF ok, unfolded default_fields minute_penalty] show ?thesis by simp
qed

text \<open>
  The perfect window has no effect.  Under the default rules, whose window is five minutes, a trainee
  who recovers after one minute without a hint has 97 points.
\<close>

lemma perfect_window_unused:
  "scoring_PerfectWindow DefaultScoring = ''5m''" "Current (default_score Minute 0) = 97"
proof -
  show "scoring_PerfectWindow DefaultScoring = ''5m''" by (simp add: DefaultScoring_def)
  have ok: "score_ok (default_score Minute 0)" by (rule score_ok_default) simp_all
  from Current_eq[OF ok, unfolded default_fields time_penalty_def minute_penalty] show "Current (default_score Minute 0) = 97" by simp
qed

end
