(* ===== verification/ScenarioPlan.thy ===== *)
theory ScenarioPlan
  imports ScenarioTypes
begin

text \<open>
  \<open>src/scenario/parser.go\<close>: loading and validating a scenario, resolving its tiers into a VM
  plan, and resolving the targets of faults and objectives against that plan.  Reading the file
  and the YAML decoder (a third-party package) are parameters of \<open>Load\<close>.  A slice access that
  would panic is the error \<open>IndexPanic\<close>.

  Shown: what validation guarantees and that it is idempotent; that a plan holds exactly the
  VMs the tiers ask for, in order, with unique names and unique identifiers, and that its two
  indexes agree with its list; when scaling is refused; that resolving a target against a plan
  the program built yields existing VMs of the right name or tier and never panics.
\<close>

datatype plan_error =
    ReadingFile
  | ParsingYAML
  | IDRequired
  | TitleRequired
  | TiersEmpty
  | TierNameRequired nat
  | FaultIDRequired
  | FaultTargetRequired string
  | BelowCountMin string int int
  | AboveCountMax string int int
  | UnknownVM string
  | UnknownTier string
  | NoTarget
  | IndexPanic


section \<open>Validation\<close>

definition default_tier :: "Tier \<Rightarrow> Tier" where
  "default_tier t =
    (let t1 = (if tier_Count t \<le> 0 then t\<lparr>tier_Count := 1\<rparr> else t);
         t2 = (if tier_VCPUs t1 \<le> 0 then t1\<lparr>tier_VCPUs := 1\<rparr> else t1);
         t3 = (if tier_MemMB t2 \<le> 0 then t2\<lparr>tier_MemMB := 512\<rparr> else t2)
     in if tier_DiskMB t3 < 0 then t3\<lparr>tier_DiskMB := 0\<rparr> else t3)"

fun validate_tiers :: "nat \<Rightarrow> Tier list \<Rightarrow> plan_error + Tier list" where
  "validate_tiers i [] = Inr []"
| "validate_tiers i (t # ts) =
    (if tier_Name t = '''' then Inl (TierNameRequired i)
     else case validate_tiers (Suc i) ts of
            Inl e \<Rightarrow> Inl e
          | Inr ts' \<Rightarrow> Inr (default_tier t # ts'))"

fun validate_faults :: "Fault list \<Rightarrow> plan_error option" where
  "validate_faults [] = None"
| "validate_faults (f # fs) =
    (if fault_ID f = '''' then Some FaultIDRequired
     else if target_VM (fault_Target f) = '''' \<and> target_Tier (fault_Target f) = ''''
       then Some (FaultTargetRequired (fault_ID f))
     else validate_faults fs)"

definition validate :: "Scenario \<Rightarrow> plan_error + Scenario" where
  "validate s =
    (if meta_ID (Meta s) = '''' then Inl IDRequired
     else if meta_Title (Meta s) = '''' then Inl TitleRequired
     else if env_Tiers (Environment s) = [] then Inl TiersEmpty
     else case validate_tiers 0 (env_Tiers (Environment s)) of
       Inl e \<Rightarrow> Inl e
     | Inr ts \<Rightarrow>
        let s = s\<lparr>Environment := (Environment s)\<lparr>env_Tiers := ts\<rparr>\<rparr> in
        (case validate_faults (Faults s) of
           Some e \<Rightarrow> Inl e
         | None \<Rightarrow>
            Inr (if scoring_Base (Scoring s) = 0 then s\<lparr>Scoring := DefaultScoring\<rparr> else s)))"

definition Load ::
  "(string \<Rightarrow> string option) \<Rightarrow> (string \<Rightarrow> Scenario option) \<Rightarrow> string \<Rightarrow> plan_error + Scenario" where
  "Load readFile unmarshal path =
    (case readFile path of
       None \<Rightarrow> Inl ReadingFile
     | Some d \<Rightarrow> (case unmarshal d of None \<Rightarrow> Inl ParsingYAML | Some s \<Rightarrow> validate s))"


section \<open>The VM plan\<close>

definition tier_count :: "(string, int) fmap \<Rightarrow> Tier \<Rightarrow> plan_error + int" where
  "tier_count overrides tier =
    (case fmlookup overrides (tier_Name tier) of
       None \<Rightarrow> Inr (tier_Count tier)
     | Some n \<Rightarrow>
        if 0 < tier_CountMin tier \<and> n < tier_CountMin tier
          then Inl (BelowCountMin (tier_Name tier) n (tier_CountMin tier))
        else if 0 < tier_CountMax tier \<and> tier_CountMax tier < n
          then Inl (AboveCountMax (tier_Name tier) n (tier_CountMax tier))
        else Inr n)"

text \<open>The body of the inner loop: VM \<open>j\<close> of a tier, at the next slot.\<close>

definition vm_entry :: "(string, int) fmap \<Rightarrow> int list \<Rightarrow> Tier \<Rightarrow> nat \<Rightarrow> nat \<Rightarrow> VMEntry" where
  "vm_entry diskOverrides vmIDs tier j slot =
    \<lparr>vm_Index = (if slot < length vmIDs then vmIDs ! slot else int slot),
     vm_Name = tier_Name tier @ ''-'' @ fmt_d (int j),
     vm_Tier = tier_Name tier,
     vm_TierIndex = int j,
     vm_VCPUs = tier_VCPUs tier,
     vm_MemMB = tier_MemMB tier,
     vm_DiskMB = (case fmlookup diskOverrides (tier_Name tier) of
                    None \<Rightarrow> tier_DiskMB tier | Some d \<Rightarrow> d),
     vm_Services = tier_Services tier\<rparr>"

definition add_vm ::
  "(string, int) fmap \<Rightarrow> int list \<Rightarrow> Tier \<Rightarrow> nat \<Rightarrow> nat \<times> VMPlan \<Rightarrow> nat \<times> VMPlan" where
  "add_vm diskOverrides vmIDs tier j st =
    (case st of (slot, plan) \<Rightarrow>
      let entry = vm_entry diskOverrides vmIDs tier j slot;
          slicePos = length (VMs plan)
      in (Suc slot,
          plan\<lparr>VMs := VMs plan @ [entry],
               ByName := (ByName plan)(vm_Name entry \<mapsto> slicePos),
               ByTier := (ByTier plan)(tier_Name tier \<mapsto>
                 (case ByTier plan (tier_Name tier) of None \<Rightarrow> [] | Some is \<Rightarrow> is) @ [slicePos])\<rparr>))"

fun add_tiers ::
  "(string, int) fmap \<Rightarrow> (string, int) fmap \<Rightarrow> int list \<Rightarrow> Tier list \<Rightarrow> nat \<times> VMPlan \<Rightarrow>
   plan_error + nat \<times> VMPlan" where
  "add_tiers overrides diskOverrides vmIDs [] st = Inr st"
| "add_tiers overrides diskOverrides vmIDs (tier # tiers) st =
    (case tier_count overrides tier of
       Inl e \<Rightarrow> Inl e
     | Inr count \<Rightarrow>
        add_tiers overrides diskOverrides vmIDs tiers
          (fold (add_vm diskOverrides vmIDs tier) [0..<nat count] st))"

definition empty_plan :: VMPlan where
  "empty_plan = \<lparr>TotalVMs = 0, VMs = [], ByName = Map.empty, ByTier = Map.empty\<rparr>"

definition BuildVMPlan ::
  "Scenario \<Rightarrow> (string, int) fmap \<Rightarrow> (string, int) fmap \<Rightarrow> int list \<Rightarrow> plan_error + VMPlan" where
  "BuildVMPlan s overrides diskOverrides vmIDs =
    (case add_tiers overrides diskOverrides vmIDs (env_Tiers (Environment s)) (0, empty_plan) of
       Inl e \<Rightarrow> Inl e
     | Inr (slot, plan) \<Rightarrow> Inr (plan\<lparr>TotalVMs := int slot\<rparr>))"

definition first_of :: "nat list \<Rightarrow> plan_error + nat list" where
  "first_of indices = (case indices of [] \<Rightarrow> Inl IndexPanic | i # _ \<Rightarrow> Inr [i])"

definition ResolveTargets :: "FaultTarget \<Rightarrow> VMPlan \<Rightarrow> plan_error + nat list" where
  "ResolveTargets target plan =
    (if target_VM target \<noteq> '''' then
       (case ByName plan (target_VM target) of
          None \<Rightarrow> Inl (UnknownVM (target_VM target))
        | Some idx \<Rightarrow> Inr [idx])
     else if target_Tier target \<noteq> '''' then
       (case ByTier plan (target_Tier target) of
          None \<Rightarrow> Inl (UnknownTier (target_Tier target))
        | Some indices \<Rightarrow>
           if target_Select target = '''' \<or> target_Select target = ''all'' then Inr indices
           else if target_Select target = ''random(1)'' \<or> target_Select target = ''random''
             then first_of indices
           else if target_Select target = ''primary'' then first_of indices
           else Inr indices)
     else Inl NoTarget)"


section \<open>What validation guarantees\<close>

definition tier_ok :: "Tier \<Rightarrow> bool" where
  "tier_ok t \<longleftrightarrow> tier_Name t \<noteq> '''' \<and> 1 \<le> tier_Count t \<and> 1 \<le> tier_VCPUs t \<and>
    1 \<le> tier_MemMB t \<and> 0 \<le> tier_DiskMB t"

definition fault_ok :: "Fault \<Rightarrow> bool" where
  "fault_ok f \<longleftrightarrow> fault_ID f \<noteq> '''' \<and>
    (target_VM (fault_Target f) \<noteq> '''' \<or> target_Tier (fault_Target f) \<noteq> '''')"

definition scenario_ok :: "Scenario \<Rightarrow> bool" where
  "scenario_ok s \<longleftrightarrow> meta_ID (Meta s) \<noteq> '''' \<and> meta_Title (Meta s) \<noteq> '''' \<and>
    env_Tiers (Environment s) \<noteq> [] \<and> list_all tier_ok (env_Tiers (Environment s)) \<and>
    list_all fault_ok (Faults s) \<and> scoring_Base (Scoring s) \<noteq> 0"

lemma default_tier_ok: "tier_ok (default_tier t) \<longleftrightarrow> tier_Name t \<noteq> ''''"
  by (simp add: default_tier_def tier_ok_def Let_def)

lemma default_tier_id: "tier_ok t \<Longrightarrow> default_tier t = t"
  by (simp add: default_tier_def tier_ok_def Let_def)

lemma default_tier_name [simp]: "tier_Name (default_tier t) = tier_Name t"
  by (simp add: default_tier_def Let_def)

lemma validate_tiers_cases:
  "if list_all (\<lambda>t. tier_Name t \<noteq> '''') ts then validate_tiers i ts = Inr (map default_tier ts)
   else (\<exists>e. validate_tiers i ts = Inl e)"
  by (induction i ts rule: validate_tiers.induct) (auto split: if_splits)

lemma validate_faults_None_iff: "validate_faults fs = None \<longleftrightarrow> list_all fault_ok fs"
  by (induction fs) (auto simp: fault_ok_def)

lemma validate_Inr_iff:
  "validate s = Inr s' \<longleftrightarrow>
    meta_ID (Meta s) \<noteq> '''' \<and> meta_Title (Meta s) \<noteq> '''' \<and> env_Tiers (Environment s) \<noteq> [] \<and>
    list_all (\<lambda>t. tier_Name t \<noteq> '''') (env_Tiers (Environment s)) \<and> list_all fault_ok (Faults s) \<and>
    s' = s\<lparr>Environment := (Environment s)\<lparr>env_Tiers := map default_tier (env_Tiers (Environment s))\<rparr>,
          Scoring := if scoring_Base (Scoring s) = 0 then DefaultScoring else Scoring s\<rparr>"
  using validate_tiers_cases[of "env_Tiers (Environment s)" 0]
  by (cases "validate_faults (Faults s)")
     (auto simp: validate_def Let_def validate_faults_None_iff[symmetric] split: if_splits)

lemma validate_ok: "validate s = Inr s' \<Longrightarrow> scenario_ok s'"
  by (auto simp: validate_Inr_iff scenario_ok_def list_all_iff default_tier_ok DefaultScoring_def)

lemma validate_fixpoint: "scenario_ok s \<Longrightarrow> validate s = Inr s"
proof -
  assume ok: "scenario_ok s"
  then have "map default_tier (env_Tiers (Environment s)) = env_Tiers (Environment s)"
    by (auto simp: scenario_ok_def list_all_iff default_tier_id intro!: map_idI)
  with ok show ?thesis
    by (auto simp: validate_Inr_iff scenario_ok_def list_all_iff tier_ok_def)
qed

text \<open>
  C19. Validation.  A scenario that passes validation has an id, a title and at least one tier,
  every tier is named and asks for at least one VM with at least one CPU and positive memory,
  every fault has an id and a target, and the scoring rules have a base; and validation is
  idempotent: the scenarios that satisfy this are exactly its fixed points.
\<close>

theorem validate_establishes:
  "(validate s = Inr s' \<longrightarrow> scenario_ok s') \<and> (scenario_ok s \<longleftrightarrow> validate s = Inr s)"
  using validate_ok validate_fixpoint by blast


section \<open>What a plan holds\<close>

text \<open>The VMs a list of tiers asks for, in order, as pairs of a tier and a position in it.\<close>

definition tier_vms :: "(string, int) fmap \<Rightarrow> Tier \<Rightarrow> (Tier \<times> nat) list" where
  "tier_vms overrides t =
    (case tier_count overrides t of Inl _ \<Rightarrow> [] | Inr n \<Rightarrow> map (Pair t) [0..<nat n])"

definition requested :: "(string, int) fmap \<Rightarrow> Tier list \<Rightarrow> (Tier \<times> nat) list" where
  "requested overrides tiers = concat (map (tier_vms overrides) tiers)"

definition positions :: "('a \<Rightarrow> bool) \<Rightarrow> 'a list \<Rightarrow> nat list" where
  "positions P xs = filter (\<lambda>i. P (xs ! i)) [0..<length xs]"

definition index_ok :: "VMPlan \<Rightarrow> bool" where
  "index_ok plan \<longleftrightarrow>
    ByName plan = (\<lambda>n. let ps = positions (\<lambda>e. vm_Name e = n) (VMs plan)
                       in if ps = [] then None else Some (last ps)) \<and>
    ByTier plan = (\<lambda>t. let ps = positions (\<lambda>e. vm_Tier e = t) (VMs plan)
                       in if ps = [] then None else Some ps)"

lemma positions_snoc:
  "positions P (xs @ [x]) = positions P xs @ (if P x then [length xs] else [])"
proof -
  have "filter (\<lambda>i. P ((xs @ [x]) ! i)) [0..<length xs] = filter (\<lambda>i. P (xs ! i)) [0..<length xs]"
    by (rule filter_cong) (auto simp: nth_append)
  then show ?thesis by (simp add: positions_def)
qed

lemma positions_Nil [simp]: "positions P [] = []"
  by (simp add: positions_def)

lemma in_positions: "i \<in> set (positions P xs) \<longleftrightarrow> i < length xs \<and> P (xs ! i)"
  by (auto simp: positions_def)

lemma index_ok_add_vm:
  assumes "index_ok plan" "slot = length (VMs plan)"
  shows "index_ok (snd (add_vm disk vmIDs t j (slot, plan)))"
  using assms unfolding index_ok_def add_vm_def
  by (auto simp: Let_def positions_snoc vm_entry_def fun_eq_iff)

lemma add_vm_state:
  "add_vm disk vmIDs t j (slot, plan) =
    (Suc slot, snd (add_vm disk vmIDs t j (slot, plan)))"
  "VMs (snd (add_vm disk vmIDs t j (slot, plan))) = VMs plan @ [vm_entry disk vmIDs t j slot]"
  by (simp_all add: add_vm_def Let_def)

text \<open>The loops, as one fold over the requested VMs.\<close>

definition add_reqs ::
  "(string, int) fmap \<Rightarrow> int list \<Rightarrow> (Tier \<times> nat) list \<Rightarrow> nat \<times> VMPlan \<Rightarrow> nat \<times> VMPlan" where
  "add_reqs disk vmIDs = fold (\<lambda>(t, j). add_vm disk vmIDs t j)"

lemma add_tiers_eq:
  "add_tiers ov disk vmIDs tiers st =
    (if \<exists>t\<in>set tiers. isl (tier_count ov t)
     then Inl (projl (tier_count ov (hd (filter (\<lambda>t. isl (tier_count ov t)) tiers))))
     else Inr (add_reqs disk vmIDs (requested ov tiers) st))"
  by (induction ov disk vmIDs tiers st rule: add_tiers.induct)
     (auto simp: requested_def tier_vms_def add_reqs_def fold_map comp_def split: sum.splits)

lemma add_reqs_spec:
  assumes "index_ok plan" "slot = length (VMs plan)"
    and "add_reqs disk vmIDs reqs (slot, plan) = (slot', plan')"
  shows "index_ok plan' \<and> slot' = length (VMs plan') \<and> VMs plan' = VMs plan @
    map (\<lambda>i. case reqs ! i of (t, j) \<Rightarrow> vm_entry disk vmIDs t j (slot + i)) [0..<length reqs]"
  using assms
proof (induction reqs arbitrary: slot plan)
  case (Cons r reqs)
  obtain t j where r: "r = (t, j)" by (cases r)
  obtain p where p: "add_vm disk vmIDs t j (slot, plan) = (Suc slot, p)"
    using add_vm_state(1) by blast
  then have vms: "VMs p = VMs plan @ [vm_entry disk vmIDs t j slot]"
    using add_vm_state(2)[of disk vmIDs t j slot plan] by simp
  have idx: "index_ok p" "Suc slot = length (VMs p)"
    using index_ok_add_vm[OF Cons.prems(1,2), of disk vmIDs t j] Cons.prems(2) p vms by simp_all
  have "add_reqs disk vmIDs reqs (Suc slot, p) = (slot', plan')"
    using Cons.prems(3) by (simp add: add_reqs_def r p)
  from Cons.IH[OF idx this] show ?case
    by (simp add: r vms map_upt_Suc del: upt_Suc)
qed (simp add: add_reqs_def)

lemma BuildVMPlan_Inr:
  assumes "BuildVMPlan s ov disk vmIDs = Inr plan"
  defines "reqs \<equiv> requested ov (env_Tiers (Environment s))"
  shows "VMs plan = map (\<lambda>i. case reqs ! i of (t, j) \<Rightarrow> vm_entry disk vmIDs t j i) [0..<length reqs]"
    and "TotalVMs plan = int (length reqs)" and "index_ok plan"
proof -
  have e: "index_ok empty_plan" "0 = length (VMs empty_plan)"
    by (simp_all add: index_ok_def empty_plan_def)
  obtain slot p where st: "add_reqs disk vmIDs reqs (0, empty_plan) = (slot, p)"
    by (cases "add_reqs disk vmIDs reqs (0, empty_plan)")
  then have "plan = p\<lparr>TotalVMs := int slot\<rparr>"
    using assms by (auto simp: BuildVMPlan_def add_tiers_eq split: if_splits sum.splits prod.splits)
  with add_reqs_spec[OF e st]
  show "VMs plan = map (\<lambda>i. case reqs ! i of (t, j) \<Rightarrow> vm_entry disk vmIDs t j i) [0..<length reqs]"
    "TotalVMs plan = int (length reqs)" "index_ok plan"
    by (simp_all add: empty_plan_def index_ok_def)
qed

text \<open>Whether a plan can be built depends on the tiers and the scale overrides only.\<close>

lemma BuildVMPlan_isl:
  "isl (BuildVMPlan s ov disk vmIDs) = isl (BuildVMPlan s ov disk' vmIDs')"
  by (simp add: BuildVMPlan_def add_tiers_eq split: prod.splits)

text \<open>
  C17. A plan holds what the tiers ask for.  The VMs of a plan are, in order, those of each tier
  (as many as its count, or its override), each with its tier's size, the next of the given
  identifiers (or its position when the identifiers run out) and its disk override; the total is
  their number and does not depend on the identifiers; and the two indexes \<open>ByName\<close> and
  \<open>ByTier\<close> list exactly the positions of the VMs with that name or tier.
\<close>

theorem BuildVMPlan_spec:
  assumes "BuildVMPlan s ov disk vmIDs = Inr plan"
  shows "VMs plan =
      map (\<lambda>i. case requested ov (env_Tiers (Environment s)) ! i of (t, j) \<Rightarrow>
                 vm_entry disk vmIDs t j i)
        [0..<length (requested ov (env_Tiers (Environment s)))] \<and>
    TotalVMs plan = int (length (VMs plan)) \<and>
    (\<forall>t. ByTier plan t = (let ps = positions (\<lambda>e. vm_Tier e = t) (VMs plan)
                          in if ps = [] then None else Some ps)) \<and>
    (\<forall>n. ByName plan n = (let ps = positions (\<lambda>e. vm_Name e = n) (VMs plan)
                          in if ps = [] then None else Some (last ps)))"
  using BuildVMPlan_Inr[OF assms] by (simp add: index_ok_def)

text \<open>
  Scaling is bounded.  Building a plan fails exactly when some tier has an override below its
  minimum or above its maximum, and then reports the first such tier; it never depends on the
  identifiers or the disk overrides.
\<close>

theorem BuildVMPlan_fails_iff:
  "isl (BuildVMPlan s ov disk vmIDs) \<longleftrightarrow>
    (\<exists>t n. t \<in> set (env_Tiers (Environment s)) \<and> fmlookup ov (tier_Name t) = Some n \<and>
      (0 < tier_CountMin t \<and> n < tier_CountMin t \<or> 0 < tier_CountMax t \<and> tier_CountMax t < n))"
proof -
  have "isl (tier_count ov t) \<longleftrightarrow> (\<exists>n. fmlookup ov (tier_Name t) = Some n \<and>
      (0 < tier_CountMin t \<and> n < tier_CountMin t \<or> 0 < tier_CountMax t \<and> tier_CountMax t < n))" for t
    by (auto simp: tier_count_def split: option.splits)
  then show ?thesis
    by (auto simp: BuildVMPlan_def add_tiers_eq split: prod.splits)
qed


section \<open>Names and identifiers\<close>

text \<open>A name determines the tier and the position: the position has no dash.\<close>

lemma vm_name_inj:
  assumes "a @ ''-'' @ fmt_d (int i) = b @ ''-'' @ fmt_d (int j)"
  shows "a = b \<and> i = j"
proof -
  have nodash: "takeWhile (\<lambda>c. c \<noteq> CHR ''-'') (rev (fmt_d (int k)) @ CHR ''-'' # rest) = rev (fmt_d (int k))"
    for k rest
    using show_base_no_sign[of 10] by (subst takeWhile_append2) (auto simp: fmt_d_def)
  have "rev (fmt_d (int i)) @ CHR ''-'' # rev a = rev (fmt_d (int j)) @ CHR ''-'' # rev b"
    using arg_cong[OF assms, of rev] by simp
  moreover from this have "rev (fmt_d (int i)) = rev (fmt_d (int j))"
    using nodash by metis
  ultimately show ?thesis using fmt_d_inj[of "int i" "int j"] by auto
qed

lemma distinct_requested:
  assumes "distinct (map tier_Name tiers)"
  shows "distinct (map (\<lambda>(t, j). (tier_Name t, j)) (requested ov tiers))"
  using assms
proof (induction tiers)
  case (Cons t tiers)
  let ?k = "\<lambda>(t, j). (tier_Name t, j)"
  have own: "distinct (map ?k (tier_vms ov t))"
    by (auto simp: tier_vms_def comp_def distinct_map inj_on_def split: sum.splits)
  have tn: "u' = u" if "(u', j) \<in> set (tier_vms ov u)" for u u' j
    using that by (auto simp: tier_vms_def split: sum.splits)
  have "?k ` set (tier_vms ov t) \<inter> ?k ` set (requested ov tiers) = {}"
  proof -
    have "u \<in> set tiers" if "(u, j) \<in> set (requested ov tiers)" for u j
      using that tn by (auto simp: requested_def)
    then have "tier_Name u \<noteq> tier_Name t" if "(u, j) \<in> set (requested ov tiers)" for u j
      using that Cons.prems by (metis distinct.simps(2) image_eqI list.set_map list.simps(9))
    then show ?thesis using tn by fastforce
  qed
  moreover have "requested ov (t # tiers) = tier_vms ov t @ requested ov tiers"
    by (simp add: requested_def)
  ultimately show ?case using Cons own by simp
qed (simp add: requested_def)

lemma distinct_names:
  assumes "distinct (map (\<lambda>(t, j). (tier_Name t, j)) reqs)"
    and "vs = map (\<lambda>i. case reqs ! i of (t, j) \<Rightarrow> vm_entry disk vmIDs t j i) [0..<length reqs]"
  shows "distinct (map vm_Name vs)"
proof -
  have "vm_Name (case r of (t, j) \<Rightarrow> vm_entry disk vmIDs t j i) =
      (case r of (t, j) \<Rightarrow> tier_Name t @ ''-'' @ fmt_d (int j))" for r i
    by (simp add: vm_entry_def split: prod.splits)
  then have eq: "map vm_Name vs =
      map (\<lambda>(n, j). n @ ''-'' @ fmt_d (int j)) (map (\<lambda>(t, j). (tier_Name t, j)) reqs)"
    unfolding assms(2) by (intro nth_equalityI) (simp_all split: prod.splits)
  have "inj_on (\<lambda>(n, j). n @ ''-'' @ fmt_d (int j)) A" for A
  proof (rule inj_onI)
    fix x y :: "string \<times> nat"
    assume "(case x of (n, j) \<Rightarrow> n @ ''-'' @ fmt_d (int j)) = (case y of (n, j) \<Rightarrow> n @ ''-'' @ fmt_d (int j))"
    with vm_name_inj[of "fst x" "snd x" "fst y" "snd y"] show "x = y"
      by (simp add: split_def prod_eq_iff)
  qed
  then show ?thesis unfolding eq using assms(1) by (subst distinct_map) simp
qed

lemma positions_unique:
  assumes "distinct (map f xs)" "i < length xs"
  shows "positions (\<lambda>x. f x = f (xs ! i)) xs = [i]"
proof -
  have "f (xs ! k) = f (xs ! i) \<longleftrightarrow> k = i" if "k < length xs" for k
    using assms that by (metis length_map nth_eq_iff_index_eq nth_map)
  then have "positions (\<lambda>x. f x = f (xs ! i)) xs = filter (\<lambda>k. k = i) [0..<length xs]"
    unfolding positions_def by (intro filter_cong) auto
  also have "\<dots> = [i]"
    using assms(2) by (induction xs rule: rev_induct) (auto simp: filter_empty_conv less_Suc_eq)
  finally show ?thesis .
qed

text \<open>
  VM names.  In a scenario whose tiers have different names, the VMs of a plan have different
  names and looking up a VM's name gives back its position.
\<close>

theorem ByName_roundtrip:
  assumes "BuildVMPlan s ov disk vmIDs = Inr plan"
    and "distinct (map tier_Name (env_Tiers (Environment s)))"
  shows "distinct (map vm_Name (VMs plan)) \<and>
    (\<forall>i<length (VMs plan). ByName plan (vm_Name (VMs plan ! i)) = Some i)"
proof -
  note d = distinct_names[OF distinct_requested[OF assms(2)] BuildVMPlan_Inr(1)[OF assms(1)]]
  then show ?thesis
    using BuildVMPlan_Inr(3)[OF assms(1)] by (simp add: index_ok_def positions_unique)
qed

lemma vm_entry_Index:
  "vm_Index (vm_entry disk vmIDs t j i) = (if i < length vmIDs then vmIDs ! i else int i)"
  by (simp add: vm_entry_def)

lemma plan_indices:
  assumes "BuildVMPlan s ov disk vmIDs = Inr plan"
  defines "n \<equiv> length (VMs plan)"
  shows "map vm_Index (VMs plan) = take n vmIDs @ map int [length vmIDs..<n]"
proof -
  let ?reqs = "requested ov (env_Tiers (Environment s))"
  note vms = BuildVMPlan_Inr(1)[OF assms(1)]
  have n: "n = length ?reqs" by (simp add: n_def vms)
  show ?thesis
  proof (rule nth_equalityI)
    fix i assume "i < length (map vm_Index (VMs plan))"
    then have i: "i < length ?reqs" by (simp add: vms)
    have "vm_Index (case r of (t, j) \<Rightarrow> vm_entry disk vmIDs t j i) =
        (if i < length vmIDs then vmIDs ! i else int i)" for r
      by (simp add: vm_entry_Index split: prod.splits)
    with i show "map vm_Index (VMs plan) ! i = (take n vmIDs @ map int [length vmIDs..<n]) ! i"
      by (auto simp: vms nth_append n min_def)
  qed (auto simp: vms n min_def)
qed

text \<open>
  C18. Identifiers.  The VMs of a plan get the given identifiers in order and, past their end, their
  own positions.  So a plan built from enough distinct non-negative identifiers, or from none,
  gives every VM its own identifier and its own agent URL.
\<close>

theorem plan_identifiers:
  assumes "BuildVMPlan s ov disk vmIDs = Inr plan"
    and "vmIDs = [] \<or> TotalVMs plan \<le> int (length vmIDs)"
    and "distinct vmIDs" "\<forall>i\<in>set vmIDs. 0 \<le> i"
  shows "map vm_Index (VMs plan) =
      (if vmIDs = [] then map int [0..<length (VMs plan)] else take (length (VMs plan)) vmIDs) \<and>
    distinct (map vm_Index (VMs plan)) \<and> distinct (map AgentURL (VMs plan))"
proof -
  have tot: "TotalVMs plan = int (length (VMs plan))"
    using BuildVMPlan_Inr[OF assms(1)] by simp
  have ix: "map vm_Index (VMs plan) =
      (if vmIDs = [] then map int [0..<length (VMs plan)] else take (length (VMs plan)) vmIDs)"
    using plan_indices[OF assms(1)] assms(2) tot by auto
  then have d: "distinct (map vm_Index (VMs plan))" "\<forall>i\<in>set (map vm_Index (VMs plan)). 0 \<le> i"
    unfolding ix using assms(3,4) by (auto simp: distinct_map dest: in_set_takeD)
  have "map AgentURL (VMs plan) =
      map (\<lambda>i. ''http://172.16.'' @ fmt_d i @ ''.2:7777'') (map vm_Index (VMs plan))"
    by (simp add: AgentURL_def)
  then have "distinct (map AgentURL (VMs plan))"
    using decimal.names_distinct[OF d] by (simp only:)
  with ix d show ?thesis by blast
qed


section \<open>Targets\<close>

lemma first_of_positions:
  "ps \<noteq> [] \<Longrightarrow> first_of ps = Inr [hd ps]"
  by (cases ps) (simp_all add: first_of_def)

lemma ResolveTargets_in_plan:
  assumes "BuildVMPlan s ov disk vmIDs = Inr plan"
  shows "case ResolveTargets target plan of
      Inr ps \<Rightarrow> ps \<noteq> [] \<and> list_all (\<lambda>p. p < length (VMs plan) \<and>
        (if target_VM target \<noteq> '''' then vm_Name (VMs plan ! p) = target_VM target
         else vm_Tier (VMs plan ! p) = target_Tier target)) ps
    | Inl e \<Rightarrow> e \<noteq> IndexPanic \<and>
        (if target_VM target \<noteq> '''' then target_VM target \<notin> vm_Name ` set (VMs plan)
         else target_Tier target = '''' \<or> target_Tier target \<notin> vm_Tier ` set (VMs plan))"
proof -
  have none: "positions (\<lambda>e. f e = x) xs = [] \<longleftrightarrow> x \<notin> f ` set xs" for f :: "VMEntry \<Rightarrow> string" and x xs
  proof -
    have "positions (\<lambda>e. f e = x) xs = [] \<longleftrightarrow> (\<forall>i. i \<notin> set (positions (\<lambda>e. f e = x) xs))"
      by (metis list.set_intros(1) list.exhaust empty_iff list.set(1))
    also have "\<dots> \<longleftrightarrow> (\<forall>e\<in>set xs. f e \<noteq> x)"
      unfolding in_positions by (metis in_set_conv_nth)
    finally show ?thesis by auto
  qed
  note ix = BuildVMPlan_Inr(3)[OF assms(1), unfolded index_ok_def Let_def]
  show ?thesis
  proof (cases "target_VM target = ''''")
    case False
    let ?ps = "positions (\<lambda>e. vm_Name e = target_VM target) (VMs plan)"
    have "?ps = [] \<or> last ?ps \<in> set ?ps" using last_in_set by blast
    then show ?thesis
      using False ix none[of vm_Name] by (auto simp: ResolveTargets_def in_positions)
  next
    case True
    let ?ps = "positions (\<lambda>e. vm_Tier e = target_Tier target) (VMs plan)"
    have "?ps = [] \<or> hd ?ps \<in> set ?ps" using hd_in_set by blast
    moreover have "?ps = [] \<or> ResolveTargets target plan \<in> {Inl NoTarget, Inr ?ps, Inr [hd ?ps]}"
      using True ix by (auto simp: ResolveTargets_def first_of_positions)
    ultimately show ?thesis
      using True ix none[of vm_Tier]
      by (auto simp: list_all_iff in_positions ResolveTargets_def first_of_positions)
  qed
qed

text \<open>
  C20. Targets resolve to existing VMs.  Against a plan the program built, resolving a target never
  indexes out of range: it yields at least one position, each inside the plan and of the named
  VM or tier; or an error, exactly when no VM has that name or tier or the target names neither.
\<close>

theorem ResolveTargets_sound:
  assumes "BuildVMPlan s ov disk vmIDs = Inr plan"
  shows "case ResolveTargets target plan of
      Inr ps \<Rightarrow> ps \<noteq> [] \<and> list_all (\<lambda>p. p < length (VMs plan) \<and>
        (if target_VM target \<noteq> '''' then vm_Name (VMs plan ! p) = target_VM target
         else vm_Tier (VMs plan ! p) = target_Tier target)) ps
    | Inl e \<Rightarrow> e \<noteq> IndexPanic \<and>
        (if target_VM target \<noteq> '''' then target_VM target \<notin> vm_Name ` set (VMs plan)
         else target_Tier target = '''' \<or> target_Tier target \<notin> vm_Tier ` set (VMs plan))"
  by (rule ResolveTargets_in_plan[OF assms])

text \<open>
  The contract the scenario runner relies on: what the plan builder builds, the resolver resolves
  into positions of its VM list.
\<close>

locale target_resolver =
  fixes build :: "'s \<Rightarrow> (string, int) fmap \<Rightarrow> (string, int) fmap \<Rightarrow> int list \<Rightarrow> plan_error + VMPlan"
    and resolve :: "FaultTarget \<Rightarrow> VMPlan \<Rightarrow> plan_error + nat list"
  assumes resolve_in_range:
    "build s ov disk ids = Inr plan \<Longrightarrow> resolve t plan = Inr ps \<Longrightarrow> p \<in> set ps \<Longrightarrow> p < length (VMs plan)"
    and resolve_no_panic: "build s ov disk ids = Inr plan \<Longrightarrow> resolve t plan \<noteq> Inl IndexPanic"
    and resolve_nonempty: "build s ov disk ids = Inr plan \<Longrightarrow> resolve t plan \<noteq> Inr []"
begin

lemma resolved_entries:
  assumes "build s ov disk ids = Inr plan" "resolve t plan = Inr ps"
  shows "map (\<lambda>p. VMs plan ! p) ps \<noteq> [] \<and> set (map (\<lambda>p. VMs plan ! p) ps) \<subseteq> set (VMs plan)"
  using resolve_in_range[OF assms] resolve_nonempty[OF assms(1), of t] assms(2) by auto

end

interpretation plan: target_resolver BuildVMPlan ResolveTargets
proof
  fix s ov disk ids plan t ps p
  assume b: "BuildVMPlan s ov disk ids = Inr plan"
  note r = ResolveTargets_in_plan[OF b, of t]
  show "p < length (VMs plan)" if "ResolveTargets t plan = Inr ps" "p \<in> set ps"
    using r that by (auto simp: list_all_iff)
  show "ResolveTargets t plan \<noteq> Inl IndexPanic" "ResolveTargets t plan \<noteq> Inr []"
    using r by auto
qed


section \<open>A sample scenario\<close>

definition sample_tier :: "string \<Rightarrow> int \<Rightarrow> Tier" where
  "sample_tier n k =
    \<lparr>tier_Name = n, tier_Count = k, tier_CountMin = 1, tier_CountMax = 5, tier_VCPUs = 1,
     tier_MemMB = 512, tier_DiskMB = 0, tier_Services = [''nginx''], tier_Setup = []\<rparr>"

definition sample_target :: "string \<Rightarrow> string \<Rightarrow> FaultTarget" where
  "sample_target v t = \<lparr>target_VM = v, target_Tier = t, target_Select = ''''\<rparr>"

definition sample_fault :: Fault where
  "sample_fault =
    \<lparr>fault_ID = ''f1'', fault_Type = FaultCPU, fault_Target = sample_target '''' ''web'',
     fault_Params = fmempty, fault_At = ''5s'', fault_Duration = ''1m'', fault_Triggers = []\<rparr>"

definition sample_scenario :: Scenario where
  "sample_scenario =
    \<lparr>Meta = \<lparr>meta_ID = ''s1'', meta_Title = ''Overload'', meta_Difficulty = DifficultyEasy,
             meta_Architecture = ArchMonolith, meta_Tags = [], meta_Description = ''''\<rparr>,
     Environment = \<lparr>env_Extends = '''', env_Tiers = [sample_tier ''web'' 2, sample_tier ''db'' 1]\<rparr>,
     Faults = [sample_fault],
     Signals = \<lparr>signals_Alerts = [], signals_Symptoms = [], signals_RunbookURL = ''''\<rparr>,
     Objectives = [],
     Hints = [\<lparr>hint_Text = ''look at top''\<rparr>],
     Scoring = DefaultScoring\<rparr>"

definition sample_plan :: "int list \<Rightarrow> VMPlan" where
  "sample_plan ids = projr (BuildVMPlan sample_scenario fmempty fmempty ids)"

lemma sample_plan: "BuildVMPlan sample_scenario fmempty fmempty ids = Inr (sample_plan ids)"
proof -
  have "\<not> isl (BuildVMPlan sample_scenario fmempty fmempty ids)"
    by (auto simp: BuildVMPlan_def add_tiers_eq tier_count_def split: prod.splits)
  then show ?thesis by (cases "BuildVMPlan sample_scenario fmempty fmempty ids") (auto simp: sample_plan_def)
qed

lemma sample_requested:
  "requested fmempty (env_Tiers (Environment sample_scenario)) =
    [(sample_tier ''web'' 2, 0), (sample_tier ''web'' 2, 1), (sample_tier ''db'' 1, 0)]"
  by (simp add: sample_scenario_def requested_def tier_vms_def tier_count_def sample_tier_def upt_rec)

lemma sample_total: "TotalVMs (sample_plan ids) = 3" "length (VMs (sample_plan ids)) = 3"
  using BuildVMPlan_Inr[OF sample_plan[of ids]] by (simp_all add: sample_requested)

lemma sample_VMs:
  "VMs (sample_plan ids) =
    [vm_entry fmempty ids (sample_tier ''web'' 2) 0 0,
     vm_entry fmempty ids (sample_tier ''web'' 2) 1 1,
     vm_entry fmempty ids (sample_tier ''db'' 1) 0 2]"
  using BuildVMPlan_Inr(1)[OF sample_plan[of ids]]
  by (simp add: sample_requested upt_rec numeral_2_eq_2)

lemma sample_ByTier:
  "ByTier (sample_plan ids) ''web'' = Some [0, 1]" "ByTier (sample_plan ids) ''cache'' = None"
  using BuildVMPlan_Inr(3)[OF sample_plan[of ids]]
  by (simp_all add: index_ok_def positions_def sample_VMs upt_rec vm_entry_def sample_tier_def)

theorem BuildVMPlan_spec_witness:
  "map vm_Name (VMs (sample_plan [7, 8, 9])) = [''web-0'', ''web-1'', ''db-0''] \<and>
   map vm_Index (VMs (sample_plan [7, 8, 9])) = [7, 8, 9]"
proof -
  have "fmt_d 0 = ''0''" "fmt_d 1 = ''1''" by (simp_all add: fmt_d_def show_base.simps digit_table_def)
  then show ?thesis
    using BuildVMPlan_spec[OF sample_plan[of "[7, 8, 9]"]]
    by (simp add: sample_requested upt_rec vm_entry_def sample_tier_def)
qed

theorem ByName_roundtrip_witness:
  "ByName (sample_plan []) (vm_Name (VMs (sample_plan []) ! 2)) = Some 2"
proof -
  have "distinct (map tier_Name (env_Tiers (Environment sample_scenario)))"
    by (simp add: sample_scenario_def sample_tier_def)
  from ByName_roundtrip[OF sample_plan[of "[]"] this] show ?thesis by (simp add: sample_total)
qed

theorem plan_identifiers_witness: "distinct (map AgentURL (VMs (sample_plan [4, 0, 2])))"
  using plan_identifiers[OF sample_plan[of "[4, 0, 2]"]] by (simp add: sample_total)

theorem ResolveTargets_sound_witness:
  "ResolveTargets (sample_target '''' ''web'') (sample_plan []) = Inr [0, 1] \<and>
   ResolveTargets (sample_target '''' ''cache'') (sample_plan []) \<noteq> Inl IndexPanic"
proof -
  have "ResolveTargets (sample_target '''' ''cache'') (sample_plan []) \<noteq> Inl IndexPanic"
    using ResolveTargets_sound[OF sample_plan[of "[]"], of "sample_target '''' ''cache''"]
    by (auto split: sum.splits)
  then show ?thesis by (simp add: ResolveTargets_def sample_target_def sample_ByTier)
qed

theorem validate_establishes_witness:
  "validate sample_scenario = Inr sample_scenario \<and> scenario_ok sample_scenario"
proof -
  have "scenario_ok sample_scenario"
    by (simp add: scenario_ok_def sample_scenario_def sample_tier_def tier_ok_def fault_ok_def
        sample_fault_def sample_target_def DefaultScoring_def)
  with validate_establishes[of sample_scenario sample_scenario] show ?thesis by blast
qed

end
