(* ===== verification/GoParseFloat.thy ===== *)
theory GoParseFloat
  imports Float64
begin

text \<open>
  \<open>strconv.ParseFloat(s, 64)\<close>.  The scanner follows the library: an optional sign,
  \<open>inf\<close>, \<open>infinity\<close> or \<open>nan\<close> in any case, decimal digits with an optional point and exponent, or
  hexadecimal digits with a mandatory binary exponent, and underscores between digits.  The
  result is the nearest floating-point number; a syntax error and a result out of range are
  both \<open>None\<close>, as the program only distinguishes an error from a value.
\<close>

definition is_hex_letter :: "char \<Rightarrow> bool" where
  "is_hex_letter c \<longleftrightarrow>
    (let n = of_char c :: nat in 65 \<le> n \<and> n \<le> 70 \<or> 97 \<le> n \<and> n \<le> 102)"

definition hex_val :: "char \<Rightarrow> nat" where
  "hex_val c = (let n = of_char c in if n \<le> 57 then n - 48 else if n \<le> 70 then n - 55 else n - 87)"

text \<open>
  The digits, with the position of the point: the digit string, the number of digits after the
  point, and the rest.  A second point ends the scan.
\<close>

fun scan_digits :: "bool \<Rightarrow> bool \<Rightarrow> string \<Rightarrow> string \<times> nat \<times> string" where
  "scan_digits hex sawdot [] = ([], 0, [])"
| "scan_digits hex sawdot (c # cs) =
    (if c = CHR ''_'' then scan_digits hex sawdot cs
     else if c = CHR ''.'' then
       (if sawdot then ([], 0, c # cs) else scan_digits hex True cs)
     else if is_digit c \<or> hex \<and> is_hex_letter c then
       (case scan_digits hex sawdot cs of
          (ds, k, r) \<Rightarrow> (c # ds, if sawdot then Suc k else k, r))
     else ([], 0, c # cs))"

text \<open>The exponent digits, capped as in the library, and the rest.\<close>

fun scan_exp :: "nat \<Rightarrow> string \<Rightarrow> nat \<times> string" where
  "scan_exp e [] = (e, [])"
| "scan_exp e (c # cs) =
    (if c = CHR ''_'' then scan_exp e cs
     else if is_digit c then scan_exp (if e < 10000 then e * 10 + digit_val c else e) cs
     else (e, c # cs))"

definition exponent :: "string \<Rightarrow> (int \<times> string) option" where
  "exponent s =
    (case split_sign s of (neg, t) \<Rightarrow>
      case t of
        [] \<Rightarrow> None
      | c # _ \<Rightarrow>
        if \<not> is_digit c then None
        else (case scan_exp 0 t of (e, r) \<Rightarrow> Some (if neg then - int e else int e, r)))"

datatype under_prev = UStart | UDigit | UUnder | UOther

fun under_scan :: "bool \<Rightarrow> under_prev \<Rightarrow> string \<Rightarrow> bool" where
  "under_scan hex p [] \<longleftrightarrow> p \<noteq> UUnder"
| "under_scan hex p (c # cs) \<longleftrightarrow>
    (if is_digit c \<or> hex \<and> is_hex_letter c then under_scan hex UDigit cs
     else if c = CHR ''_'' then p = UDigit \<and> under_scan hex UUnder cs
     else p \<noteq> UUnder \<and> under_scan hex UOther cs)"

definition underscoreOK :: "string \<Rightarrow> bool" where
  "underscoreOK s =
    (case snd (split_sign s) of
       a # b # cs \<Rightarrow>
         if a = CHR ''0'' \<and> ascii_lower b \<in> {CHR ''b'', CHR ''o'', CHR ''x''}
         then under_scan (ascii_lower b = CHR ''x'') UDigit cs
         else under_scan False UStart (a # b # cs)
     | t \<Rightarrow> under_scan False UStart t)"

text \<open>The exact value of a syntactically correct number without its sign.\<close>

definition read_exact :: "string \<Rightarrow> rat option" where
  "read_exact t =
    (let hex = (2 < length t \<and> t ! 0 = CHR ''0'' \<and> ascii_lower (t ! 1) = CHR ''x'')
     in case scan_digits hex False (if hex then drop 2 t else t) of (ds, k, r) \<Rightarrow>
       if ds = [] then None
       else let b = (if hex then 16 else 10);
                m = of_nat (foldl (\<lambda>a c. a * b + hex_val c) 0 ds) / of_nat (b ^ k)
            in case r of
                 [] \<Rightarrow> if hex then None else Some m
               | c # cs \<Rightarrow>
                   if ascii_lower c = (if hex then CHR ''p'' else CHR ''e'') then
                     (case exponent cs of
                        Some (e, []) \<Rightarrow> Some (m * (if hex then 2 else 10) powi e)
                      | _ \<Rightarrow> None)
                   else None)"

definition ParseFloat :: "string \<Rightarrow> f64 option" where
  "ParseFloat s =
    (case split_sign s of (neg, t) \<Rightarrow>
      if map ascii_lower t \<in> {''inf'', ''infinity''} then Some (Inf neg)
      else if map ascii_lower s = ''nan'' then Some NaN
      else if CHR ''_'' \<in> set s \<and> \<not> underscoreOK s then None
      else case read_exact t of
             None \<Rightarrow> None
           | Some x \<Rightarrow> (case rnd (if neg then - x else x) of Inf _ \<Rightarrow> None | y \<Rightarrow> Some y))"

section \<open>Whole numbers\<close>

lemma scan_digits_digits:
  "list_all is_digit ds \<Longrightarrow> scan_digits hex False ds = (ds, 0, [])"
  by (induction ds) (auto simp: is_digit_def)

lemma hex_val_digit: "is_digit c \<Longrightarrow> hex_val c = digit_val c"
  by (simp add: is_digit_def hex_val_def digit_val_def)

lemma read_exact_digits:
  assumes "list_all is_digit ds" "ds \<noteq> []"
  shows "read_exact ds = Some (of_nat (read_base 10 ds))"
proof -
  have "ascii_lower (ds ! 1) \<noteq> CHR ''x''" if "2 < length ds"
  proof -
    have "is_digit (ds ! 1)" using assms(1) that by (simp add: list_all_length)
    then show ?thesis by (auto simp: ascii_lower_def is_digit_def Let_def)
  qed
  moreover have "foldl (\<lambda>a c. a * 10 + hex_val c) x ds = foldl (\<lambda>a c. a * 10 + digit_val c) x ds" for x
    using assms(1) by (induction ds arbitrary: x) (auto simp: hex_val_digit)
  ultimately show ?thesis
    using assms by (auto simp: read_exact_def scan_digits_digits read_base_def Let_def)
qed

lemma ParseFloat_whole:
  assumes "n < 2 ^ 53"
  shows "ParseFloat (show_base 10 n) = Some (Fin (of_nat n))"
proof -
  let ?s = "show_base 10 n"
  have ds: "list_all is_digit ?s" using show_dec_digits by (simp add: list_all_iff)
  obtain c cs where s: "?s = c # cs" and c: "is_digit c" using ds by (cases ?s) auto
  then have lc: "ascii_lower c = c" "c \<noteq> CHR ''i''" "c \<noteq> CHR ''n''"
    by (auto simp: ascii_lower_def is_digit_def Let_def)
  have "CHR ''_'' \<notin> set ?s" using ds by (auto simp: list_all_iff is_digit_def)
  moreover have "map ascii_lower ?s \<noteq> ''inf''" "map ascii_lower ?s \<noteq> ''infinity''"
    "map ascii_lower ?s \<noteq> ''nan''" using lc by (auto simp: s)
  moreover have "rnd_pos (of_int (int n)) = of_int (int n)"
    using assms by (intro rnd_pos_small_int) simp_all
  then have "rnd (of_nat n) = Fin (of_nat n)"
  proof (intro trans[OF rnd_nonneg_eq])
    have "(of_nat n :: rat) < of_nat (2 ^ 53)" using assms by (simp only: of_nat_less_iff)
    moreover have "(2::rat) ^ 53 < 2 ^ 1024" by (rule power_strict_increasing) simp_all
    ultimately show "rnd_pos (of_nat n) < 2 ^ 1024"
      using \<open>rnd_pos (of_int (int n)) = of_int (int n)\<close> by (simp only: of_int_of_nat_eq of_nat_power of_nat_numeral)
  qed simp_all
  ultimately show ?thesis
    using read_exact_digits[OF ds] by (simp add: ParseFloat_def split_sign_show read_show_base)
qed

end
