(* ===== verification/Runner.thy ===== *)
theory Runner
  imports ScenarioPlan GoParseFloat
begin

text \<open>
  \<open>src/scenario/runner.go\<close>, the operations of a \<open>Runner\<close>: creation, hints, the live score,
  delivery of faults to the agents, and the checks of the objectives.

  HTTP is the environment: a program performs calls and gets either no response or a status
  code with a body.  Decoding a body as JSON into a struct is a parameter (\<open>None\<close> is the decoder's
  error).  A \<open>time.Time\<close> is a number of nanoseconds; \<open>None\<close> is the zero time a runner starts
  with, since which more time has passed than a \<open>Duration\<close> can hold.

  Shown: the k-th hint request yields the k-th hint; the live score is the score of the current
  moment and number of hints, and is zero for default rules until the run has set its start; a
  fault is posted exactly once to every VM it targets, to nothing else, and the result is an error
  exactly when some agent did not accept it; an objective of a type that asks a VM passes exactly when
  every target answered as required, others always; a scenario without objectives never completes.
\<close>

record Runner =
  Scenario :: Scenario
  Plan :: VMPlan
  run_opts :: RunOptions
  score :: Score
  startAt :: "int option"
  hintsUsed :: int

definition NewRunner :: "Scenario \<Rightarrow> RunOptions \<Rightarrow> plan_error + Runner" where
  "NewRunner s opts =
    (case BuildVMPlan s (opt_ScaleOverrides opts) (opt_DiskOverrides opts) (opt_VMIDs opts) of
       Inl e \<Rightarrow> Inl e
     | Inr plan \<Rightarrow>
        Inr \<lparr>Scenario = s, Plan = plan, run_opts = opts,
             score = \<lparr>score_Base = scoring_Base (Scoring s), score_Elapsed = 0,
                      score_HintsUsed = 0, score_HintPenalty = scoring_HintPenalty (Scoring s),
                      score_TimePenaltyPerSecond = scoring_TimePenaltyPerSecond (Scoring s)\<rparr>,
             startAt = None, hintsUsed = 0\<rparr>)"


section \<open>Hints and the live score\<close>

text \<open>What \<open>RequestHint\<close> prints, line by line.\<close>

definition RequestHint :: "Runner \<Rightarrow> string list \<times> Runner" where
  "RequestHint r =
    (let idx = hintsUsed r;
         r = r\<lparr>hintsUsed := wrap64 (hintsUsed r + 1)\<rparr>
     in if idx \<ge> int (length (Hints (Scenario r))) then ([''No more hints available.''], r)
        else ([''Hint: '' @ hint_Text (Hints (Scenario r) ! nat idx),
               ''(-'' @ fmt_d (scoring_HintPenalty (Scoring (Scenario r))) @ '' points)''], r))"

definition RequestHintText :: "Runner \<Rightarrow> string \<times> Runner" where
  "RequestHintText r =
    (let idx = hintsUsed r;
         r = r\<lparr>hintsUsed := wrap64 (hintsUsed r + 1)\<rparr>
     in if idx \<ge> int (length (Hints (Scenario r))) then ('''', r)
        else (hint_Text (Hints (Scenario r) ! nat idx), r))"

text \<open>\<open>time.Since\<close>: differences beyond the range of a \<open>Duration\<close> saturate.\<close>

definition Since :: "int \<Rightarrow> int option \<Rightarrow> int" where
  "Since now t =
    (case t of None \<Rightarrow> 2 ^ 63 - 1
     | Some t \<Rightarrow> max (- (2 ^ 63)) (min (2 ^ 63 - 1) (now - t)))"

definition CurrentScore :: "int \<Rightarrow> Runner \<Rightarrow> int \<times> Runner" where
  "CurrentScore now r =
    (let r = r\<lparr>score := (score r)\<lparr>score_Elapsed := Since now (startAt r),
                                 score_HintsUsed := hintsUsed r\<rparr>\<rparr>
     in (Current (score r), r))"


section \<open>Fault delivery\<close>

record AgentFaultRequest =
  req_ID :: string
  req_Type :: string
  req_Params :: "(string, string) fmap"

datatype http_call =
    Get string
  | PostStart string AgentFaultRequest
  | PostStop string string

datatype http_reply = NoResponse | Response int string

type_synonym http_env = "(http_call, http_reply) env"
type_synonym 'a http_prog = "(http_call, http_reply, 'a) prog"

datatype inject_error =
    Resolve plan_error
  | VMUnreachable string
  | AgentReturned string int

definition fault_request :: "Fault \<Rightarrow> AgentFaultRequest" where
  "fault_request f =
    \<lparr>req_ID = fault_ID f, req_Type = fault_Type f,
     req_Params = (if fault_Duration f \<noteq> '''' then fmupd ''duration'' (fault_Duration f) (fault_Params f)
                   else fault_Params f)\<rparr>"

fun inject_all ::
  "http_env \<Rightarrow> AgentFaultRequest \<Rightarrow> VMEntry list \<Rightarrow> inject_error option \<Rightarrow>
   inject_error option http_prog" where
  "inject_all e req [] lastErr = State_Monad.return lastErr"
| "inject_all e req (entry # entries) lastErr =
    State_Monad.bind (perform e (PostStart (AgentURL entry @ ''/fault/start'') req)) (\<lambda>resp.
      inject_all e req entries
        (case resp of
           NoResponse \<Rightarrow> Some (VMUnreachable (vm_Name entry))
         | Response code _ \<Rightarrow>
             if 300 \<le> code then Some (AgentReturned (vm_Name entry) code) else lastErr))"

definition injectFault :: "http_env \<Rightarrow> Runner \<Rightarrow> Fault \<Rightarrow> inject_error option http_prog" where
  "injectFault e r f =
    (case ResolveTargets (fault_Target f) (Plan r) of
       Inl err \<Rightarrow> State_Monad.return (Some (Resolve err))
     | Inr targets \<Rightarrow>
        inject_all e (fault_request f) (map (\<lambda>idx. VMs (Plan r) ! idx) targets) None)"

fun stop_all :: "http_env \<Rightarrow> string \<Rightarrow> VMEntry list \<Rightarrow> unit http_prog" where
  "stop_all e fid [] = State_Monad.return ()"
| "stop_all e fid (entry # entries) =
    State_Monad.bind (perform e (PostStop (AgentURL entry @ ''/fault/stop'') fid))
      (\<lambda>_. stop_all e fid entries)"

definition stopFault :: "http_env \<Rightarrow> Runner \<Rightarrow> Fault \<Rightarrow> unit http_prog" where
  "stopFault e r f =
    (case ResolveTargets (fault_Target f) (Plan r) of
       Inl err \<Rightarrow> State_Monad.return ()
     | Inr targets \<Rightarrow> stop_all e (fault_ID f) (map (\<lambda>idx. VMs (Plan r) ! idx) targets))"


section \<open>Objectives\<close>

record agentMetrics =
  CPUPct :: f64
  MemUsedPct :: f64
  DiskUsedPct :: f64
  DiskFreeMB :: f64
  LoadAvg1 :: f64

record agentService =
  svc_Name :: string
  svc_Active :: bool

text \<open>The JSON decoders.\<close>

record decoders =
  decodeMetrics :: "string \<Rightarrow> agentMetrics option"
  decodeServices :: "string \<Rightarrow> agentService list option"

definition fetchMetrics :: "http_env \<Rightarrow> decoders \<Rightarrow> VMEntry \<Rightarrow> agentMetrics option http_prog" where
  "fetchMetrics e d entry =
    State_Monad.bind (perform e (Get (AgentURL entry @ ''/metrics''))) (\<lambda>resp.
      State_Monad.return
        (case resp of NoResponse \<Rightarrow> None | Response _ body \<Rightarrow> decodeMetrics d body))"

definition fetchServices :: "http_env \<Rightarrow> decoders \<Rightarrow> VMEntry \<Rightarrow> agentService list option http_prog" where
  "fetchServices e d entry =
    State_Monad.bind (perform e (Get (AgentURL entry @ ''/services''))) (\<lambda>resp.
      State_Monad.return
        (case resp of NoResponse \<Rightarrow> None | Response _ body \<Rightarrow> decodeServices d body))"

definition metric_value :: "agentMetrics \<Rightarrow> string \<Rightarrow> f64 option" where
  "metric_value m metric =
    (if metric = ''cpu_pct'' then Some (CPUPct m)
     else if metric = ''mem_used_pct'' then Some (MemUsedPct m)
     else if metric = ''disk_used_pct'' then Some (DiskUsedPct m)
     else if metric = ''disk_free_mb'' then Some (DiskFreeMB m)
     else if metric = ''load_avg_1'' then Some (LoadAvg1 m)
     else None)"

definition evalCondition :: "agentMetrics \<Rightarrow> string \<Rightarrow> string \<Rightarrow> bool" where
  "evalCondition m metric condition =
    (case metric_value m metric of
       None \<Rightarrow> False
     | Some v \<Rightarrow>
        let cond = TrimSpace (TrimSuffix (TrimSpace condition) ''%'') in
        if HasPrefix cond ''<'' then
          (case ParseFloat (TrimSpace (drop 1 cond)) of
             None \<Rightarrow> False | Some thresh \<Rightarrow> f64_lt v thresh)
        else if HasPrefix cond ''>'' then
          (case ParseFloat (TrimSpace (drop 1 cond)) of
             None \<Rightarrow> False | Some thresh \<Rightarrow> f64_lt thresh v)
        else False)"

text \<open>The body of the loop over the targets: does this VM pass?\<close>

definition check_vm :: "http_env \<Rightarrow> decoders \<Rightarrow> ObjectiveCheck \<Rightarrow> VMEntry \<Rightarrow> bool http_prog" where
  "check_vm e d check entry =
    (if check_Type check = CheckHTTP then
       State_Monad.bind
         (perform e (Get (''http://'' @ (''172.16.'' @ fmt_d (vm_Index entry) @ ''.2'') @ check_Path check)))
         (\<lambda>resp. State_Monad.return
           (case resp of
              NoResponse \<Rightarrow> False
            | Response code _ \<Rightarrow>
                let want = (if check_ExpectedStatus check = 0 then 200 else check_ExpectedStatus check)
                in code = want))
     else if check_Type check = CheckAgentMetric then
       State_Monad.bind (fetchMetrics e d entry) (\<lambda>ms. State_Monad.return
         (case ms of None \<Rightarrow> False | Some m \<Rightarrow> evalCondition m (check_Metric check) (check_Condition check)))
     else if check_Type check = CheckProcessActive then
       State_Monad.bind (fetchServices e d entry) (\<lambda>ss. State_Monad.return
         (case ss of
            None \<Rightarrow> False
          | Some svcs \<Rightarrow> list_ex (\<lambda>svc. svc_Name svc = check_Service check \<and> svc_Active svc) svcs))
     else State_Monad.return True)"

fun check_vms :: "http_env \<Rightarrow> decoders \<Rightarrow> ObjectiveCheck \<Rightarrow> VMEntry list \<Rightarrow> bool http_prog" where
  "check_vms e d check [] = State_Monad.return True"
| "check_vms e d check (entry # entries) =
    State_Monad.bind (check_vm e d check entry) (\<lambda>ok.
      if ok then check_vms e d check entries else State_Monad.return False)"

definition checkObjective :: "http_env \<Rightarrow> decoders \<Rightarrow> Runner \<Rightarrow> Objective \<Rightarrow> bool http_prog" where
  "checkObjective e d r obj =
    (case ResolveTargets (check_Target (objective_Check obj)) (Plan r) of
       Inl err \<Rightarrow> State_Monad.return False
     | Inr targets \<Rightarrow>
        check_vms e d (objective_Check obj) (map (\<lambda>idx. VMs (Plan r) ! idx) targets))"

fun check_objectives :: "http_env \<Rightarrow> decoders \<Rightarrow> Runner \<Rightarrow> Objective list \<Rightarrow> bool http_prog" where
  "check_objectives e d r [] = State_Monad.return (Objectives (Scenario r) \<noteq> [])"
| "check_objectives e d r (obj # objs) =
    State_Monad.bind (checkObjective e d r obj) (\<lambda>ok.
      if ok then check_objectives e d r objs else State_Monad.return False)"

definition checkAllObjectives :: "http_env \<Rightarrow> decoders \<Rightarrow> Runner \<Rightarrow> bool http_prog" where
  "checkAllObjectives e d r = check_objectives e d r (Objectives (Scenario r))"

section \<open>Facts about hints and score\<close>

lemma RequestHintText_run:
  assumes "int n < 2 ^ 63" "hintsUsed r = 0"
  shows "hintsUsed (((\<lambda>r. snd (RequestHintText r)) ^^ n) r) = int n \<and>
    Scenario (((\<lambda>r. snd (RequestHintText r)) ^^ n) r) = Scenario r"
  using assms by (induction n) (auto simp: RequestHintText_def Let_def wrap64_id)

text \<open>
  Hints.  The request number \<open>n\<close> (counting from 0) on a new runner returns hint number \<open>n\<close> of
  the scenario, and the empty text when there are no more; every request, also one that returns
  no hint, counts as a used hint.
\<close>

theorem RequestHintText_nth:
  assumes "int (Suc n) < 2 ^ 63" "NewRunner s opts = Inr r"
  shows "let r' = ((\<lambda>r. snd (RequestHintText r)) ^^ n) r in
    fst (RequestHintText r') = (if n < length (Hints s) then hint_Text (Hints s ! n) else '''') \<and>
    hintsUsed (snd (RequestHintText r')) = int (Suc n)"
proof -
  have r: "hintsUsed r = 0" "Scenario r = s"
    using assms(2) by (auto simp: NewRunner_def split: sum.splits)
  have "int n < 2 ^ 63" using assms(1) by simp
  from RequestHintText_run[OF this r(1)] assms(1) r(2) show ?thesis
    by (simp add: RequestHintText_def Let_def wrap64_id)
qed

lemma Since_range: "int64_range (Since now t)"
  by (auto simp: Since_def split: option.splits)

lemma Since_mono: "a \<le> b \<Longrightarrow> Since a t \<le> Since b t"
  by (auto simp: Since_def split: option.splits)

text \<open>The rules of a validated scenario that keep the score arithmetic in range.\<close>

definition scoring_ok :: "Scoring \<Rightarrow> bool" where
  "scoring_ok sc \<longleftrightarrow> 0 \<le> scoring_Base sc \<and> scoring_Base sc < 2 ^ 63 \<and>
    0 \<le> rate_of (scoring_TimePenaltyPerSecond sc) \<and>
    rate_of (scoring_TimePenaltyPerSecond sc) \<le> 1000000 \<and>
    0 \<le> scoring_HintPenalty sc \<and> scoring_HintPenalty sc \<le> 1000000"

definition runner_ok :: "Runner \<Rightarrow> bool" where
  "runner_ok r \<longleftrightarrow> scoring_ok (Scoring (Scenario r)) \<and>
    score_Base (score r) = scoring_Base (Scoring (Scenario r)) \<and>
    score_HintPenalty (score r) = scoring_HintPenalty (Scoring (Scenario r)) \<and>
    score_TimePenaltyPerSecond (score r) = scoring_TimePenaltyPerSecond (Scoring (Scenario r)) \<and>
    0 \<le> hintsUsed r \<and> hintsUsed r < 2 ^ 32"

lemma runner_score_ok:
  assumes "runner_ok r" "0 \<le> d" "d < 2 ^ 63" "0 \<le> h" "h < 2 ^ 32"
  shows "score_ok ((score r)\<lparr>score_Elapsed := d, score_HintsUsed := h\<rparr>)"
proof -
  have "h * scoring_HintPenalty (Scoring (Scenario r)) \<le> 2 ^ 32 * 1000000"
    using assms by (intro mult_mono) (auto simp: runner_ok_def scoring_ok_def)
  then show ?thesis
    using assms by (auto simp: runner_ok_def scoring_ok_def score_ok_def)
qed

text \<open>
  The live score.  While a run is in progress, the score reported at a later moment, after any
  number of further hints, is never higher than the score reported before.
\<close>

theorem CurrentScore_antitone:
  assumes "runner_ok r" "startAt r = Some t0" "t0 \<le> now" "now \<le> later"
    and "runner_ok r'" "startAt r' = Some t0" "Scenario r' = Scenario r"
    and "hintsUsed r \<le> hintsUsed r'"
  shows "fst (CurrentScore later r') \<le> fst (CurrentScore now r)"
proof -
  have since: "0 \<le> Since x (Some t0)" "Since x (Some t0) < 2 ^ 63" if "t0 \<le> x" for x
    using that by (auto simp: Since_def)
  let ?a = "(score r)\<lparr>score_Elapsed := Since now (Some t0), score_HintsUsed := hintsUsed r\<rparr>"
  let ?b = "(score r')\<lparr>score_Elapsed := Since later (Some t0), score_HintsUsed := hintsUsed r'\<rparr>"
  have "score_ok ?a" "score_ok ?b"
    using runner_score_ok[OF assms(1)] runner_score_ok[OF assms(5)] since assms
    by (auto simp: runner_ok_def)
  moreover have "score_Elapsed ?a \<le> score_Elapsed ?b" using Since_mono[OF assms(4)] by simp
  ultimately have "Current ?b \<le> Current ?a"
    using assms by (intro Current_mono) (auto simp: runner_ok_def scoring_ok_def)
  then show ?thesis using assms by (simp add: CurrentScore_def Let_def)
qed

text \<open>
  A score before the start.  Between the creation of a runner and the moment its run records
  the start, the elapsed time is the largest duration, so with the default rules the reported score
  is 0, whatever the clock says and although no time counts yet.
\<close>

theorem CurrentScore_before_start:
  assumes "NewRunner s opts = Inr r" "Scoring s = DefaultScoring"
  shows "fst (CurrentScore now r) = 0"
proof -
  let ?s = "default_score (2 ^ 63 - 1) 0"
  have r: "(score r)\<lparr>score_Elapsed := Since now (startAt r), score_HintsUsed := hintsUsed r\<rparr> = ?s"
    using assms by (auto simp: NewRunner_def default_score_def Since_def split: sum.splits)
  have "9223372036 \<le> seconds_exact (2 ^ 63 - 1)"
    using seconds_frac(1)[of "2 ^ 63 - 1"] by (simp add: seconds_exact_def)
  then have sec: "9223372036 \<le> rnd_pos (seconds_exact (2 ^ 63 - 1))"
    using rnd_pos_mono[of 9223372036 "seconds_exact (2 ^ 63 - 1)"] rnd_pos_small_int[of 9223372036]
    by simp
  have rate: "rate_of (score_TimePenaltyPerSecond ?s) = rnd_pos (1 / 20)"
    using rnd_small[of "1 / 20"] by (simp add: default_score_def DefaultScoring_def rate_of_def)
  have "9223372036 * (1 / 32) \<le> rnd_pos (seconds_exact (2 ^ 63 - 1)) * rnd_pos (1 / 20)"
    using sec by (intro mult_mono) (simp_all add: rate_default_exact)
  then have "of_int 100 \<le> rnd_pos (seconds_exact (2 ^ 63 - 1)) * rnd_pos (1 / 20)" by simp
  then have "of_int 100 \<le> rnd_pos (rnd_pos (seconds_exact (2 ^ 63 - 1)) * rnd_pos (1 / 20))"
    using rnd_pos_mono[of "of_int 100"] rnd_pos_small_int[of 100] by fastforce
  then have "100 \<le> time_penalty (score_Elapsed ?s) (score_TimePenaltyPerSecond ?s)"
    unfolding time_penalty_def rate by (simp add: default_score_def le_floor_iff)
  moreover have "score_ok ?s" by (rule score_ok_default) simp_all
  ultimately have "Current ?s = 0"
    by (simp add: Current_eq) (simp add: default_score_def DefaultScoring_def)
  then show ?thesis by (simp add: CurrentScore_def Let_def r)
qed

section \<open>Fault delivery\<close>

definition accepted :: "http_reply \<Rightarrow> bool" where
  "accepted resp \<longleftrightarrow> (case resp of NoResponse \<Rightarrow> False | Response code _ \<Rightarrow> code < 300)"

lemma inject_all_run:
  "\<exists>rs. length rs = length es \<and>
    snd (run_state (inject_all e req es err) tr) =
      tr @ zip (map (\<lambda>en. PostStart (AgentURL en @ ''/fault/start'') req) es) rs \<and>
    (fst (run_state (inject_all e req es err) tr) = None \<longleftrightarrow> err = None \<and> list_all accepted rs)"
proof (induction es arbitrary: err tr)
  case (Cons en es)
  let ?c = "PostStart (AgentURL en @ ''/fault/start'') req"
  let ?x = "e tr ?c"
  let ?err = "case ?x of NoResponse \<Rightarrow> Some (VMUnreachable (vm_Name en))
    | Response code _ \<Rightarrow> if 300 \<le> code then Some (AgentReturned (vm_Name en) code) else err"
  have "?err = None \<longleftrightarrow> err = None \<and> accepted ?x"
    by (auto simp: accepted_def split: http_reply.splits)
  moreover obtain rs where "length rs = length es"
    "snd (run_state (inject_all e req es ?err) (tr @ [(?c, ?x)])) =
      (tr @ [(?c, ?x)]) @ zip (map (\<lambda>en. PostStart (AgentURL en @ ''/fault/start'') req) es) rs"
    "fst (run_state (inject_all e req es ?err) (tr @ [(?c, ?x)])) = None \<longleftrightarrow> ?err = None \<and> list_all accepted rs"
    using Cons.IH by blast
  ultimately show ?case
    by (intro exI[of _ "?x # rs"]) (simp add: run_state_bind)
qed (simp add: run_state_return)

lemma NewRunner_Inr:
  assumes "NewRunner s opts = Inr r"
  shows "BuildVMPlan s (opt_ScaleOverrides opts) (opt_DiskOverrides opts) (opt_VMIDs opts) = Inr (Plan r)"
    and "Scenario r = s" "hintsUsed r = 0" "startAt r = None" "run_opts r = opts"
    and "scoring_ok (Scoring s) \<Longrightarrow> runner_ok r"
  using assms unfolding runner_ok_def by (auto simp: NewRunner_def split: sum.splits)

text \<open>
  C21. Fault delivery.  Injecting a fault posts the fault, with its duration among the parameters,
  exactly once to the agent of every VM its target resolves to, in order, all of them VMs of the
  plan, and makes no other call; it succeeds exactly when every agent answered with a status below
  300.  If the target does not resolve, no call is made and the error is returned.
\<close>

theorem injectFault_delivers:
  assumes "NewRunner s opts = Inr r" "run_state (injectFault e r f) tr = (res, tr')"
  shows "case ResolveTargets (fault_Target f) (Plan r) of
      Inl err \<Rightarrow> res = Some (Resolve err) \<and> tr' = tr
    | Inr ps \<Rightarrow> ps \<noteq> [] \<and> set (map (\<lambda>p. VMs (Plan r) ! p) ps) \<subseteq> set (VMs (Plan r)) \<and>
        (\<exists>rs. length rs = length ps \<and>
          tr' = tr @ zip (map (\<lambda>p. PostStart (AgentURL (VMs (Plan r) ! p) @ ''/fault/start'')
                                    (fault_request f)) ps) rs \<and>
          (res = None \<longleftrightarrow> list_all accepted rs))"
proof (cases "ResolveTargets (fault_Target f) (Plan r)")
  case (Inl err)
  then show ?thesis using assms(2) by (simp add: injectFault_def run_state_return)
next
  case (Inr ps)
  note entries = plan.resolved_entries[OF NewRunner_Inr(1)[OF assms(1)] Inr]
  obtain rs where "length rs = length ps"
    "tr' = tr @ zip (map (\<lambda>en. PostStart (AgentURL en @ ''/fault/start'') (fault_request f))
      (map (\<lambda>p. VMs (Plan r) ! p) ps)) rs"
    "res = None \<longleftrightarrow> list_all accepted rs"
    using inject_all_run[of "map (\<lambda>p. VMs (Plan r) ! p) ps" e "fault_request f" None tr] assms(2) Inr
    by (auto simp: injectFault_def)
  then show ?thesis using entries Inr by (auto simp: comp_def)
qed


section \<open>Objectives\<close>

definition check_call :: "ObjectiveCheck \<Rightarrow> VMEntry \<Rightarrow> http_call" where
  "check_call check entry =
    (if check_Type check = CheckHTTP
       then Get (''http://'' @ (''172.16.'' @ fmt_d (vm_Index entry) @ ''.2'') @ check_Path check)
     else if check_Type check = CheckAgentMetric then Get (AgentURL entry @ ''/metrics'')
     else Get (AgentURL entry @ ''/services''))"

definition passes :: "decoders \<Rightarrow> ObjectiveCheck \<Rightarrow> http_reply \<Rightarrow> bool" where
  "passes d check resp \<longleftrightarrow>
    (case resp of
       NoResponse \<Rightarrow> False
     | Response code body \<Rightarrow>
        if check_Type check = CheckHTTP
          then code = (if check_ExpectedStatus check = 0 then 200 else check_ExpectedStatus check)
        else if check_Type check = CheckAgentMetric
          then (case decodeMetrics d body of
                  None \<Rightarrow> False | Some m \<Rightarrow> evalCondition m (check_Metric check) (check_Condition check))
        else (case decodeServices d body of
                None \<Rightarrow> False
              | Some svcs \<Rightarrow> \<exists>svc\<in>set svcs. svc_Name svc = check_Service check \<and> svc_Active svc))"

lemmas check_types = CheckHTTP_def CheckAgentMetric_def CheckProcessActive_def CheckFileExists_def

lemma check_vm_run:
  assumes "check_Type check \<in> {CheckHTTP, CheckAgentMetric, CheckProcessActive}"
  shows "run_state (check_vm e d check en) tr =
    (passes d check (e tr (check_call check en)),
     tr @ [(check_call check en, e tr (check_call check en))])"
  using assms
  by (auto simp: check_vm_def check_call_def passes_def fetchMetrics_def fetchServices_def check_types
        run_state_bind run_state_return Let_def list_ex_iff split: http_reply.splits option.splits)

lemma check_vms_prefix:
  assumes "check_Type check \<in> {CheckHTTP, CheckAgentMetric, CheckProcessActive}"
  shows "extends (check_vms e d check es)"
proof (induction es)
  case (Cons en es)
  have "extends (check_vm e d check en)" by (simp add: extends_def check_vm_run[OF assms])
  with Cons show ?case by auto
qed auto

lemma check_vms_run:
  assumes "check_Type check \<in> {CheckHTTP, CheckAgentMetric, CheckProcessActive}"
  shows "run_state (check_vms e d check es) tr = (ok, tr') \<Longrightarrow>
    ok \<longleftrightarrow> (\<exists>rs. length rs = length es \<and> list_all (passes d check) rs \<and>
      tr' = tr @ zip (map (check_call check) es) rs)"
proof (induction es arbitrary: tr)
  case (Cons en es)
  let ?c = "check_call check en" and ?x = "e tr (check_call check en)"
  note run = check_vm_run[OF assms, of e d en tr]
  show ?case
  proof (cases "passes d check ?x")
    case True
    then have "run_state (check_vms e d check es) (tr @ [(?c, ?x)]) = (ok, tr')"
      using Cons.prems run by (simp add: run_state_bind)
    moreover from this check_vms_prefix[OF assms] have "prefix (tr @ [(?c, ?x)]) tr'"
      unfolding extends_def by (metis snd_conv)
    then obtain rest where "tr' = tr @ (?c, ?x) # rest" by (auto simp: prefix_def)
    ultimately have ok: "ok \<longleftrightarrow> (\<exists>rs. length rs = length es \<and> list_all (passes d check) rs \<and>
        rest = zip (map (check_call check) es) rs)"
      using Cons.IH[of "tr @ [(?c, ?x)]"] by simp
    show ?thesis
      unfolding ok \<open>tr' = tr @ (?c, ?x) # rest\<close>
    proof
      assume "\<exists>rs. length rs = length es \<and> list_all (passes d check) rs \<and>
        rest = zip (map (check_call check) es) rs"
      then obtain rs where "length rs = length es" "list_all (passes d check) rs"
        "rest = zip (map (check_call check) es) rs" by blast
      with True show "\<exists>rs. length rs = length (en # es) \<and> list_all (passes d check) rs \<and>
        tr @ (?c, ?x) # rest = tr @ zip (map (check_call check) (en # es)) rs"
        by (intro exI[of _ "?x # rs"]) simp
    next
      assume "\<exists>rs. length rs = length (en # es) \<and> list_all (passes d check) rs \<and>
        tr @ (?c, ?x) # rest = tr @ zip (map (check_call check) (en # es)) rs"
      then obtain rs where "length rs = Suc (length es)" "list_all (passes d check) rs"
        "(?c, ?x) # rest = zip (?c # map (check_call check) es) rs" by auto
      then show "\<exists>rs. length rs = length es \<and> list_all (passes d check) rs \<and>
        rest = zip (map (check_call check) es) rs"
        by (cases rs) auto
    qed
  next
    case False
    then have "ok = False" "tr' = tr @ [(?c, ?x)]"
      using Cons.prems run by (simp_all add: run_state_bind run_state_return)
    with False show ?thesis by (auto simp: length_Suc_conv)
  qed
qed (simp add: run_state_return)

text \<open>Other types of check are not checked: their objectives pass without a request.\<close>

lemma check_vms_unchecked:
  assumes "check_Type check \<notin> {CheckHTTP, CheckAgentMetric, CheckProcessActive}"
  shows "run_state (check_vms e d check es) tr = (True, tr)"
  using assms by (induction es) (auto simp: check_vm_def run_state_bind run_state_return)

text \<open>
  C22. What it takes to meet an objective.  An objective whose type is HTTP status, agent metric or
  running service is met exactly when its target resolves and the calls made are one request to each
  targeted VM, each answered as the objective requires, once: how long it has to hold (the window) is
  not looked at.  An objective of any other type, the existence of a file among them, is met
  exactly when its target resolves, and nothing is asked.
\<close>

theorem checkObjective_iff:
  assumes "run_state (checkObjective e d r obj) tr = (ok, tr')"
  shows "if check_Type (objective_Check obj) \<in> {CheckHTTP, CheckAgentMetric, CheckProcessActive}
    then ok \<longleftrightarrow> (\<exists>ps rs. ResolveTargets (check_Target (objective_Check obj)) (Plan r) = Inr ps \<and>
      length rs = length ps \<and> list_all (passes d (objective_Check obj)) rs \<and>
      tr' = tr @ zip (map (\<lambda>p. check_call (objective_Check obj) (VMs (Plan r) ! p)) ps) rs)
    else tr' = tr \<and> (ok \<longleftrightarrow> (\<exists>ps. ResolveTargets (check_Target (objective_Check obj)) (Plan r) = Inr ps))"
proof (cases "ResolveTargets (check_Target (objective_Check obj)) (Plan r)")
  case (Inl err)
  then show ?thesis using assms by (simp add: checkObjective_def run_state_return)
next
  case (Inr ps)
  let ?es = "map (\<lambda>p. VMs (Plan r) ! p) ps"
  show ?thesis
  proof (cases "check_Type (objective_Check obj) \<in> {CheckHTTP, CheckAgentMetric, CheckProcessActive}")
    case True
    with check_vms_run[OF True, of e d ?es tr ok tr'] assms Inr show ?thesis
      by (simp add: checkObjective_def comp_def)
  next
    case False
    with check_vms_unchecked[OF False, of e d ?es tr] assms Inr show ?thesis
      by (simp add: checkObjective_def)
  qed
qed

lemma check_objectives_run:
  "fst (run_state (check_objectives e d r objs) tr) \<longleftrightarrow>
    Objectives (Scenario r) \<noteq> [] \<and>
    (\<exists>ts. length ts = Suc (length objs) \<and> ts ! 0 = tr \<and>
      (\<forall>i<length objs. run_state (checkObjective e d r (objs ! i)) (ts ! i) = (True, ts ! Suc i)))"
proof (induction objs arbitrary: tr)
  case Nil
  show ?case by (auto simp: run_state_return intro: exI[of _ "[tr]"])
next
  case (Cons obj objs)
  obtain ok tr1 where run: "run_state (checkObjective e d r obj) tr = (ok, tr1)" by fastforce
  show ?case
  proof (cases ok)
    case True
    have "(\<exists>ts. length ts = Suc (length (obj # objs)) \<and> ts ! 0 = tr \<and>
        (\<forall>i<length (obj # objs). run_state (checkObjective e d r ((obj # objs) ! i)) (ts ! i) = (True, ts ! Suc i)))
      \<longleftrightarrow> (\<exists>ts. length ts = Suc (length objs) \<and> ts ! 0 = tr1 \<and>
        (\<forall>i<length objs. run_state (checkObjective e d r (objs ! i)) (ts ! i) = (True, ts ! Suc i)))"
      (is "?L \<longleftrightarrow> ?R")
    proof
      assume ?L
      then obtain ts where ts: "length ts = Suc (Suc (length objs))" "ts ! 0 = tr"
        "\<forall>i<Suc (length objs). run_state (checkObjective e d r ((obj # objs) ! i)) (ts ! i) = (True, ts ! Suc i)"
        by auto
      then have "ts ! 1 = tr1" using run True by force
      with ts show ?R by (intro exI[of _ "tl ts"]) (auto simp: nth_tl)
    next
      assume ?R
      then obtain ts where "length ts = Suc (length objs)" "ts ! 0 = tr1"
        "\<forall>i<length objs. run_state (checkObjective e d r (objs ! i)) (ts ! i) = (True, ts ! Suc i)" by blast
      then show ?L using run True by (intro exI[of _ "tr # ts"]) (auto simp: nth_Cons split: nat.splits)
    qed
    with True run Cons.IH[of tr1] show ?thesis by (simp add: run_state_bind)
  next
    case False
    with run show ?thesis by (auto simp: run_state_bind run_state_return)
  qed
qed

text \<open>
  Completion.  All objectives are reported met exactly when the scenario has objectives and
  each of them, checked one after the other, was met.  In particular a scenario without
  objectives is never reported as complete, and nothing is asked of any VM.
\<close>

theorem checkAllObjectives_iff:
  "(fst (run_state (checkAllObjectives e d r) tr) \<longleftrightarrow>
    Objectives (Scenario r) \<noteq> [] \<and>
    (\<exists>ts. length ts = Suc (length (Objectives (Scenario r))) \<and> ts ! 0 = tr \<and>
      list_all (\<lambda>i. run_state (checkObjective e d r (Objectives (Scenario r) ! i)) (ts ! i) =
        (True, ts ! Suc i)) [0..<length (Objectives (Scenario r))])) \<and>
   run_state (checkAllObjectives e d (r\<lparr>Scenario := (Scenario r)\<lparr>Objectives := []\<rparr>\<rparr>)) tr = (False, tr)"
  unfolding checkAllObjectives_def
  by (simp add: check_objectives_run list_all_length run_state_return)

section \<open>Conditions on metrics\<close>

definition threshold_text :: "char \<Rightarrow> nat \<Rightarrow> bool \<Rightarrow> string" where
  "threshold_text op n pct = [op, CHR '' ''] @ show_base 10 n @ (if pct then ''%'' else '''')"

lemma last_show_base_digit: "is_digit (last (show_base 10 n))"
  by (rule show_dec_digits[OF last_in_set]) simp

lemma hd_show_base_digit: "is_digit (hd (show_base 10 n))"
  by (rule show_dec_digits[OF hd_in_set]) simp

lemma TrimSuffix_percent:
  assumes "is_digit (last s)" "s \<noteq> []"
  shows "TrimSuffix (s @ ''%'') ''%'' = s" "TrimSuffix s ''%'' = s"
proof -
  show "TrimSuffix (s @ ''%'') ''%'' = s" by (simp add: TrimSuffix_def HasSuffix_def)
  have "drop (length s - 1) s = [last s]"
    using assms(2) by (metis append_butlast_last_id append_eq_conv_conj length_butlast)
  moreover have "last s \<noteq> CHR ''%''" using assms(1) by (auto simp: is_digit_def)
  ultimately show "TrimSuffix s ''%'' = s" by (simp add: TrimSuffix_def HasSuffix_def)
qed

lemma trim_threshold:
  assumes "graphic op"
  shows "TrimSpace (TrimSuffix (TrimSpace (threshold_text op n pct)) ''%'') = [op, CHR '' ''] @ show_base 10 n"
    and "TrimSpace (CHR '' '' # show_base 10 n) = show_base 10 n"
proof -
  let ?s = "[op, CHR '' ''] @ show_base 10 n"
  have d: "graphic (last (show_base 10 n))" "graphic (hd (show_base 10 n))"
    using last_show_base_digit hd_show_base_digit by (auto intro: graphic_digit)
  have pct: "graphic (CHR ''%'')" by (simp add: graphic_def)
  have "TrimSpace (threshold_text op n pct) = threshold_text op n pct"
    using assms d pct by (intro TrimSpace_graphic) (auto simp: threshold_text_def)
  moreover have "TrimSuffix (threshold_text op n pct) ''%'' = ?s"
    using TrimSuffix_percent[of ?s] last_show_base_digit[of n]
    by (cases pct) (simp_all add: threshold_text_def)
  moreover have "TrimSpace ?s = ?s" using assms d by (intro TrimSpace_graphic) auto
  ultimately show "TrimSpace (TrimSuffix (TrimSpace (threshold_text op n pct)) ''%'') = ?s" by simp
  show "TrimSpace (CHR '' '' # show_base 10 n) = show_base 10 n"
    using d by (simp add: TrimSpace_leading_space TrimSpace_graphic)
qed

text \<open>
  Conditions.  A condition written as a comparison sign, a whole number and an optional
  percent sign holds exactly when the named metric is below, or above, that number; with an
  unknown metric no condition ever holds.
\<close>

theorem evalCondition_threshold:
  assumes "n < 2 ^ 53"
  shows "(evalCondition m metric (threshold_text (CHR ''<'') n pct) \<longleftrightarrow>
      (\<exists>v. metric_value m metric = Some v \<and> f64_lt v (Fin (of_nat n)))) \<and>
    (evalCondition m metric (threshold_text (CHR ''>'') n pct) \<longleftrightarrow>
      (\<exists>v. metric_value m metric = Some v \<and> f64_lt (Fin (of_nat n)) v))"
    (is "?lt \<and> ?gt")
proof -
  have g: "graphic (CHR ''<'')" "graphic (CHR ''>'')" by (simp_all add: graphic_def)
  note simps = trim_threshold(1)[OF g(1)] trim_threshold(1)[OF g(2)] trim_threshold(2)[OF g(1)]
    ParseFloat_whole[OF assms] evalCondition_def Let_def HasPrefix_def
  have ?lt by (cases "metric_value m metric") (simp_all add: simps)
  moreover have ?gt by (cases "metric_value m metric") (simp_all add: simps)
  ultimately show ?thesis ..
qed

section \<open>Concrete runs\<close>

definition sample_opts :: "int list \<Rightarrow> RunOptions" where
  "sample_opts ids =
    \<lparr>opt_KernelPath = ''vmlinux'', opt_RootFSPath = ''ubuntu.ext4'', opt_CloudInitISO = '''',
     opt_FirecrackerBin = '''', opt_ScaleOverrides = fmempty, opt_DiskOverrides = fmempty,
     opt_DryRun = False, opt_WebPort = 0, opt_VMIDs = ids\<rparr>"

definition sample_runner :: "int list \<Rightarrow> Runner" where
  "sample_runner ids = projr (NewRunner sample_scenario (sample_opts ids))"

lemma sample_runner: "NewRunner sample_scenario (sample_opts ids) = Inr (sample_runner ids)"
  by (simp add: sample_runner_def NewRunner_def sample_opts_def sample_plan)

lemma Plan_sample_runner: "Plan (sample_runner ids) = sample_plan ids"
  by (simp add: sample_runner_def NewRunner_def sample_opts_def sample_plan)

theorem RequestHintText_nth_witness:
  "fst (RequestHintText (sample_runner [])) = ''look at top''"
  using RequestHintText_nth[of 0, OF _ sample_runner[of "[]"]]
  by (simp add: Let_def sample_scenario_def)

theorem CurrentScore_before_start_witness: "fst (CurrentScore 0 (sample_runner [])) = 0"
  by (rule CurrentScore_before_start[OF sample_runner]) (simp add: sample_scenario_def)

lemma scoring_ok_default: "scoring_ok DefaultScoring"
  using rate_DefaultScoring by (simp add: scoring_ok_def) (simp add: DefaultScoring_def)

theorem CurrentScore_antitone_witness:
  "fst (CurrentScore (9 * Second) ((sample_runner [])\<lparr>startAt := Some 0, hintsUsed := 1\<rparr>)) \<le>
   fst (CurrentScore Second ((sample_runner [])\<lparr>startAt := Some 0\<rparr>))"
proof -
  have "Scoring sample_scenario = DefaultScoring" by (simp add: sample_scenario_def)
  then have ok: "runner_ok (sample_runner [])" "hintsUsed (sample_runner []) = 0"
    using scoring_ok_default NewRunner_Inr(3,6)[OF sample_runner[of "[]"]] by simp_all
  show ?thesis
    by (rule CurrentScore_antitone[where ?t0.0 = 0]) (use ok in \<open>auto simp: runner_ok_def\<close>)
qed

definition always_ok :: http_env where
  "always_ok tr c = Response 200 ''''"

theorem injectFault_delivers_witness:
  "\<exists>rs. length rs = 2 \<and> snd (run_state (injectFault always_ok (sample_runner [5, 6, 7]) sample_fault) []) =
    zip [PostStart ''http://172.16.5.2:7777/fault/start'' (fault_request sample_fault),
         PostStart ''http://172.16.6.2:7777/fault/start'' (fault_request sample_fault)] rs"
proof -
  let ?r = "sample_runner [5, 6, 7]"
  obtain res tr' where run: "run_state (injectFault always_ok ?r sample_fault) [] = (res, tr')" by fastforce
  have "ResolveTargets (fault_Target sample_fault) (Plan ?r) = Inr [0, 1]"
    by (simp add: ResolveTargets_def sample_fault_def sample_target_def Plan_sample_runner sample_ByTier)
  moreover have "AgentURL (VMs (Plan ?r) ! 0) = ''http://172.16.5.2:7777''"
    "AgentURL (VMs (Plan ?r) ! 1) = ''http://172.16.6.2:7777''"
    by (simp_all add: Plan_sample_runner sample_VMs AgentURL_def vm_entry_def fmt_d_def
        show_base.simps digit_table_def)
  ultimately show ?thesis
    using injectFault_delivers[OF sample_runner run] run
    by (auto simp: numeral_2_eq_2 intro: exI)
qed

definition sample_objective :: Objective where
  "sample_objective =
    \<lparr>objective_ID = ''o1'', objective_Description = ''site is up'',
     objective_Check = \<lparr>check_Type = CheckHTTP, check_Target = sample_target '''' ''cache'',
       check_Path = ''/'', check_ExpectedStatus = 0, check_Window = '''', check_Metric = '''',
       check_Condition = '''', check_Service = ''''\<rparr>\<rparr>"

theorem checkObjective_iff_witness:
  "\<not> fst (run_state (checkObjective always_ok \<lparr>decodeMetrics = \<lambda>_. None, decodeServices = \<lambda>_. None\<rparr>
     (sample_runner []) sample_objective) [])"
proof -
  let ?d = "\<lparr>decodeMetrics = \<lambda>_. None, decodeServices = \<lambda>_. None\<rparr>"
  obtain ok tr' where run: "run_state (checkObjective always_ok ?d (sample_runner []) sample_objective) [] = (ok, tr')"
    by fastforce
  have "isl (ResolveTargets (sample_target '''' ''cache'') (sample_plan []))"
    by (simp add: ResolveTargets_def sample_target_def sample_ByTier)
  then show ?thesis
    using checkObjective_iff[OF run] run
    by (auto simp: sample_objective_def Plan_sample_runner)
qed

theorem evalCondition_threshold_witness:
  "evalCondition \<lparr>CPUPct = Fin 12, MemUsedPct = Fin 0, DiskUsedPct = Fin 0, DiskFreeMB = Fin 0,
     LoadAvg1 = Fin 0\<rparr> ''cpu_pct'' (threshold_text (CHR ''<'') 80 True)"
  using evalCondition_threshold[of 80] by (simp add: metric_value_def)

end
