(* ===== verification/RunOutput.thy ===== *)
theory RunOutput
  imports Runner
begin

text \<open>
  What \<open>src/scenario/runner.go\<close> shows to the trainee: the message of the day written into every VM
  (\<open>buildMOTD\<close>), the briefing and the result printed on the host (\<open>printSignals\<close>,
  \<open>printResult\<close>).  Each function is the text it writes.  The case tables of Unicode are a parameter,
  as in \<open>GoLib\<close>.

  Shown: the two separately written briefings agree, so the trainee reads the same on the VM and on
  the host.
\<close>

text \<open>The em dash and the bullet, as UTF-8.\<close>

definition em_dash :: string where "em_dash = [CHR 0xE2, CHR 0x80, CHR 0x94]"
definition bullet :: string where "bullet = [CHR 0xE2, CHR 0x80, CHR 0xA2]"

fun lines_of :: "('a \<Rightarrow> string) \<Rightarrow> 'a list \<Rightarrow> string \<Rightarrow> string" where
  "lines_of f [] b = b"
| "lines_of f (x # xs) b = lines_of f xs (b @ f x)"

definition alert_line :: "(string \<Rightarrow> string) \<Rightarrow> Alert \<Rightarrow> string" where
  "alert_line uni a =
    ''['' @ ToUpper uni (alert_Severity a) @ ''] '' @ alert_Name a @ '' '' @ em_dash @ '' '' @
    alert_Message a @ nl"

definition symptom_line :: "string \<Rightarrow> string" where
  "symptom_line s = ''  '' @ bullet @ '' '' @ s @ nl"

definition objective_line :: "Objective \<Rightarrow> string" where
  "objective_line obj = ''  [ ] '' @ objective_Description obj @ nl"

definition hint_line :: "Scoring \<Rightarrow> string" where
  "hint_line sc =
    nl @ ''Type '' @ [CHR 0x27] @ ''onfire hint'' @ [CHR 0x27] @ '' for a hint (-'' @
    fmt_d (scoring_HintPenalty sc) @ '' pts each).'' @ nl @ nl"

definition buildMOTD :: "(string \<Rightarrow> string) \<Rightarrow> Runner \<Rightarrow> string" where
  "buildMOTD uni r =
    (let m = Meta (Scenario r); sig = Signals (Scenario r);
         b = nl @ ''=== '' @ meta_Title m @ '' ==='' @ nl;
         b = b @ ''Difficulty: '' @ meta_Difficulty m @ '' | Architecture: '' @ meta_Architecture m @ nl @ nl;
         b = b @ TrimSpace (meta_Description m) @ nl;
         b = b @ nl @ ''--- Active Alerts ---'' @ nl;
         b = lines_of (alert_line uni) (signals_Alerts sig) b;
         b = (if 0 < length (signals_Symptoms sig) then
                lines_of symptom_line (signals_Symptoms sig)
                  (b @ nl @ ''--- What you'' @ [CHR 0x27] @ ''re seeing ---'' @ nl)
              else b);
         b = b @ nl @ ''Objectives:'' @ nl;
         b = lines_of objective_line (Objectives (Scenario r)) b
     in b @ hint_line (Scoring (Scenario r)))"

definition printSignals :: "(string \<Rightarrow> string) \<Rightarrow> Runner \<Rightarrow> string" where
  "printSignals uni r =
    (let sig = Signals (Scenario r);
         out = nl @ ''--- Active Alerts ---'' @ nl;
         out = lines_of (alert_line uni) (signals_Alerts sig) out;
         out = (if 0 < length (signals_Symptoms sig) then
                  lines_of symptom_line (signals_Symptoms sig)
                    (out @ nl @ ''--- What you'' @ [CHR 0x27] @ ''re seeing ---'' @ nl)
                else out);
         out = (if signals_RunbookURL sig \<noteq> '''' then out @ nl @ ''Runbook: '' @ signals_RunbookURL sig @ nl
                else out);
         out = lines_of objective_line (Objectives (Scenario r)) (out @ nl @ ''Objectives:'' @ nl)
     in out @ hint_line (Scoring (Scenario r)))"

definition printResult :: "bool \<Rightarrow> Runner \<Rightarrow> string" where
  "printResult solved r =
    (let elapsed = Round Second (score_Elapsed (score r)); scr = Current (score r) in
     nl @ ''=== '' @ (if solved then ''SCENARIO COMPLETE'' else ''SCENARIO ABORTED'') @ '' ==='' @ nl @
     ''Time elapsed : '' @ duration_string elapsed @ nl @
     ''Hints used   : '' @ fmt_d (hintsUsed r) @ nl @
     ''Final score  : '' @ fmt_d scr @ '' / '' @ fmt_d (scoring_Base (Scoring (Scenario r))) @ nl)"

lemma lines_of_append: "lines_of f xs b = b @ concat (map f xs)"
  by (induction xs arbitrary: b) auto

text \<open>
  One briefing.  The message of the day on the VM is the title block followed by exactly the
  text printed on the host, but for the line with the runbook: the same alerts, symptoms,
  objectives and hint price, in the same order.
\<close>

theorem briefings_agree:
  "\<exists>before runbook after. printSignals uni r = before @ runbook @ after \<and>
    runbook = (if signals_RunbookURL (Signals (Scenario r)) = '''' then ''''
      else nl @ ''Runbook: '' @ signals_RunbookURL (Signals (Scenario r)) @ nl) \<and>
    buildMOTD uni r =
      nl @ ''=== '' @ meta_Title (Meta (Scenario r)) @ '' ==='' @ nl @
      ''Difficulty: '' @ meta_Difficulty (Meta (Scenario r)) @ '' | Architecture: '' @
      meta_Architecture (Meta (Scenario r)) @ nl @ nl @
      TrimSpace (meta_Description (Meta (Scenario r))) @ nl @ before @ after"
proof -
  let ?sig = "Signals (Scenario r)"
  let ?before = "nl @ ''--- Active Alerts ---'' @ nl @ concat (map (alert_line uni) (signals_Alerts ?sig)) @
    (if signals_Symptoms ?sig = [] then '''' else nl @ ''--- What you'' @ [CHR 0x27] @ ''re seeing ---'' @ nl @
      concat (map symptom_line (signals_Symptoms ?sig)))"
  let ?after = "nl @ ''Objectives:'' @ nl @ concat (map objective_line (Objectives (Scenario r))) @
    hint_line (Scoring (Scenario r))"
  show ?thesis
    by (rule exI[of _ ?before], rule exI[of _ "if signals_RunbookURL ?sig = '''' then ''''
        else nl @ ''Runbook: '' @ signals_RunbookURL ?sig @ nl"], rule exI[of _ ?after])
       (simp add: buildMOTD_def printSignals_def lines_of_append Let_def)
qed

lemma printResult_inj_score:
  assumes "printResult solved r = printResult solved r'"
    "Scenario r' = Scenario r" "hintsUsed r' = hintsUsed r"
    "score_Elapsed (score r') = score_Elapsed (score r)"
  shows "Current (score r') = Current (score r)"
proof -
  have "fmt_d (Current (score r')) @ '' / '' @ fmt_d (scoring_Base (Scoring (Scenario r))) @ nl =
    fmt_d (Current (score r)) @ '' / '' @ fmt_d (scoring_Base (Scoring (Scenario r))) @ nl"
    using assms by (simp add: printResult_def Let_def)
  then show ?thesis using fmt_d_inj by simp
qed

end
