(* ===== verification/Resources.thy ===== *)
theory Resources
  imports Prelude
begin

text \<open>
  Acquiring and giving back resources, for programs written with Go's \<open>defer\<close>.

  A protocol says which release a successful call owes (\<open>clean\<close>) and which calls are releases
  (\<open>rel\<close>).  \<open>owed\<close> runs a trace against a stack of owed releases.  A program is \<open>balanced\<close> if
  it leaves that stack as it found it, whatever the outside world answers.  The locale
  \<open>resources\<close> shows once that balanced programs are closed under the constructs the models are
  written with; each component that launches VMs interprets it on its own calls.
\<close>

text \<open>Run \<open>p\<close>, then the deferred call.\<close>

definition with_defer :: "('c, 'r) env \<Rightarrow> 'c \<Rightarrow> ('c, 'r, 'a) prog \<Rightarrow> ('c, 'r, 'a) prog" where
  "with_defer d c p =
    State_Monad.bind p (\<lambda>x. State_Monad.bind (perform d c) (\<lambda>_. State_Monad.return x))"

lemma run_with_defer [run_simps]:
  "run_state (with_defer d c p) tr =
    (fst (run_state p tr), snd (run_state p tr) @ [(c, d (snd (run_state p tr)) c)])"
  by (simp add: with_defer_def run_state_bind run_state_return split_beta)

lemma extends_with_defer [intro]: "extends p \<Longrightarrow> extends (with_defer d c p)"
  unfolding with_defer_def by auto

text \<open>
  An acquisition pushes the release it owes, a release must match the top; \<open>None\<close> if it does not.
\<close>

fun owed ::
  "('c \<Rightarrow> 'r \<Rightarrow> 'c option) \<Rightarrow> ('c \<Rightarrow> bool) \<Rightarrow> 'c list \<Rightarrow> ('c, 'r) trace \<Rightarrow> 'c list option" where
  "owed clean rel st [] = Some st"
| "owed clean rel st ((c, r) # tr) =
    (if rel c then
       (case st of [] \<Rightarrow> None | x # st' \<Rightarrow> if x = c then owed clean rel st' tr else None)
     else case clean c r of
            None \<Rightarrow> owed clean rel st tr
          | Some x \<Rightarrow> owed clean rel (x # st) tr)"

lemma owed_append:
  "owed clean rel st (tr @ tr') =
    (case owed clean rel st tr of None \<Rightarrow> None | Some st' \<Rightarrow> owed clean rel st' tr')"
  by (induction clean rel st tr rule: owed.induct) (auto split: option.splits list.splits)

definition balanced ::
  "('c \<Rightarrow> 'r \<Rightarrow> 'c option) \<Rightarrow> ('c \<Rightarrow> bool) \<Rightarrow> ('c, 'r, 'a) prog \<Rightarrow> bool" where
  "balanced clean rel p \<longleftrightarrow>
    (\<forall>tr st0 st. owed clean rel st0 tr = Some st \<longrightarrow>
       owed clean rel st0 (snd (run_state p tr)) = Some st)"

lemma balanced_run: "balanced clean rel p \<Longrightarrow> owed clean rel [] (snd (run_state p [])) = Some []"
  by (simp add: balanced_def)

locale resources =
  fixes clean :: "'c \<Rightarrow> 'r \<Rightarrow> 'c option"
    and rel :: "'c \<Rightarrow> bool"
  assumes clean_rel: "clean c r = Some x \<Longrightarrow> rel x"
begin

lemma balanced_return: "balanced clean rel (State_Monad.return x)"
  by (simp add: balanced_def run_state_return)

lemma balanced_bind:
  "balanced clean rel p \<Longrightarrow> (\<And>x. balanced clean rel (f x)) \<Longrightarrow>
   balanced clean rel (State_Monad.bind p f)"
  by (auto simp: balanced_def run_state_bind split: prod.splits) (metis snd_conv)

lemma balanced_perform:
  "\<not> rel c \<Longrightarrow> (\<And>r. clean c r = None) \<Longrightarrow> balanced clean rel (perform d c)"
  by (simp add: balanced_def owed_append)

lemma balanced_if:
  "balanced clean rel p \<Longrightarrow> balanced clean rel q \<Longrightarrow> balanced clean rel (if b then p else q)"
  by simp

text \<open>An acquisition, and the program that defers the release when it succeeded.\<close>

lemma balanced_acquire:
  assumes "\<not> rel c" and "\<And>r. clean c r = None \<Longrightarrow> balanced clean rel (f r)"
    and "\<And>r x. clean c r = Some x \<Longrightarrow> \<exists>p. balanced clean rel p \<and> f r = with_defer d x p"
  shows "balanced clean rel (State_Monad.bind (perform d c) f)"
  unfolding balanced_def
proof (intro allI impI)
  fix tr st0 st assume st: "owed clean rel st0 tr = Some st"
  let ?r = "d tr c" and ?tr = "tr @ [(c, d tr c)]"
  show "owed clean rel st0 (snd (run_state (State_Monad.bind (perform d c) f) tr)) = Some st"
  proof (cases "clean c ?r")
    case None
    then have "owed clean rel st0 ?tr = Some st" using st assms(1) by (simp add: owed_append)
    with assms(2)[OF None] show ?thesis by (simp add: balanced_def run_state_bind)
  next
    case (Some x)
    then obtain p where p: "balanced clean rel p" "f ?r = with_defer d x p"
      using assms(3) by blast
    have "owed clean rel st0 ?tr = Some (x # st)" using st Some assms(1) by (simp add: owed_append)
    with p(1) have "owed clean rel st0 (snd (run_state p ?tr)) = Some (x # st)"
      by (simp add: balanced_def)
    with p(2) clean_rel[OF Some] show ?thesis
      by (cases "run_state p ?tr")
         (simp add: run_state_bind with_defer_def owed_append run_state_return)
  qed
qed

end


section \<open>What a program may add to the trace\<close>

text \<open>A program keeps the trace and adds only events of a kind.\<close>

definition emits :: "('c \<times> 'r \<Rightarrow> bool) \<Rightarrow> ('c, 'r, 'a) prog \<Rightarrow> bool" where
  "emits Q p \<longleftrightarrow> (\<forall>tr. set tr \<subseteq> set (snd (run_state p tr)) \<and>
    set (snd (run_state p tr)) \<subseteq> set tr \<union> Collect Q)"

lemma emits_return: "emits Q (State_Monad.return x)"
  by (simp add: emits_def run_state_return)

lemma emits_perform: "(\<And>r. Q (c, r)) \<Longrightarrow> emits Q (perform d c)"
  by (auto simp: emits_def)

lemma emits_bind: "emits Q p \<Longrightarrow> (\<And>x. emits Q (f x)) \<Longrightarrow> emits Q (State_Monad.bind p f)"
  unfolding emits_def run_state_bind
  by (auto split: prod.splits) (metis snd_conv subsetD, metis (mono_tags) Un_iff mem_Collect_eq snd_conv subsetD)

lemma emits_defer: "emits Q p \<Longrightarrow> (\<And>r. Q (c, r)) \<Longrightarrow> emits Q (with_defer d c p)"
  unfolding with_defer_def by (auto intro!: emits_bind emits_perform emits_return)


section \<open>Traces of an environment\<close>

text \<open>In a genuine trace of an environment every reply is the one the environment gives there.\<close>

inductive genuine :: "('c, 'r) env \<Rightarrow> ('c, 'r) trace \<Rightarrow> bool" for d where
  genuine_Nil: "genuine d []"
| genuine_snoc: "genuine d tr \<Longrightarrow> genuine d (tr @ [(c, d tr c)])"

definition plays :: "('c, 'r) env \<Rightarrow> ('c, 'r, 'a) prog \<Rightarrow> bool" where
  "plays d p \<longleftrightarrow> (\<forall>tr. genuine d tr \<longrightarrow> genuine d (snd (run_state p tr)))"

lemma plays_return: "plays d (State_Monad.return x)"
  by (simp add: plays_def run_state_return)

lemma plays_perform: "plays d (perform d c)"
  by (simp add: plays_def genuine_snoc)

lemma plays_bind: "plays d p \<Longrightarrow> (\<And>x. plays d (f x)) \<Longrightarrow> plays d (State_Monad.bind p f)"
  by (simp add: plays_def run_state_bind split_beta)

lemma plays_defer: "plays d p \<Longrightarrow> plays d (with_defer d c p)"
  by (simp add: plays_def run_with_defer genuine_snoc)

lemma plays_if: "plays d p \<Longrightarrow> plays d q \<Longrightarrow> plays d (if b then p else q)"
  by simp

lemmas plays_intros = plays_return plays_perform plays_bind plays_defer plays_if

lemma plays_genuine: "plays d p \<Longrightarrow> genuine d (snd (run_state p []))"
  by (simp add: plays_def genuine_Nil)

end
