(* ===== verification/VMConfig.thy ===== *)
theory VMConfig
  imports GoLib
begin

text \<open>
  \<open>src/vm/config.go\<close>: the configuration of one microVM.  The record \<open>config\<close> is the
  struct \<open>Config\<close>; \<open>DefaultConfig\<close>, \<open>resolveBinary\<close>, \<open>Validate\<close> and \<open>ForVM\<close> are its
  operations.  The environment variables and \<open>exec.LookPath\<close> are parameters.  The regular
  expression \<open>\bip=[^\s]*\<close> of \<open>ForVM\<close> is written out as a left-to-right scan that
  remembers the previous character.

  Shown: \<open>ForVM\<close> gives different VMs different sockets, TAP devices, MAC addresses, log files,
  addresses and, if the base image is named \<open>.iso\<close>, cloud-init images; the kernel command line carries exactly the VM's own
  \<open>ip=\<close> arguments and rewriting it again gives the same result; \<open>Validate\<close> accepts exactly the
  complete configurations.
\<close>

record config =
  FirecrackerBin :: string
  SocketPath :: string
  KernelImagePath :: string
  RootFSPath :: string
  VCPUs :: int
  MemSizeMiB :: int
  RootFSSizeMiB :: int
  KernelArgs :: string
  TapDeviceName :: string
  MacAddress :: string
  LogPath :: string
  LogLevel :: string
  CloudInitISO :: string

definition DefaultConfig :: config where
  "DefaultConfig =
    \<lparr>FirecrackerBin = '''', SocketPath = ''/tmp/firecracker.sock'', KernelImagePath = '''',
     RootFSPath = '''', VCPUs = 1, MemSizeMiB = 512, RootFSSizeMiB = 1024,
     KernelArgs = ''console=ttyS0 reboot=k panic=1 pci=off'', TapDeviceName = '''',
     MacAddress = '''', LogPath = '''', LogLevel = ''Info'', CloudInitISO = ''''\<rparr>"

datatype config_error =
    BinaryNotFound
  | KernelRequired
  | RootFSRequired
  | VCPUsTooSmall
  | MemTooSmall

definition resolveBinary ::
  "(string \<Rightarrow> string) \<Rightarrow> (string \<Rightarrow> string option) \<Rightarrow> string \<Rightarrow> config_error + string" where
  "resolveBinary getenv lookPath explicit =
    (if explicit \<noteq> '''' then Inr explicit
     else if getenv ''FIRECRACKER_BIN'' \<noteq> '''' then Inr (getenv ''FIRECRACKER_BIN'')
     else case lookPath ''firecracker'' of
            None \<Rightarrow> Inl BinaryNotFound
          | Some path \<Rightarrow> Inr path)"

definition Validate ::
  "(string \<Rightarrow> string) \<Rightarrow> (string \<Rightarrow> string option) \<Rightarrow> config \<Rightarrow> config_error + config" where
  "Validate getenv lookPath c =
    (case resolveBinary getenv lookPath (FirecrackerBin c) of
       Inl e \<Rightarrow> Inl e
     | Inr bin \<Rightarrow>
        let c = c\<lparr>FirecrackerBin := bin\<rparr> in
        if KernelImagePath c = '''' then Inl KernelRequired
        else if RootFSPath c = '''' then Inl RootFSRequired
        else if VCPUs c < 1 then Inl VCPUsTooSmall
        else if MemSizeMiB c < 1 then Inl MemTooSmall
        else Inr c)"

text \<open>The character classes of the regular expression, and its word boundary before \<open>i\<close>.\<close>

definition re_space :: "char \<Rightarrow> bool" where
  "re_space c \<longleftrightarrow> c \<in> {CHR 0x09, CHR 0x0A, CHR 0x0C, CHR 0x0D, CHR 0x20}"

definition re_word :: "char \<Rightarrow> bool" where
  "re_word c \<longleftrightarrow>
    (let n = of_char c :: nat in
     48 \<le> n \<and> n \<le> 57 \<or> 65 \<le> n \<and> n \<le> 90 \<or> 97 \<le> n \<and> n \<le> 122 \<or> n = 95)"

definition boundary :: "char option \<Rightarrow> bool" where
  "boundary prev \<longleftrightarrow> (case prev of None \<Rightarrow> True | Some c \<Rightarrow> \<not> re_word c)"

definition ip_token :: "string \<Rightarrow> string" where
  "ip_token s = ''ip='' @ takeWhile (\<lambda>c. \<not> re_space c) (drop 3 s)"

definition ip_rest :: "string \<Rightarrow> string" where
  "ip_rest s = dropWhile (\<lambda>c. \<not> re_space c) (drop 3 s)"

lemma ip_rest_shorter [termination_simp]: "length (ip_rest (c # cs)) < Suc (length cs)"
proof -
  let ?s = "c # cs"
  have "length (ip_rest ?s) \<le> length (drop 3 ?s)"
    unfolding ip_rest_def by (rule length_dropWhile_le)
  then show ?thesis by simp
qed

text \<open>All matches of the expression, and \<open>ReplaceAllString\<close>.\<close>

fun find_ip :: "char option \<Rightarrow> string \<Rightarrow> string list" where
  "find_ip prev [] = []"
| "find_ip prev (c # cs) =
    (if boundary prev \<and> HasPrefix (c # cs) ''ip=''
     then ip_token (c # cs) # find_ip (Some (last (ip_token (c # cs)))) (ip_rest (c # cs))
     else find_ip (Some c) cs)"

fun replace_ip :: "string \<Rightarrow> char option \<Rightarrow> string \<Rightarrow> string" where
  "replace_ip new prev [] = []"
| "replace_ip new prev (c # cs) =
    (if boundary prev \<and> HasPrefix (c # cs) ''ip=''
     then new @ replace_ip new (Some (last (ip_token (c # cs)))) (ip_rest (c # cs))
     else c # replace_ip new (Some c) cs)"

definition ip_arg :: "int \<Rightarrow> string" where
  "ip_arg vmID =
    ''ip='' @ (''172.16.'' @ fmt_d vmID @ ''.2'') @ ''::'' @ (''172.16.'' @ fmt_d vmID @ ''.1'') @
    '':'' @ ''255.255.255.252'' @ ''::eth0:off:8.8.8.8''"

definition ForVM :: "config \<Rightarrow> int \<Rightarrow> config" where
  "ForVM c vmID =
    (let c1 = c\<lparr>SocketPath := ''/tmp/firecracker-'' @ fmt_d vmID @ ''.sock'',
                TapDeviceName := ''tap'' @ fmt_d vmID,
                MacAddress := ''AA:FC:00:00:00:'' @ fmt_02X (vmID + 1),
                LogPath := ''vm-'' @ fmt_d vmID @ ''.log''\<rparr>;
         newIPArg = ip_arg vmID;
         c2 = (if find_ip None (KernelArgs c1) \<noteq> []
               then c1\<lparr>KernelArgs := replace_ip newIPArg None (KernelArgs c1)\<rparr>
               else c1\<lparr>KernelArgs := KernelArgs c1 @ '' '' @ newIPArg\<rparr>);
         iso = CloudInitISO c2;
         n = length iso - 4
     in if iso \<noteq> '''' then
          (if 4 < length iso \<and> drop n iso = ''.iso''
           then c2\<lparr>CloudInitISO := take n iso @ ''-'' @ fmt_d vmID @ ''.iso''\<rparr> else c2)
        else c2)"


section \<open>Rewriting the kernel command line\<close>

lemma HasPrefix_ip_iff:
  "HasPrefix s ''ip='' \<longleftrightarrow> (\<exists>t. s = CHR ''i'' # CHR ''p'' # CHR ''='' # t)"
  by (cases s rule: list.exhaust; cases "tl s"; cases "tl (tl s)") (auto simp: HasPrefix_def)

text \<open>One step of the two scans: at a match, and elsewhere.\<close>

lemma scan_match:
  assumes "boundary prev" "HasPrefix s ''ip=''"
  shows "find_ip prev s = ip_token s # find_ip (Some (last (ip_token s))) (ip_rest s)"
    and "replace_ip new prev s = new @ replace_ip new (Some (last (ip_token s))) (ip_rest s)"
  using assms by (cases s; simp add: HasPrefix_def)+

lemma scan_copy:
  assumes "\<not> (boundary prev \<and> HasPrefix (c # cs) ''ip='')"
  shows "find_ip prev (c # cs) = find_ip (Some c) cs"
    and "replace_ip new prev (c # cs) = c # replace_ip new (Some c) cs"
  using assms by auto

lemma scan_copy_no_i [simp]:
  assumes "c \<noteq> CHR ''i''"
  shows "find_ip prev (c # cs) = find_ip (Some c) cs"
    and "replace_ip new prev (c # cs) = c # replace_ip new (Some c) cs"
  using assms by (auto simp: HasPrefix_ip_iff)

declare find_ip.simps(2) [simp del] replace_ip.simps(2) [simp del]

lemma re_word_ip [simp]: "re_word (CHR ''i'')" "re_word (CHR ''p'')"
  by (simp_all add: re_word_def)

lemma boundary_simps [simp]: "boundary None" "boundary (Some c) \<longleftrightarrow> \<not> re_word c"
  by (simp_all add: boundary_def)

lemma ip_rest_cases:
  obtains "ip_rest s = []" | c cs where "ip_rest s = c # cs" "re_space c"
proof (cases "ip_rest s")
  case (Cons c cs)
  then have "re_space c"
    unfolding ip_rest_def by (metis dropWhile_eq_Cons_conv)
  with Cons that(2) show ?thesis by blast
qed (use that in blast)

text \<open>What the rewriting puts after a token starts with white space or is empty.\<close>

lemma replace_ip_rest_cases:
  obtains "replace_ip new prev (ip_rest s) = []"
  | c cs where "replace_ip new prev (ip_rest s) = c # cs" "re_space c"
proof (cases rule: ip_rest_cases[of s])
  case (2 c cs)
  then have "c \<noteq> CHR ''i''" by (auto simp: re_space_def)
  with 2 have "replace_ip new prev (ip_rest s) = c # replace_ip new (Some c) cs" by simp
  with 2 that(2) show ?thesis by blast
qed (use that in simp)

text \<open>A token whose tail holds no white space.\<close>

definition ip_word :: "string \<Rightarrow> bool" where
  "ip_word new \<longleftrightarrow> HasPrefix new ''ip='' \<and> list_all (\<lambda>c. \<not> re_space c) (drop 3 new)"

lemma takeWhile_append_space:
  assumes "list_all (\<lambda>c. \<not> re_space c) t" and "r = [] \<or> (\<exists>c cs. r = c # cs \<and> re_space c)"
  shows "takeWhile (\<lambda>c. \<not> re_space c) (t @ r) = t" "dropWhile (\<lambda>c. \<not> re_space c) (t @ r) = r"
  using assms by (auto simp: list_all_iff takeWhile_append2 dropWhile_append2)

lemma ip_word_token:
  assumes "ip_word new" and "r = [] \<or> (\<exists>c cs. r = c # cs \<and> re_space c)"
  shows "HasPrefix (new @ r) ''ip=''" "ip_token (new @ r) = new" "ip_rest (new @ r) = r"
proof -
  obtain t where new: "new = ''ip='' @ t" and t: "list_all (\<lambda>c. \<not> re_space c) t"
    using assms(1) by (auto simp: ip_word_def HasPrefix_ip_iff)
  show "HasPrefix (new @ r) ''ip=''" by (simp add: new HasPrefix_ip_iff)
  show "ip_token (new @ r) = new" "ip_rest (new @ r) = r"
    using takeWhile_append_space[OF t assms(2)] by (simp_all add: new ip_token_def ip_rest_def)
qed

text \<open>Copying a character never creates a match.\<close>

lemma replace_ip_no_new_match:
  assumes "HasPrefix (c # replace_ip new (Some c) cs) ''ip=''"
  shows "HasPrefix (c # cs) ''ip=''"
proof -
  from assms have c: "c = CHR ''i''"
    and r: "\<exists>t. replace_ip new (Some (CHR ''i'')) cs = CHR ''p'' # CHR ''='' # t"
    by (auto simp: HasPrefix_ip_iff)
  from r obtain d ds where cs: "cs = d # ds" by (cases cs) auto
  with r have d: "d = CHR ''p''"
    and r2: "\<exists>t. replace_ip new (Some (CHR ''p'')) ds = CHR ''='' # t"
    by (auto simp: scan_copy)
  from r2 obtain e es where "ds = e # es" by (cases ds) auto
  with r2 c cs d show ?thesis by (auto simp: HasPrefix_ip_iff scan_copy)
qed

lemma replaced_rest_space:
  "replace_ip new prev (ip_rest s) = [] \<or>
   (\<exists>c cs. replace_ip new prev (ip_rest s) = c # cs \<and> re_space c)"
  by (rule replace_ip_rest_cases) auto

text \<open>After white space, or at the end, the previous character no longer matters.\<close>

lemma scan_prev_irrelevant:
  assumes "s = [] \<or> (\<exists>c cs. s = c # cs \<and> re_space c)"
  shows "find_ip p s = find_ip q s" "replace_ip new p s = replace_ip new q s"
  using assms by (auto simp: re_space_def)

text \<open>Scanning a replacement token and what follows it.\<close>

lemma scan_token:
  assumes "ip_word new" "boundary prev" "r = [] \<or> (\<exists>c cs. r = c # cs \<and> re_space c)"
  shows "find_ip prev (new @ r) = new # find_ip p r"
    and "replace_ip n2 prev (new @ r) = n2 @ replace_ip n2 p r"
  using scan_match[OF assms(2) ip_word_token(1)[OF assms(1,3)]] ip_word_token[OF assms(1,3)]
    scan_prev_irrelevant[OF assms(3)] by (metis, metis)

lemma scan_replace_ip:
  assumes "ip_word new"
  shows "find_ip prev (replace_ip new prev s) = map (\<lambda>_. new) (find_ip prev s)"
    and "replace_ip n2 prev (replace_ip new prev s) = replace_ip n2 prev s"
proof (induction prev s rule: find_ip.induct)
  case (2 prev c cs)
  let ?p = "Some (last (ip_token (c # cs)))"
  consider (match) "boundary prev" "HasPrefix (c # cs) ''ip=''"
    | (copy) "\<not> (boundary prev \<and> HasPrefix (c # cs) ''ip='')" by blast
  then have "find_ip prev (replace_ip new prev (c # cs)) = map (\<lambda>_. new) (find_ip prev (c # cs))
      \<and> replace_ip n2 prev (replace_ip new prev (c # cs)) = replace_ip n2 prev (c # cs)"
  proof cases
    case match
    note tok = scan_token[OF assms match(1) replaced_rest_space, where p = ?p]
    show ?thesis using match 2 by (simp add: scan_match tok)
  next
    case copy
    then have "\<not> (boundary prev \<and> HasPrefix (c # replace_ip new (Some c) cs) ''ip='')"
      using replace_ip_no_new_match by blast
    note eqs = scan_copy[OF this] scan_copy[OF copy]
    from copy 2 show ?thesis by (simp add: eqs)
  qed
  then show "find_ip prev (replace_ip new prev (c # cs)) = map (\<lambda>_. new) (find_ip prev (c # cs))"
    and "replace_ip n2 prev (replace_ip new prev (c # cs)) = replace_ip n2 prev (c # cs)" by auto
qed simp_all

lemma scan_append_token:
  assumes "find_ip prev s = []" and "ip_word new"
  shows "find_ip prev (s @ '' '' @ new) = [new] \<and> replace_ip n2 prev (s @ '' '' @ new) = s @ '' '' @ n2"
  using assms(1)
proof (induction prev s rule: find_ip.induct)
  case (1 prev)
  have "boundary (Some (CHR '' ''))" by (simp add: re_word_def)
  from scan_token[OF assms(2) this, where r = "[]" and p = None] show ?case by simp
next
  case (2 prev c cs)
  then have m: "\<not> (boundary prev \<and> HasPrefix (c # cs) ''ip='')"
    by (auto simp: scan_match)
  moreover have "HasPrefix (c # cs) ''ip=''" if "HasPrefix (c # cs @ '' '' @ new) ''ip=''"
    using that by (cases cs; cases "tl cs") (auto simp: HasPrefix_ip_iff)
  ultimately have no: "\<not> (boundary prev \<and> HasPrefix (c # cs @ '' '' @ new) ''ip='')" by blast
  note eqs = scan_copy[OF no] scan_copy[OF m]
  from 2(2)[OF m] 2(3) show ?case by (simp add: eqs eqs[simplified])
qed

lemma ip_word_ip_arg: "ip_word (ip_arg vmID)"
proof -
  have "\<not> re_space c" if "c \<in> set (fmt_d vmID)" for c
    using that show_dec_digits[of c]
    by (auto simp: fmt_d_def re_space_def is_digit_def split: if_splits)
  then show ?thesis
    by (auto simp: ip_word_def ip_arg_def list_all_iff HasPrefix_ip_iff) (auto simp: re_space_def)
qed

lemma ForVM_KernelArgs:
  "KernelArgs (ForVM c vmID) =
    (if find_ip None (KernelArgs c) \<noteq> [] then replace_ip (ip_arg vmID) None (KernelArgs c)
     else KernelArgs c @ '' '' @ ip_arg vmID)"
  by (simp add: ForVM_def Let_def)

lemma ForVM_names [simp]:
  "SocketPath (ForVM c vmID) = ''/tmp/firecracker-'' @ fmt_d vmID @ ''.sock''"
  "TapDeviceName (ForVM c vmID) = ''tap'' @ fmt_d vmID"
  "MacAddress (ForVM c vmID) = ''AA:FC:00:00:00:'' @ fmt_02X (vmID + 1)"
  "LogPath (ForVM c vmID) = ''vm-'' @ fmt_d vmID @ ''.log''"
  "FirecrackerBin (ForVM c vmID) = FirecrackerBin c"
  "KernelImagePath (ForVM c vmID) = KernelImagePath c"
  "RootFSPath (ForVM c vmID) = RootFSPath c"
  "VCPUs (ForVM c vmID) = VCPUs c"
  "MemSizeMiB (ForVM c vmID) = MemSizeMiB c"
  "RootFSSizeMiB (ForVM c vmID) = RootFSSizeMiB c"
  "LogLevel (ForVM c vmID) = LogLevel c"
  by (simp_all add: ForVM_def Let_def)

text \<open>The base names a per-VM image can be derived from.\<close>

definition iso_base :: "string \<Rightarrow> bool" where
  "iso_base p \<longleftrightarrow> 4 < length p \<and> HasSuffix p ''.iso''"

lemma ForVM_CloudInitISO:
  "CloudInitISO (ForVM c vmID) =
    (if iso_base (CloudInitISO c)
     then take (length (CloudInitISO c) - 4) (CloudInitISO c) @ ''-'' @ fmt_d vmID @ ''.iso''
     else CloudInitISO c)"
proof -
  have "length ''.iso'' = 4" by simp
  then have "iso_base p \<longleftrightarrow> p \<noteq> '''' \<and> 4 < length p \<and> drop (length p - 4) p = ''.iso''" for p
    unfolding iso_base_def HasSuffix_def by (metis less_imp_le list.size(3) not_less_zero)
  then show ?thesis by (auto simp: ForVM_def Let_def)
qed

section \<open>What a VM's configuration guarantees\<close>

lemma find_ip_ForVM:
  "find_ip None (KernelArgs (ForVM c vmID)) =
    replicate (max 1 (length (find_ip None (KernelArgs c)))) (ip_arg vmID)"
proof (cases "find_ip None (KernelArgs c) = []")
  case True
  then show ?thesis
    using scan_append_token[OF True ip_word_ip_arg] by (simp add: ForVM_KernelArgs)
next
  case False
  moreover from False have "max 1 (length (find_ip None (KernelArgs c))) = length (find_ip None (KernelArgs c))"
    by (cases "find_ip None (KernelArgs c)") auto
  ultimately show ?thesis
    by (simp add: ForVM_KernelArgs scan_replace_ip ip_word_ip_arg map_replicate_const)
qed

lemma ip_arg_inj: "ip_arg a = ip_arg b \<Longrightarrow> a = b"
proof -
  assume "ip_arg a = ip_arg b"
  then have eq: "fmt_d a @ ''.2::172.16.'' @ fmt_d a @ ''.1:255.255.255.252::eth0:off:8.8.8.8'' =
      fmt_d b @ ''.2::172.16.'' @ fmt_d b @ ''.1:255.255.255.252::eth0:off:8.8.8.8''"
    by (simp add: ip_arg_def)
  have "takeWhile (\<lambda>c. c \<noteq> CHR ''.'') (fmt_d i @ ''.2::172.16.'' @ t) = fmt_d i" for i t
  proof -
    have "c \<noteq> CHR ''.''" if "c \<in> set (fmt_d i)" for c
      using that show_dec_digits[of c] by (auto simp: fmt_d_def is_digit_def split: if_splits)
    then show ?thesis by (simp add: takeWhile_append2)
  qed
  with eq have "fmt_d a = fmt_d b" by metis
  then show "a = b" by (rule fmt_d_inj)
qed

text \<open>
  C16. VM isolation.  Two VMs with different identifiers, both at least 0, never share a Firecracker
  socket, a TAP device, a MAC address, a log file or a kernel command line, whatever configurations they
  are derived from.  When both are derived from one configuration, they have different cloud-init images
  if its image is a name ending in \<open>.iso\<close>, and share its image, as it is named, if not.
\<close>

theorem ForVM_isolates:
  assumes "0 \<le> a" "0 \<le> b" "a \<noteq> b"
  shows "SocketPath (ForVM c a) \<noteq> SocketPath (ForVM d b) \<and>
    TapDeviceName (ForVM c a) \<noteq> TapDeviceName (ForVM d b) \<and>
    MacAddress (ForVM c a) \<noteq> MacAddress (ForVM d b) \<and>
    LogPath (ForVM c a) \<noteq> LogPath (ForVM d b) \<and>
    KernelArgs (ForVM c a) \<noteq> KernelArgs (ForVM d b) \<and>
    (if iso_base (CloudInitISO c) then CloudInitISO (ForVM c a) \<noteq> CloudInitISO (ForVM c b)
     else CloudInitISO (ForVM c a) = CloudInitISO c \<and> CloudInitISO (ForVM c b) = CloudInitISO c)"
proof (intro conjI impI)
  show "KernelArgs (ForVM c a) \<noteq> KernelArgs (ForVM d b)"
  proof
    assume "KernelArgs (ForVM c a) = KernelArgs (ForVM d b)"
    then have "set (find_ip None (KernelArgs (ForVM c a))) = set (find_ip None (KernelArgs (ForVM d b)))"
      by simp
    then have "ip_arg a = ip_arg b" by (simp add: find_ip_ForVM)
    with ip_arg_inj assms show False by blast
  qed
qed (use assms fmt_d_inj in
  \<open>auto simp: decimal.name_eq_iff decimal.name_eq_iff_plain ForVM_CloudInitISO
     dest: hex_succ.fmt_inj\<close>)

theorem ForVM_isolates_witness:
  "SocketPath (ForVM DefaultConfig 0) \<noteq> SocketPath (ForVM DefaultConfig 1) \<and>
   KernelArgs (ForVM DefaultConfig 0) \<noteq> KernelArgs (ForVM DefaultConfig 1) \<and>
   CloudInitISO (ForVM (DefaultConfig\<lparr>CloudInitISO := ''seed.iso''\<rparr>) 3) \<noteq>
   CloudInitISO (ForVM (DefaultConfig\<lparr>CloudInitISO := ''seed.iso''\<rparr>) 4)"
  using ForVM_isolates[of 0 1 DefaultConfig DefaultConfig]
    ForVM_isolates[of 3 4 "DefaultConfig\<lparr>CloudInitISO := ''seed.iso''\<rparr>"]
  by (simp add: iso_base_def HasSuffix_def)

text \<open>
  The kernel command line of a VM.  Scanned with the program's own regular expression, the
  rewritten command line holds the VM's own static \<open>ip=\<close> argument and no other: one copy where
  the base line had none, and one for each \<open>ip=\<close> argument the base line had.
\<close>

theorem ForVM_kernel_ip:
  "find_ip None (KernelArgs (ForVM c vmID)) =
    replicate (max 1 (length (find_ip None (KernelArgs c)))) (ip_arg vmID)"
  by (rule find_ip_ForVM)

text \<open>
  A configuration can be re-targeted.  Deriving the configuration of VM \<open>j\<close> from that of VM
  \<open>i\<close> gives, in everything but the cloud-init image, exactly what deriving it from the base
  configuration gives; the image too when the base image is not an \<open>.iso\<close> file.
\<close>

theorem ForVM_retarget:
  "(ForVM (ForVM c i) j)\<lparr>CloudInitISO := p\<rparr> = (ForVM c j)\<lparr>CloudInitISO := p\<rparr> \<and>
   (iso_base (CloudInitISO c) \<or> ForVM (ForVM c i) j = ForVM c j)"
proof -
  have args: "KernelArgs (ForVM (ForVM c i) j) = KernelArgs (ForVM c j)"
  proof (cases "find_ip None (KernelArgs c) = []")
    case True
    then show ?thesis
      using scan_append_token[OF True ip_word_ip_arg] by (simp add: ForVM_KernelArgs)
  next
    case False
    then show ?thesis
      by (simp add: ForVM_KernelArgs scan_replace_ip ip_word_ip_arg)
  qed
  have "CloudInitISO (ForVM (ForVM c i) j) = CloudInitISO (ForVM c j)"
    if "\<not> iso_base (CloudInitISO c)"
    using that by (simp add: ForVM_CloudInitISO)
  then show ?thesis
    using args by (auto intro!: config.equality)
qed

lemma length_show_base: "2 \<le> b \<Longrightarrow> length (show_base b n) \<le> k \<longleftrightarrow> 0 < k \<and> n < b ^ k"
proof (induction b n arbitrary: k rule: show_base.induct)
  case (1 b n)
  show ?case
  proof (cases "n < b")
    case True
    moreover have "b \<le> b ^ k" if "0 < k" using that 1(2) by (simp add: self_le_power)
    ultimately show ?thesis using 1(2)
      by (subst show_base.simps) (auto simp: Suc_le_eq)
  next
    case False
    have "length (show_base b (n div b)) \<le> m \<longleftrightarrow> 0 < m \<and> n div b < b ^ m" for m
      using 1 False by simp
    moreover have "n div b < b ^ m \<longleftrightarrow> n < b ^ Suc m" for m
      using 1(2) by (simp add: div_less_iff_less_mult mult.commute)
    ultimately show ?thesis
      using False 1(2) by (subst show_base.simps, cases k) (auto intro: gr0I)
  qed
qed

text \<open>
  The range of well-formed MAC addresses.  The generated MAC address has the six two-digit
  groups of an Ethernet address exactly for the identifiers up to 254; nothing in the program
  stops an identifier from going beyond.
\<close>

theorem ForVM_mac_length:
  assumes "0 \<le> vmID"
  shows "length (MacAddress (ForVM c vmID)) = 17 \<longleftrightarrow> vmID \<le> 254"
proof -
  have "length (show_base 16 (nat (vmID + 1))) \<le> 2 \<longleftrightarrow> vmID \<le> 254"
    using assms by (auto simp: length_show_base)
  with assms show ?thesis
    by (auto simp: fmt_02X_def pad_zero_def)
qed

theorem ForVM_mac_length_witness:
  "length (MacAddress (ForVM DefaultConfig 254)) = 17 \<and>
   length (MacAddress (ForVM DefaultConfig 255)) \<noteq> 17"
  using ForVM_mac_length[of 254 DefaultConfig] ForVM_mac_length[of 255 DefaultConfig] by simp

text \<open>
  Validation.  A configuration is accepted exactly when a Firecracker binary is found
  (the configured path, else \<open>FIRECRACKER_BIN\<close>, else the search path), kernel and root image
  are given and CPU count and memory are positive; the accepted configuration differs from the
  given one in the resolved binary only.
\<close>

theorem Validate_accepts_iff:
  "Validate getenv lookPath c = Inr d \<longleftrightarrow>
    d = c\<lparr>FirecrackerBin := FirecrackerBin d\<rparr> \<and>
    FirecrackerBin d \<in> (if FirecrackerBin c \<noteq> '''' then {FirecrackerBin c}
      else if getenv ''FIRECRACKER_BIN'' \<noteq> '''' then {getenv ''FIRECRACKER_BIN''}
      else set_option (lookPath ''firecracker'')) \<and>
    KernelImagePath c \<noteq> '''' \<and> RootFSPath c \<noteq> '''' \<and> 1 \<le> VCPUs c \<and> 1 \<le> MemSizeMiB c"
  by (cases c, cases d)
     (auto simp: Validate_def resolveBinary_def Let_def split: option.splits if_splits)

end
