(* ===== verification/VMLaunch.thy ===== *)
theory VMLaunch
  imports Resources VMConfig
begin

text \<open>
  The vocabulary in which the three launchers of the program (\<open>launchFleet\<close> in \<open>src/api/fleet.go\<close>,
  \<open>launchFleet\<close> in \<open>src/cmd/fleet.go\<close> and the VM goroutines of \<open>Run\<close> in
  \<open>src/scenario/runner.go\<close>) talk to the \<open>vm\<close> package: the five functions of \<open>LaunchDeps\<close>, the
  methods of the interface \<open>VM\<close> of \<open>src/vm/vm.go\<close>, \<open>os.Remove\<close> and the state of the context, which
  may be cancelled between any two calls.  A goroutine drives one machine, so the methods need no
  receiver.  \<open>DepFactory\<close> is a call of a \<open>Factory\<close>.
\<close>

datatype launch_call =
    DepEnsureTAP int
  | DepRemoveTAP int
  | DepEnsureISO string string string
  | DepPrepareRootFS string int int
  | DepWriteToRootFS string string string
  | DepFactory config
  | VMStart
  | VMWait
  | VMStop
  | OsRemove string
  | CtxErr

text \<open>
  A reply: an error or not, and the path \<open>PrepareRootFS\<close> returns.  For \<open>CtxErr\<close> an error means the
  context is cancelled.
\<close>

datatype launch_reply = Ok string | Err string

definition failed :: "launch_reply \<Rightarrow> bool" where
  "failed r = (case r of Ok _ \<Rightarrow> False | Err _ \<Rightarrow> True)"

lemma failed_simps [simp]: "\<not> failed (Ok x)" "failed (Err e)"
  by (simp_all add: failed_def)

type_synonym launch_env = "(launch_call, launch_reply) env"
type_synonym 'a launch_prog = "(launch_call, launch_reply, 'a) prog"

datatype launch_error = LaunchError int string string

text \<open>An error is sent on the channel unless the context is cancelled.\<close>

definition report :: "launch_env \<Rightarrow> int \<Rightarrow> string \<Rightarrow> launch_reply \<Rightarrow> launch_error option launch_prog" where
  "report d vmID what r =
    (case r of
       Ok _ \<Rightarrow> State_Monad.return None
     | Err err \<Rightarrow>
        State_Monad.bind (perform d CtxErr) (\<lambda>c.
          State_Monad.return (if failed c then None else Some (LaunchError vmID what err))))"

lemma extends_report [intro]: "extends (report d vmID what r)"
  unfolding report_def by (cases r) auto

lemma plays_report: "plays d (report d vmID what r)"
  unfolding report_def by (cases r) (auto intro!: plays_intros)


section \<open>Releases\<close>

text \<open>
  The release a successful acquisition owes.  The API server also gives back TAP devices; the
  other two launchers leave them to the next launch, which replaces them.
\<close>

fun cleanup_vm :: "launch_call \<Rightarrow> launch_reply \<Rightarrow> launch_call option" where
  "cleanup_vm (DepPrepareRootFS _ _ _) (Ok path) = Some (OsRemove path)"
| "cleanup_vm (DepFactory _) (Ok _) = Some VMStop"
| "cleanup_vm _ _ = None"

fun cleanup :: "launch_call \<Rightarrow> launch_reply \<Rightarrow> launch_call option" where
  "cleanup (DepEnsureTAP vmID) (Ok _) = Some (DepRemoveTAP vmID)"
| "cleanup c r = cleanup_vm c r"

definition is_release :: "launch_call \<Rightarrow> bool" where
  "is_release c = (case c of DepRemoveTAP _ \<Rightarrow> True | OsRemove _ \<Rightarrow> True | VMStop \<Rightarrow> True | _ \<Rightarrow> False)"

lemma is_release_simps [simp]:
  "is_release (DepRemoveTAP v)" "is_release (OsRemove p)" "is_release VMStop"
  "\<not> is_release (DepEnsureTAP v)" "\<not> is_release (DepEnsureISO a b h)"
  "\<not> is_release (DepPrepareRootFS a v n)" "\<not> is_release (DepWriteToRootFS a b m)"
  "\<not> is_release (DepFactory k)" "\<not> is_release VMStart" "\<not> is_release VMWait" "\<not> is_release CtxErr"
  by (simp_all add: is_release_def)

interpretation all_res: resources cleanup is_release
proof
  fix c r x assume "cleanup c r = Some x"
  then show "is_release x" by (cases c; cases r) auto
qed

interpretation vm_res: resources cleanup_vm is_release
proof
  fix c r x assume "cleanup_vm c r = Some x"
  then show "is_release x" by (cases c; cases r) auto
qed

text \<open>Both protocols agree on everything but TAP devices, so the shared steps are balanced in both.\<close>

locale launch_resources = resources clean is_release
  for clean :: "launch_call \<Rightarrow> launch_reply \<Rightarrow> launch_call option" +
  assumes clean_tap: "\<And>v r. clean (DepEnsureTAP v) r = None \<or>
      (\<exists>p. r = Ok p) \<and> clean (DepEnsureTAP v) r = Some (DepRemoveTAP v)"
    and clean_other: "(\<And>v. c \<noteq> DepEnsureTAP v) \<Longrightarrow> clean c r = cleanup_vm c r"
begin

lemma balanced_plain:
  assumes "c = CtxErr \<or> c = VMStart \<or> c = VMWait \<or> (\<exists>a b h. c = DepEnsureISO a b h) \<or>
    (\<exists>a b m. c = DepWriteToRootFS a b m)"
  shows "balanced clean is_release (perform d c)"
  using assms clean_other[of c] by (intro balanced_perform) auto

lemma balanced_report: "balanced clean is_release (report d vmID what r)"
  unfolding report_def
  by (cases r) (auto intro!: balanced_return balanced_bind balanced_plain)

text \<open>Create a machine, use it, stop it.\<close>

lemma balanced_factory:
  assumes "\<And>r. failed r \<Longrightarrow> balanced clean is_release (onerr r)" and "balanced clean is_release use"
  shows "balanced clean is_release (State_Monad.bind (perform d (DepFactory cfg)) (\<lambda>r.
    if failed r then onerr r else with_defer d VMStop use))"
proof (rule balanced_acquire)
  fix r assume "clean (DepFactory cfg) r = None"
  then have "failed r" using clean_other[of "DepFactory cfg" r] by (cases r) auto
  then show "balanced clean is_release (if failed r then onerr r else with_defer d VMStop use)"
    using assms(1) by simp
next
  fix r x assume "clean (DepFactory cfg) r = Some x"
  then have "\<not> failed r" "x = VMStop" using clean_other[of "DepFactory cfg" r] by (cases r; auto)+
  then show "\<exists>p. balanced clean is_release p \<and>
      (if failed r then onerr r else with_defer d VMStop use) = with_defer d x p"
    using assms(2) by auto
qed simp

text \<open>Prepare a private root image, use it, remove it.\<close>

lemma balanced_rootfs:
  assumes "\<And>r. failed r \<Longrightarrow> balanced clean is_release (onerr r)"
    and "\<And>p. balanced clean is_release (use p)"
  shows "balanced clean is_release (State_Monad.bind (perform d (DepPrepareRootFS b v n)) (\<lambda>r.
    case r of Err _ \<Rightarrow> onerr r | Ok path \<Rightarrow> with_defer d (OsRemove path) (use path)))"
proof (rule balanced_acquire)
  fix r assume "clean (DepPrepareRootFS b v n) r = None"
  then obtain x where "r = Err x" using clean_other[of "DepPrepareRootFS b v n" r] by (cases r) auto
  then show "balanced clean is_release
      (case r of Err _ \<Rightarrow> onerr r | Ok path \<Rightarrow> with_defer d (OsRemove path) (use path))"
    using assms(1) by simp
next
  fix r x assume "clean (DepPrepareRootFS b v n) r = Some x"
  then obtain p where "r = Ok p" "x = OsRemove p"
    using clean_other[of "DepPrepareRootFS b v n" r] by (cases r) auto
  then show "\<exists>q. balanced clean is_release q \<and>
      (case r of Err _ \<Rightarrow> onerr r | Ok path \<Rightarrow> with_defer d (OsRemove path) (use path)) = with_defer d x q"
    using assms(2) by auto
qed simp

lemmas balanced_intros =
  balanced_return balanced_bind balanced_if balanced_plain balanced_report balanced_factory
  balanced_rootfs

end

text \<open>Where TAP devices are given back: set one up, use it, remove it.\<close>

locale tap_resources = launch_resources clean
  for clean :: "launch_call \<Rightarrow> launch_reply \<Rightarrow> launch_call option" +
  assumes clean_tap_Ok: "clean (DepEnsureTAP v) (Ok p) = Some (DepRemoveTAP v)"
begin

lemma balanced_tap:
  assumes "\<And>r. failed r \<Longrightarrow> balanced clean is_release (onerr r)" and "balanced clean is_release use"
  shows "balanced clean is_release (State_Monad.bind (perform d (DepEnsureTAP v)) (\<lambda>r.
    if failed r then onerr r else with_defer d (DepRemoveTAP v) use))"
proof (rule balanced_acquire)
  fix r assume "clean (DepEnsureTAP v) r = None"
  then have "failed r" using clean_tap_Ok[of v] by (cases r) auto
  then show "balanced clean is_release (if failed r then onerr r else with_defer d (DepRemoveTAP v) use)"
    using assms(1) by simp
next
  fix r x assume "clean (DepEnsureTAP v) r = Some x"
  then have "\<not> failed r" "x = DepRemoveTAP v" using clean_tap[of v r] by auto
  then show "\<exists>p. balanced clean is_release p \<and>
      (if failed r then onerr r else with_defer d (DepRemoveTAP v) use) = with_defer d x p"
    using assms(2) by auto
qed simp

end

interpretation all_launch: tap_resources cleanup
proof
  fix v r
  show "cleanup (DepEnsureTAP v) r = None \<or>
      (\<exists>p. r = Ok p) \<and> cleanup (DepEnsureTAP v) r = Some (DepRemoveTAP v)"
    by (cases r) auto
next
  fix c r assume "\<And>v. c \<noteq> DepEnsureTAP v"
  then show "cleanup c r = cleanup_vm c r" by (cases c) auto
qed simp

interpretation vm_launch: launch_resources cleanup_vm
  by unfold_locales auto

end
