(* ===== verification/Host.thy ===== *)
theory Host
  imports Resources VMConfig "HOL-Library.Sublist"
begin

text \<open>
  The host the \<open>vm\<close> package works on: the commands it runs, the files it opens and removes, and
  the calls it makes on the Firecracker SDK.  Nothing is assumed about the answers; a program is
  run in any environment.

  The ledgers \<open>held\<close>, \<open>remains\<close> and \<open>refused\<close> read off a trace what the program may have left on the
  host: files and copies of the root image, TAP devices, open files, machines, and the settings of
  the network.  They err on the side of counting: a command that fails may have done a part of its
  work, and a removal that fails has removed nothing.
\<close>

text \<open>The parts of the Firecracker configuration \<open>New\<close> fills in.\<close>

record fc_drive =
  drive_ID :: string
  drive_PathOnHost :: string
  drive_IsReadOnly :: bool
  drive_IsRootDevice :: bool

record fc_interface =
  if_MacAddress :: string
  if_HostDevName :: string

record fc_config =
  fc_SocketPath :: string
  fc_KernelImagePath :: string
  fc_KernelArgs :: string
  fc_Drives :: "fc_drive list"
  fc_LogLevel :: string
  fc_VcpuCount :: int
  fc_MemSizeMib :: int
  fc_Smt :: bool
  fc_NetworkInterfaces :: "fc_interface list"

text \<open>
  The process the SDK starts: its standard streams are the terminal or a log file.  A machine is
  made from a configuration, that process and the level of the logger.
\<close>

datatype stdio = Terminal | LogTo string

record vm_command =
  cmd_Bin :: string
  cmd_SocketPath :: string
  cmd_Stdio :: stdio

datatype host_call =
    Exec "string list"
  | CreateTemp string
  | CreateFile string
  | WriteTo string string
  | CloseFile string
  | RemoveFile string
  | StatFile string
  | NewMachine fc_config vm_command string
  | StartVMM
  | WaitVMM
  | StopVMM
  | ContextErr

text \<open>Success with the output or the name of the file made; an error with its text and the output.\<close>

datatype host_reply = HOk string | HErr string string

type_synonym host_env = "(host_call, host_reply) env"
type_synonym 'a host_prog = "(host_call, host_reply, 'a) prog"

text \<open>
  What a program may leave on the host: files, TAP devices, open files, machines, and the two
  settings of the network a TAP device is set up with.
\<close>

datatype resource =
  HostFile string | TapDevice string | Handle string | VMM | IpForward | NatRule

text \<open>
  What a command may make, whatever it answers: a copy or a script that fails half-way leaves a
  part of its target behind.
\<close>

definition made_by_command :: "string list \<Rightarrow> resource set" where
  "made_by_command args =
    (if length args = 4 \<and> args ! 0 = ''cp'' then {HostFile (args ! 3)}
     else if length args = 3 \<and> args ! 0 = ''cp'' then {HostFile (args ! 2)}
     else if length args = 5 \<and> take 2 args = [''bash'', ''make-cloud-init-iso.sh''] then {HostFile (args ! 2)}
     else if length args = 6 \<and> take 3 args = [''ip'', ''tuntap'', ''add''] then {TapDevice (args ! 3)}
     else if length args = 3 \<and> args ! 0 = ''sh'' then {IpForward}
     else if length args = 8 \<and> args ! 0 = ''iptables'' \<and> args ! 4 = ''-A'' then {NatRule}
     else {})"

text \<open>
  The other calls make something only if they succeed: a temporary or log file and its handle, a
  machine and the socket it listens on.
\<close>

fun held_by :: "host_call \<Rightarrow> host_reply \<Rightarrow> resource set" where
  "held_by (Exec args) r = made_by_command args"
| "held_by (CreateTemp pat) (HOk name) = {HostFile name, Handle name}"
| "held_by (CreateFile p) (HOk u) = {HostFile p, Handle p}"
| "held_by (NewMachine k cmd lvl) (HOk u) = {VMM, HostFile (fc_SocketPath k)}"
| "held_by _ _ = {}"

fun released_by :: "host_call \<Rightarrow> resource set" where
  "released_by (Exec args) =
    (if length args = 4 \<and> take 3 args = [''ip'', ''link'', ''del''] then {TapDevice (args ! 3)} else {})"
| "released_by (CloseFile p) = {Handle p}"
| "released_by (RemoveFile p) = {HostFile p}"
| "released_by StopVMM = {VMM}"
| "released_by _ = {}"

text \<open>
  Three readings of a trace.  \<open>held\<close>: what may have been made and has not been asked to go away.
  \<open>remains\<close>: what may be on the host, where a request that is answered by an error removes nothing.
  \<open>refused\<close>: what was last asked to go away by a request that was answered by an error.
\<close>

definition held_step :: "host_call \<times> host_reply \<Rightarrow> resource set \<Rightarrow> resource set" where
  "held_step ev S = (case ev of (c, r) \<Rightarrow> (S - released_by c) \<union> held_by c r)"

definition held :: "(host_call, host_reply) trace \<Rightarrow> resource set" where
  "held tr = fold held_step tr {}"

definition remains_step :: "host_call \<times> host_reply \<Rightarrow> resource set \<Rightarrow> resource set" where
  "remains_step ev S =
    (case ev of
       (c, HOk u) \<Rightarrow> (S - released_by c) \<union> held_by c (HOk u)
     | (c, HErr err out) \<Rightarrow> S \<union> held_by c (HErr err out))"

definition remains :: "(host_call, host_reply) trace \<Rightarrow> resource set" where
  "remains tr = fold remains_step tr {}"

definition refused_step :: "host_call \<times> host_reply \<Rightarrow> resource set \<Rightarrow> resource set" where
  "refused_step ev S =
    (case ev of
       (c, HOk u) \<Rightarrow> S - released_by c
     | (c, HErr err out) \<Rightarrow> S \<union> released_by c)"

definition refused :: "(host_call, host_reply) trace \<Rightarrow> resource set" where
  "refused tr = fold refused_step tr {}"

lemma held_Nil [simp]: "held [] = {}"
  by (simp add: held_def)

lemma held_append [simp]: "held (tr @ evs) = fold held_step evs (held tr)"
  by (simp add: held_def)

lemma held_step_simps [simp]:
  "held_step (Exec args, r) S = (S - released_by (Exec args)) \<union> made_by_command args"
  "held_step (CreateTemp pat, HOk name) S = S \<union> {HostFile name, Handle name}"
  "held_step (CreateTemp pat, HErr x y) S = S"
  "held_step (CreateFile p, HOk u) S = S \<union> {HostFile p, Handle p}"
  "held_step (CreateFile p, HErr x y) S = S"
  "held_step (NewMachine k cmd lvl, HOk u) S = S \<union> {VMM, HostFile (fc_SocketPath k)}"
  "held_step (NewMachine k cmd lvl, HErr x y) S = S"
  "held_step (CloseFile p, r) S = S - {Handle p}"
  "held_step (RemoveFile p, r) S = S - {HostFile p}"
  "held_step (StopVMM, r) S = S - {VMM}"
  "held_step (WriteTo p s, r) S = S" "held_step (StatFile p, r) S = S"
  "held_step (StartVMM, r) S = S" "held_step (WaitVMM, r) S = S" "held_step (ContextErr, r) S = S"
  by (auto simp: held_step_def)

text \<open>What stays on the host was not asked to go away, or refused to.\<close>

lemma remains_bounds: "held tr \<subseteq> remains tr" "remains tr \<subseteq> held tr \<union> refused tr"
proof (induction tr rule: rev_induct)
  case (snoc ev tr)
  obtain c r where ev: "ev = (c, r)" by fastforce
  {
    case 1
    from snoc.IH(1) show ?case unfolding ev
      by (cases r) (auto simp: held_def remains_def held_step_def remains_step_def)
  next
    case 2
    from snoc.IH(2) show ?case unfolding ev
      by (cases r) (auto simp: held_def remains_def refused_def held_step_def remains_step_def refused_step_def)
  }
qed (simp_all add: held_def remains_def refused_def)

end
