(* ===== verification/RunLoop.thy ===== *)
theory RunLoop
  imports RunOutput VMLaunch Host "HOL-Library.Multiset"
begin

text \<open>
  \<open>Run\<close> of \<open>src/scenario/runner.go\<close>: the preparation of a run, the goroutine of each VM, the schedule
  of the faults and the loop that polls the objectives until they are met or the context is
  cancelled.

  The concurrent part is a step relation.  Its state holds the runner, the fault goroutines still
  waiting, the injections made, the HTTP traffic so far, and whether the polling goroutine has
  closed \<open>done\<close>; its events carry the time at which they happen.  The goroutines share the
  runner's fields only under its mutex, and the HTTP environment may answer each request by
  anything, so it is enough to let every injection and every poll run as one step.

  Shown: a run reports completion only after a poll that found all objectives met; every
  untriggered fault is injected at most once and never before its time, and triggered faults never
  are; a finished or cancelled run can always end, its result is final, and the score printed on
  completion is the live score of that moment.
\<close>

section \<open>Before the machines start\<close>

definition run_config :: "RunOptions \<Rightarrow> config" where
  "run_config opts =
    (let cfg = DefaultConfig\<lparr>KernelImagePath := opt_KernelPath opts, RootFSPath := opt_RootFSPath opts,
                              CloudInitISO := opt_CloudInitISO opts\<rparr>
     in if opt_FirecrackerBin opts \<noteq> '''' then cfg\<lparr>FirecrackerBin := opt_FirecrackerBin opts\<rparr> else cfg)"

definition iso_path :: "string \<Rightarrow> VMEntry \<Rightarrow> string" where
  "iso_path base e = take (length base - 4) base @ ''-'' @ fmt_d (vm_Index e) @ ''.iso''"

datatype prologue =
    DryRun string
  | ISOFailed string string
  | Panicked
  | Launching config string

fun make_isos :: "host_env \<Rightarrow> string \<Rightarrow> VMEntry list \<Rightarrow> (string \<times> string) option host_prog" where
  "make_isos d base [] = State_Monad.return None"
| "make_isos d base (e # es) =
    State_Monad.bind (perform d (Exec [''bash'', ''make-cloud-init-iso.sh'', iso_path base e,
        ''cloud-init-config.yaml'', vm_Name e])) (\<lambda>r.
      case r of
        HErr err out \<Rightarrow> State_Monad.return (Some (vm_Name e, err @ nl @ out))
      | HOk _ \<Rightarrow> make_isos d base es)"

text \<open>
  Stripping the last four bytes of the image's name panics when there are fewer.  The dry run only
  prints; \<open>Launching\<close> carries the base configuration and the message of the day.
\<close>

definition Run_prologue :: "host_env \<Rightarrow> (string \<Rightarrow> string) \<Rightarrow> Runner \<Rightarrow> prologue host_prog" where
  "Run_prologue d uni r =
    (if opt_DryRun (run_opts r) then State_Monad.return (DryRun (printSignals uni r))
     else
       let baseCfg = run_config (run_opts r) in
       if CloudInitISO baseCfg \<noteq> '''' then
         if length (CloudInitISO baseCfg) < 4 then State_Monad.return Panicked
         else State_Monad.bind (make_isos d (CloudInitISO baseCfg) (VMs (Plan r))) (\<lambda>err.
                State_Monad.return
                  (case err of
                     Some (name, err) \<Rightarrow> ISOFailed name err
                   | None \<Rightarrow> Launching baseCfg (buildMOTD uni r)))
       else State_Monad.return (Launching baseCfg (buildMOTD uni r)))"


section \<open>The goroutine of a VM\<close>

definition entry_config :: "config \<Rightarrow> VMEntry \<Rightarrow> config" where
  "entry_config baseCfg e =
    (let cfg = ForVM baseCfg (vm_Index e);
         cfg = (if 0 < vm_VCPUs e then cfg\<lparr>VCPUs := vm_VCPUs e\<rparr> else cfg)
     in if 0 < vm_MemMB e then cfg\<lparr>MemSizeMiB := vm_MemMB e\<rparr> else cfg)"

definition entry_disk :: "config \<Rightarrow> VMEntry \<Rightarrow> int" where
  "entry_disk baseCfg e = (if vm_DiskMB e = 0 then RootFSSizeMiB baseCfg else vm_DiskMB e)"

text \<open>An error sent on \<open>fleetErrs\<close>: the VM, the step and the cause.\<close>

datatype run_error = RunError string string string

definition send :: "VMEntry \<Rightarrow> string \<Rightarrow> launch_reply \<Rightarrow> run_error option launch_prog" where
  "send e what r =
    State_Monad.return (case r of Ok _ \<Rightarrow> None | Err err \<Rightarrow> Some (RunError (vm_Name e) what err))"

definition boot_entry :: "launch_env \<Rightarrow> VMEntry \<Rightarrow> config \<Rightarrow> run_error option launch_prog" where
  "boot_entry d e cfg =
    State_Monad.bind (perform d (DepFactory cfg)) (\<lambda>r.
      if failed r then send e ''create'' r
      else with_defer d VMStop
        (State_Monad.bind (perform d VMStart) (\<lambda>r.
          if failed r then send e ''start'' r
          else State_Monad.bind (perform d VMWait) (\<lambda>_. State_Monad.return None))))"

definition run_vm :: "launch_env \<Rightarrow> config \<Rightarrow> string \<Rightarrow> VMEntry \<Rightarrow> run_error option launch_prog" where
  "run_vm d baseCfg motd e =
    (let cfg = entry_config baseCfg e in
     State_Monad.bind (perform d (DepEnsureTAP (vm_Index e))) (\<lambda>r.
       if failed r then send e ''tap setup'' r
       else State_Monad.bind
         (perform d (DepPrepareRootFS (RootFSPath baseCfg) (vm_Index e) (entry_disk baseCfg e))) (\<lambda>r.
           case r of
             Err _ \<Rightarrow> send e ''prepare rootfs'' r
           | Ok rootFS \<Rightarrow>
               with_defer d (OsRemove rootFS)
                 (if motd \<noteq> '''' then
                    State_Monad.bind (perform d (DepWriteToRootFS rootFS ''/etc/motd'' motd))
                      (\<lambda>_. boot_entry d e (cfg\<lparr>RootFSPath := rootFS\<rparr>))
                  else boot_entry d e (cfg\<lparr>RootFSPath := rootFS\<rparr>)))))"


section \<open>The schedule\<close>

text \<open>Faults with triggers, and faults whose start time does not parse, are skipped.\<close>

fun schedule :: "Fault list \<Rightarrow> (Fault \<times> int) list" where
  "schedule [] = []"
| "schedule (f # fs) =
    (if 0 < length (fault_Triggers f) then schedule fs
     else case AtDuration f of
            None \<Rightarrow> schedule fs
          | Some atDur \<Rightarrow> (f, atDur) # schedule fs)"


section \<open>The run\<close>

record run_state_t =
  rs_runner :: Runner
  rs_pending :: "(Fault \<times> int) list"
  rs_injected :: "(Fault \<times> int) list"
  rs_active :: "string set"
  rs_http :: "(http_call, http_reply) trace"
  rs_polling :: bool
  rs_done :: bool
  rs_cancelled :: bool
  rs_result :: "(bool \<times> string) option"

text \<open>The moment \<open>startAt\<close> is set: the schedule is fixed and polling begins.\<close>

definition run_begin :: "Runner \<Rightarrow> int \<Rightarrow> run_state_t" where
  "run_begin r now =
    \<lparr>rs_runner = r\<lparr>startAt := Some now, score := (score r)\<lparr>score_Elapsed := 0\<rparr>\<rparr>,
     rs_pending = schedule (Faults (Scenario r)), rs_injected = [], rs_active = {}, rs_http = [],
     rs_polling = True, rs_done = False, rs_cancelled = False, rs_result = None\<rparr>"

datatype run_event =
    FaultDue Fault int int
  | FaultDropped Fault int
  | Tick int
  | PollStops
  | HintAsked
  | ScoreAsked int
  | CtxCancelled
  | Completed int
  | Aborted int

definition set_elapsed :: "int \<Rightarrow> Runner \<Rightarrow> Runner" where
  "set_elapsed now r = r\<lparr>score := (score r)\<lparr>score_Elapsed := Since now (startAt r)\<rparr>\<rparr>"

definition set_final :: "int \<Rightarrow> Runner \<Rightarrow> Runner" where
  "set_final now r =
    r\<lparr>score := (score r)\<lparr>score_Elapsed := Since now (startAt r), score_HintsUsed := hintsUsed r\<rparr>\<rparr>"

definition fire_fault :: "http_env \<Rightarrow> Fault \<Rightarrow> int \<Rightarrow> int \<Rightarrow> run_state_t \<Rightarrow> run_state_t" where
  "fire_fault e f atDur now s =
    (let (err, tr) = run_state (injectFault e (rs_runner s) f) (rs_http s) in
     s\<lparr>rs_pending := remove1 (f, atDur) (rs_pending s),
       rs_injected := rs_injected s @ [(f, now)],
       rs_active := (if err = None then insert (fault_ID f) (rs_active s) else rs_active s),
       rs_http := tr\<rparr>)"

definition poll :: "http_env \<Rightarrow> decoders \<Rightarrow> int \<Rightarrow> run_state_t \<Rightarrow> run_state_t" where
  "poll e d now s =
    (let r = set_elapsed now (rs_runner s);
         (ok, tr) = run_state (checkAllObjectives e d r) (rs_http s)
     in s\<lparr>rs_runner := r, rs_http := tr, rs_done := ok, rs_polling := \<not> ok\<rparr>)"

text \<open>A timer does not fire before its time; nothing else is known about the scheduler.\<close>

inductive run_step ::
  "http_env \<Rightarrow> decoders \<Rightarrow> run_state_t \<Rightarrow> run_event \<Rightarrow> run_state_t \<Rightarrow> bool" for e d where
  step_fault:
    "(f, atDur) \<in> set (rs_pending s) \<Longrightarrow> startAt (rs_runner s) = Some t0 \<Longrightarrow> t0 + atDur \<le> now \<Longrightarrow>
     run_step e d s (FaultDue f atDur now) (fire_fault e f atDur now s)"
| step_dropped:
    "(f, atDur) \<in> set (rs_pending s) \<Longrightarrow> rs_cancelled s \<Longrightarrow>
     run_step e d s (FaultDropped f atDur) (s\<lparr>rs_pending := remove1 (f, atDur) (rs_pending s)\<rparr>)"
| step_tick: "rs_polling s \<Longrightarrow> run_step e d s (Tick now) (poll e d now s)"
| step_poll_stops:
    "rs_polling s \<Longrightarrow> rs_cancelled s \<Longrightarrow> run_step e d s PollStops (s\<lparr>rs_polling := False\<rparr>)"
| step_hint:
    "run_step e d s HintAsked (s\<lparr>rs_runner := snd (RequestHintText (rs_runner s))\<rparr>)"
| step_score:
    "run_step e d s (ScoreAsked now) (s\<lparr>rs_runner := snd (CurrentScore now (rs_runner s))\<rparr>)"
| step_cancel: "run_step e d s CtxCancelled (s\<lparr>rs_cancelled := True\<rparr>)"
| step_completed:
    "rs_result s = None \<Longrightarrow> rs_done s \<Longrightarrow> r = set_final now (rs_runner s) \<Longrightarrow>
     run_step e d s (Completed now) (s\<lparr>rs_runner := r, rs_result := Some (True, printResult True r)\<rparr>)"
| step_aborted:
    "rs_result s = None \<Longrightarrow> rs_cancelled s \<Longrightarrow> r = set_elapsed now (rs_runner s) \<Longrightarrow>
     run_step e d s (Aborted now) (s\<lparr>rs_runner := r, rs_result := Some (False, printResult False r)\<rparr>)"

inductive_cases run_step_cases: "run_step e d s ev s'"
inductive_simps run_step_simps:
  "run_step e d s (FaultDue f a now) s'" "run_step e d s (Tick now) s'" "run_step e d s HintAsked s'"
  "run_step e d s CtxCancelled s'" "run_step e d s (Completed now) s'" "run_step e d s (Aborted now) s'"

lemmas run_step_defs = fire_fault_def poll_def set_elapsed_def set_final_def RequestHintText_def
  CurrentScore_def


section \<open>Preparation\<close>

text \<open>
  The images of a run.  For an image name that ends in \<open>.iso\<close>, the image generated for each
  VM of the plan is the one the VM's configuration attaches; and a run without a cloud-init
  image generates none.
\<close>

theorem run_isos_match:
  assumes "CloudInitISO base = stem @ ''.iso''" "stem \<noteq> ''''"
  shows "CloudInitISO (entry_config base e) = iso_path (CloudInitISO base) e"
  using assms by (simp add: entry_config_def iso_path_def ForVM_def Let_def)

section \<open>The goroutine gives its image and its machine back\<close>

lemma balanced_send: "balanced cleanup_vm is_release (send e what r)"
  unfolding send_def by (rule vm_res.balanced_return)

lemma balanced_boot_entry: "balanced cleanup_vm is_release (boot_entry d e cfg)"
  unfolding boot_entry_def by (auto intro!: vm_launch.balanced_intros balanced_send)

text \<open>
  The VMs of a run.  Whatever fails, the goroutine of a VM stops the machine it created and
  removes its copy of the root image, each exactly once and in reverse order; it never gives back
  the TAP device it set up.
\<close>

theorem run_vm_releases:
  "owed cleanup_vm is_release [] (snd (run_state (run_vm d base motd e) [])) = Some [] \<and>
   list_all (\<lambda>(c, r). case c of DepRemoveTAP v \<Rightarrow> False | _ \<Rightarrow> True) (snd (run_state (run_vm d base motd e) []))"
proof
  have tap: "balanced cleanup_vm is_release (perform d (DepEnsureTAP v))" for v
    by (rule vm_res.balanced_perform) simp_all
  have "balanced cleanup_vm is_release (run_vm d base motd e)"
    unfolding run_vm_def Let_def
    by (rule vm_res.balanced_bind[OF tap])
       (auto intro!: vm_launch.balanced_intros balanced_send balanced_boot_entry)
  then show "owed cleanup_vm is_release [] (snd (run_state (run_vm d base motd e) [])) = Some []"
    by (rule balanced_run)
  let ?Q = "\<lambda>(c, r). case c of DepRemoveTAP v \<Rightarrow> False | _ \<Rightarrow> True"
  have "emits ?Q (run_vm d base motd e)"
    unfolding run_vm_def boot_entry_def send_def Let_def
    by (auto intro!: emits_return emits_bind emits_perform emits_defer split: launch_reply.splits)
  then show "list_all ?Q (snd (run_state (run_vm d base motd e) []))"
    unfolding emits_def list_all_iff by fastforce
qed


section \<open>Facts about single steps\<close>

lemma extends_inject: "extends (injectFault e r f)"
proof -
  have "extends (inject_all e req es err)" for req es err
    by (induction es arbitrary: err) auto
  then show ?thesis by (auto simp: injectFault_def split: sum.splits)
qed

lemma extends_check_vm: "extends (check_vm e d check en)"
  unfolding check_vm_def fetchMetrics_def fetchServices_def by auto

lemma extends_checks: "extends (checkAllObjectives e d r)"
proof -
  have "extends (check_vms e d check es)" for check es
    by (induction es) (auto intro!: extends_bind extends_check_vm)
  then have "extends (checkObjective e d r obj)" for obj
    by (auto simp: checkObjective_def split: sum.splits)
  then have "extends (check_objectives e d r objs)" for objs
    by (induction objs) auto
  then show ?thesis by (simp add: checkAllObjectives_def)
qed

text \<open>Polling depends on the scenario and the plan only.\<close>

lemma check_all_cong:
  assumes "Scenario r = Scenario r'" "Plan r = Plan r'"
  shows "checkAllObjectives e d r = checkAllObjectives e d r'"
proof -
  have "checkObjective e d r obj = checkObjective e d r' obj" for obj
    using assms by (simp add: checkObjective_def cong: sum.case_cong)
  then have "check_objectives e d r objs = check_objectives e d r' objs" for objs
    using assms by (induction objs) (simp_all cong: if_cong)
  then show ?thesis using assms by (simp add: checkAllObjectives_def)
qed

text \<open>What every step keeps of the runner, and that the traffic only grows.\<close>

lemmas extends_runs = extends_inject[unfolded extends_def, rule_format]
  extends_checks[unfolded extends_def, rule_format]

lemma step_keeps:
  assumes "run_step e d s ev s'"
  shows "Scenario (rs_runner s') = Scenario (rs_runner s)" "Plan (rs_runner s') = Plan (rs_runner s)"
    "startAt (rs_runner s') = startAt (rs_runner s)" "prefix (rs_http s) (rs_http s')"
    "rs_result s \<noteq> None \<Longrightarrow> rs_result s' = rs_result s"
  using assms
  by (induction rule: run_step.induct)
     (auto simp: run_step_defs Let_def split_beta intro: extends_runs)

section \<open>Completion\<close>

text \<open>The objectives were found met by a poll that is part of the traffic.\<close>

definition was_met :: "http_env \<Rightarrow> decoders \<Rightarrow> Runner \<Rightarrow> (http_call, http_reply) trace \<Rightarrow> bool" where
  "was_met e d r tr \<longleftrightarrow> (\<exists>before after.
    run_state (checkAllObjectives e d r) before = (True, after) \<and> prefix after tr)"

definition run_inv :: "http_env \<Rightarrow> decoders \<Rightarrow> Runner \<Rightarrow> int \<Rightarrow> run_state_t \<Rightarrow> bool" where
  "run_inv e d r t0 s \<longleftrightarrow>
    Scenario (rs_runner s) = Scenario r \<and> Plan (rs_runner s) = Plan r \<and>
    startAt (rs_runner s) = Some t0 \<and>
    (rs_done s \<longrightarrow> was_met e d r (rs_http s) \<and> \<not> rs_polling s) \<and>
    (\<forall>txt. rs_result s = Some (True, txt) \<longrightarrow> rs_done s)"

lemma run_inv_begin: "run_inv e d r t0 (run_begin r t0)"
  by (simp add: run_inv_def run_begin_def)

lemma was_met_mono: "was_met e d r tr \<Longrightarrow> prefix tr tr' \<Longrightarrow> was_met e d r tr'"
  unfolding was_met_def by (meson prefix_order.trans)

lemma run_inv_poll:
  assumes inv: "run_inv e d r t0 s" and alive: "rs_polling s"
  shows "run_inv e d r t0 (poll e d now s)"
proof -
  let ?r = "set_elapsed now (rs_runner s)"
  obtain ok tr where run: "run_state (checkAllObjectives e d ?r) (rs_http s) = (ok, tr)" by fastforce
  have "checkAllObjectives e d ?r = checkAllObjectives e d r"
    using inv by (intro check_all_cong) (simp_all add: run_inv_def set_elapsed_def)
  with run have "was_met e d r tr" if ok
    using that unfolding was_met_def by (intro exI[of _ "rs_http s"] exI[of _ tr]) simp
  with inv alive run show ?thesis by (auto simp: run_inv_def poll_def set_elapsed_def Let_def)
qed

lemma run_inv_step: "run_inv e d r t0 s \<Longrightarrow> run_step e d s ev s' \<Longrightarrow> run_inv e d r t0 s'"
proof (erule run_step_cases)
  fix now assume "run_inv e d r t0 s" "s' = poll e d now s" "rs_polling s"
  then show ?thesis using run_inv_poll by simp
next
  fix f atDur ta now assume "run_inv e d r t0 s" "s' = fire_fault e f atDur now s"
  then show ?thesis
    by (auto simp: run_inv_def fire_fault_def split_beta Let_def intro: was_met_mono extends_runs)
qed (auto simp: run_inv_def run_step_defs Let_def)

interpretation completion: step_invariant "run_step e d" "run_inv e d r t0"
  by unfold_locales (rule run_inv_step)

text \<open>
  C10. Completion is earned.  In every run, under every interleaving of faults, polls, hints, score
  queries and cancellation: if the run reports that the scenario is complete, then some poll,
  made during the run, found every objective met.
\<close>

theorem run_completion_sound:
  assumes "steps (run_step e d) (run_begin r t0) evs s" "rs_result s = Some (True, txt)"
  shows "\<exists>before after. run_state (checkAllObjectives e d r) before = (True, after) \<and>
    prefix after (rs_http s)"
proof -
  have "run_inv e d r t0 s" by (rule completion.steps_inv[OF assms(1) run_inv_begin])
  with assms(2) show ?thesis by (auto simp: run_inv_def was_met_def)
qed

lemma result_final:
  "steps (run_step e d) s evs s' \<Longrightarrow> rs_result s \<noteq> None \<Longrightarrow> rs_result s' = rs_result s"
  by (induction rule: steps.induct) (use step_keeps(5) in fastforce)+

text \<open>
  Completion is reached.  Whenever the polling of an unfinished run is alive and the agents
  would answer that all objectives are met, the next tick and one further step end the run as
  complete, whatever happened before; the result printed is that of the runner with the live score
  of the moment, and no later step changes it.
\<close>

theorem run_completion_reached:
  assumes "steps (run_step e d) (run_begin r t0) evs s" "rs_result s = None" "rs_polling s"
    and "fst (run_state (checkAllObjectives e d r) (rs_http s))"
  shows "\<exists>s'. steps (run_step e d) s [Tick now, Completed now] s' \<and>
    rs_result s' = Some (True, printResult True (snd (CurrentScore now (rs_runner s)))) \<and>
    (\<forall>more s''. steps (run_step e d) s' more s'' \<longrightarrow> rs_result s'' = rs_result s')"
proof -
  let ?s1 = "poll e d now s"
  let ?r = "set_final now (rs_runner ?s1)"
  let ?s2 = "?s1\<lparr>rs_runner := ?r, rs_result := Some (True, printResult True ?r)\<rparr>"
  have inv: "run_inv e d r t0 s" by (rule completion.steps_inv[OF assms(1) run_inv_begin])
  then have "checkAllObjectives e d (set_elapsed now (rs_runner s)) = checkAllObjectives e d r"
    by (intro check_all_cong) (simp_all add: run_inv_def set_elapsed_def)
  with assms(2,4) have one: "rs_done ?s1" "rs_result ?s1 = None" "rs_runner ?s1 = set_elapsed now (rs_runner s)"
    by (simp_all add: poll_def Let_def split_beta)
  have "steps (run_step e d) s [Tick now, Completed now] ?s2"
    using step_tick[OF assms(3)] step_completed[OF one(2,1) refl] by blast
  moreover have "?r = snd (CurrentScore now (rs_runner s))"
    unfolding one(3) by (simp add: run_step_defs Let_def)
  moreover have "rs_result s'' = rs_result ?s2" if "steps (run_step e d) ?s2 more s''" for more s''
    by (rule result_final[OF that]) simp
  ultimately show ?thesis by (intro exI[of _ ?s2]) auto
qed

section \<open>Faults\<close>

lemma schedule_mem:
  "(f, atDur) \<in> set (schedule fs) \<longleftrightarrow> f \<in> set fs \<and> fault_Triggers f = [] \<and> AtDuration f = Some atDur"
  by (induction fs) (auto split: option.splits)

lemma subset_add_mset: "A \<subseteq># B \<Longrightarrow> A \<subseteq># add_mset a B"
  by (metis add_mset_add_single mset_subset_eq_add_left subset_mset.order_trans)

lemma schedule_mset: "mset (map fst (schedule fs)) \<subseteq># mset (filter (\<lambda>f. fault_Triggers f = []) fs)"
  by (induction fs) (auto split: option.splits intro: subset_add_mset)

text \<open>Every post of a fault belongs to an injection.\<close>

definition posts_for :: "(Fault \<times> int) list \<Rightarrow> (http_call, http_reply) trace \<Rightarrow> bool" where
  "posts_for injected tr \<longleftrightarrow>
    (\<forall>url req resp. (PostStart url req, resp) \<in> set tr \<longrightarrow> req \<in> fault_request ` fst ` set injected)"

lemma emits_inject:
  "emits (\<lambda>(c, r). case c of PostStart url req \<Rightarrow> req = fault_request f | _ \<Rightarrow> True) (injectFault e r f)"
proof -
  have "emits (\<lambda>(c, r). case c of PostStart url req' \<Rightarrow> req' = req | _ \<Rightarrow> True) (inject_all e req es err)"
    for req es err
    by (induction es arbitrary: err) (auto intro!: emits_return emits_bind emits_perform)
  then show ?thesis by (auto simp: injectFault_def intro!: emits_return split: sum.splits)
qed

lemma emits_checks: "emits (\<lambda>(c, r). case c of Get url \<Rightarrow> True | _ \<Rightarrow> False) (checkAllObjectives e d r)"
proof -
  let ?Q = "\<lambda>(c :: http_call, r :: http_reply). case c of Get url \<Rightarrow> True | _ \<Rightarrow> False"
  have "emits ?Q (check_vm e d check en)" for check en
    unfolding check_vm_def fetchMetrics_def fetchServices_def
    by (auto intro!: emits_return emits_bind emits_perform)
  then have "emits ?Q (check_vms e d check es)" for check es
    by (induction es) (auto intro!: emits_return emits_bind)
  then have "emits ?Q (checkObjective e d r obj)" for obj
    by (auto simp: checkObjective_def intro!: emits_return split: sum.splits)
  then have "emits ?Q (check_objectives e d r objs)" for objs
    by (induction objs) (auto intro!: emits_return emits_bind)
  then show ?thesis by (simp add: checkAllObjectives_def)
qed

definition claimed :: "run_state_t \<Rightarrow> Fault multiset" where
  "claimed s = mset (map fst (rs_injected s)) + mset (map fst (rs_pending s))"

definition faults_inv :: "Runner \<Rightarrow> int \<Rightarrow> run_state_t \<Rightarrow> bool" where
  "faults_inv r t0 s \<longleftrightarrow>
    startAt (rs_runner s) = Some t0 \<and> set (rs_pending s) \<subseteq> set (schedule (Faults (Scenario r))) \<and>
    claimed s \<subseteq># mset (map fst (schedule (Faults (Scenario r)))) \<and>
    list_all (\<lambda>(f, now). \<exists>atDur. AtDuration f = Some atDur \<and> t0 + atDur \<le> now) (rs_injected s) \<and>
    posts_for (rs_injected s) (rs_http s)"

lemma faults_inv_begin: "faults_inv r t0 (run_begin r t0)"
  by (simp add: faults_inv_def run_begin_def posts_for_def claimed_def)

lemma mset_remove1_fst:
  assumes "(f, a) \<in> set xs"
  shows "mset (map fst xs) = add_mset f (mset (map fst (remove1 (f, a) xs)))"
proof -
  have "mset xs = add_mset (f, a) (mset (remove1 (f, a) xs))" using assms by simp
  then show ?thesis by (metis fst_conv image_mset_add_mset mset_map)
qed

lemma faults_inv_fire:
  assumes inv: "faults_inv r t0 s" and p: "(f, atDur) \<in> set (rs_pending s)" and now: "t0 + atDur \<le> now"
  shows "faults_inv r t0 (fire_fault e f atDur now s)"
proof -
  obtain err tr where run: "run_state (injectFault e (rs_runner s) f) (rs_http s) = (err, tr)" by fastforce
  have "set tr \<subseteq> set (rs_http s) \<union> {(c, r). case c of PostStart url req \<Rightarrow> req = fault_request f | _ \<Rightarrow> True}"
    using emits_inject[of f e "rs_runner s"] run unfolding emits_def by (metis (mono_tags) Collect_cong snd_conv)
  then have posts: "posts_for (rs_injected s @ [(f, now)]) tr"
    using inv unfolding posts_for_def faults_inv_def by fastforce
  have "AtDuration f = Some atDur" using inv p schedule_mem by (auto simp: faults_inv_def)
  then have time: "list_all (\<lambda>(f, now). \<exists>a. AtDuration f = Some a \<and> t0 + a \<le> now) (rs_injected s @ [(f, now)])"
    using inv now by (simp add: faults_inv_def)
  have "claimed (fire_fault e f atDur now s) = claimed s"
    using mset_remove1_fst[OF p] run by (simp add: claimed_def fire_fault_def del: mset_map)
  then show ?thesis
    using inv posts time run set_remove1_subset[of "(f, atDur)" "rs_pending s"]
    by (auto simp: faults_inv_def fire_fault_def)
qed

lemma faults_inv_step: "faults_inv r t0 s \<Longrightarrow> run_step e d s ev s' \<Longrightarrow> faults_inv r t0 s'"
proof (erule run_step_cases)
  fix f atDur t now
  assume "faults_inv r t0 s" "s' = fire_fault e f atDur now s" "(f, atDur) \<in> set (rs_pending s)"
    "startAt (rs_runner s) = Some t" "t + atDur \<le> now"
  moreover from this have "t = t0" by (simp add: faults_inv_def)
  ultimately show ?thesis using faults_inv_fire by blast
next
  fix f atDur
  assume inv: "faults_inv r t0 s" and s': "s' = s\<lparr>rs_pending := remove1 (f, atDur) (rs_pending s)\<rparr>"
    and p: "(f, atDur) \<in> set (rs_pending s)"
  have "claimed s' \<subseteq># claimed s"
    using mset_remove1_fst[OF p] unfolding s' claimed_def by (simp del: mset_map mset_remove1)
  with inv s' set_remove1_subset[of "(f, atDur)" "rs_pending s"] show ?thesis
    by (auto simp: faults_inv_def intro: subset_mset.order_trans)
next
  fix now assume inv: "faults_inv r t0 s" and s': "s' = poll e d now s"
  have "set (snd (run_state (checkAllObjectives e d (set_elapsed now (rs_runner s))) (rs_http s))) \<subseteq>
      set (rs_http s) \<union> {(c, r). case c of Get url \<Rightarrow> True | _ \<Rightarrow> False}"
    using emits_checks unfolding emits_def by (metis (mono_tags) Collect_cong)
  then have "posts_for (rs_injected s)
      (snd (run_state (checkAllObjectives e d (set_elapsed now (rs_runner s))) (rs_http s)))"
    using inv unfolding posts_for_def faults_inv_def by fastforce
  with inv s' show ?thesis by (simp add: faults_inv_def claimed_def poll_def set_elapsed_def Let_def split_beta)
qed (auto simp: faults_inv_def claimed_def run_step_defs Let_def)

interpretation injections: step_invariant "run_step e d" "faults_inv r t0"
  by unfold_locales (rule faults_inv_step)

text \<open>
  C11. The faults of a run.  In every run, under every interleaving: the faults injected are, with
  multiplicity, among the scenario's faults without triggers, so none is injected twice and none
  with a trigger at all; each is injected no earlier than its start time; and no fault is posted
  to an agent but those injected.
\<close>

theorem run_injects_schedule:
  assumes "steps (run_step e d) (run_begin r t0) evs s"
  shows "mset (map fst (rs_injected s)) \<subseteq># mset (filter (\<lambda>f. fault_Triggers f = []) (Faults (Scenario r))) \<and>
    list_all (\<lambda>(f, now). \<exists>atDur. AtDuration f = Some atDur \<and> t0 + atDur \<le> now) (rs_injected s) \<and>
    posts_for (rs_injected s) (rs_http s)"
proof -
  have inv: "faults_inv r t0 s" by (rule injections.steps_inv[OF assms faults_inv_begin])
  then have "mset (map fst (rs_injected s)) \<subseteq># mset (map fst (schedule (Faults (Scenario r))))"
    unfolding faults_inv_def claimed_def by (meson mset_subset_eq_add_left subset_mset.order_trans)
  with inv schedule_mset show ?thesis
    by (auto simp: faults_inv_def intro: subset_mset.order_trans)
qed

section \<open>Concrete runs\<close>

theorem run_isos_match_witness:
  "CloudInitISO (entry_config (DefaultConfig\<lparr>CloudInitISO := ''ci.iso''\<rparr>) (vm_entry fmempty [] (Tier.make ''w'' 1 0 0 1 256 0 [] []) 0 0)) =
   ''ci-'' @ fmt_d 0 @ ''.iso''"
  using run_isos_match[of "DefaultConfig\<lparr>CloudInitISO := ''ci.iso''\<rparr>" "''ci''"
      "vm_entry fmempty [] (Tier.make ''w'' 1 0 0 1 256 0 [] []) 0 0"]
  by (simp add: iso_path_def vm_entry_def Tier.make_def)

text \<open>For another image name the generated images are not the ones attached.\<close>

lemma run_isos_mismatch:
  "CloudInitISO (entry_config (DefaultConfig\<lparr>CloudInitISO := ''seed.img''\<rparr>) e) \<noteq>
   iso_path ''seed.img'' e"
proof -
  have "CloudInitISO (entry_config (DefaultConfig\<lparr>CloudInitISO := ''seed.img''\<rparr>) e) = ''seed.img''"
    by (simp add: entry_config_def ForVM_def Let_def)
  moreover have "length (iso_path ''seed.img'' e) > 8"
    by (cases "fmt_d (vm_Index e)") (auto simp: iso_path_def fmt_d_def)
  ultimately show ?thesis by auto
qed

definition no_decoders :: decoders where
  "no_decoders = \<lparr>decodeMetrics = \<lambda>_. None, decodeServices = \<lambda>_. None\<rparr>"

text \<open>A scenario with one fault on tier \<open>web\<close> and one HTTP objective there.\<close>

definition web_objective :: Objective where
  "web_objective = sample_objective\<lparr>objective_Check :=
     (objective_Check sample_objective)\<lparr>check_Target := sample_target '''' ''web''\<rparr>\<rparr>"

definition early_fault :: Fault where
  "early_fault = sample_fault\<lparr>fault_At := ''''\<rparr>"

definition web_runner :: Runner where
  "web_runner = (sample_runner [5, 6, 7])\<lparr>Scenario :=
     sample_scenario\<lparr>Objectives := [web_objective], Faults := [early_fault]\<rparr>\<rparr>"

lemma web_checks: "fst (run_state (checkAllObjectives always_ok no_decoders web_runner) tr)"
  by (simp add: web_runner_def checkAllObjectives_def checkObjective_def web_objective_def
      sample_objective_def Plan_sample_runner ResolveTargets_def sample_target_def sample_ByTier
      check_vm_def run_state_bind run_state_return always_ok_def Let_def)

lemma web_begin: "rs_polling (run_begin web_runner t0)" "rs_result (run_begin web_runner t0) = None"
  by (simp_all add: run_begin_def)

theorem run_completion_reached_witness:
  "\<exists>s'. steps (run_step always_ok no_decoders) (run_begin web_runner 0) [Tick 9, Completed 9] s' \<and>
    rs_result s' = Some (True, printResult True (snd (CurrentScore 9 (rs_runner (run_begin web_runner 0)))))"
  using run_completion_reached[OF steps_Nil web_begin(2) web_begin(1) web_checks] by blast

theorem run_completion_sound_witness:
  "\<exists>s before after. steps (run_step always_ok no_decoders) (run_begin web_runner 0) [Tick 9, Completed 9] s \<and>
    run_state (checkAllObjectives always_ok no_decoders web_runner) before = (True, after) \<and>
    prefix after (rs_http s)"
proof -
  let ?p = "poll always_ok no_decoders 9 (run_begin web_runner 0)"
  let ?q = "set_final 9 (rs_runner ?p)"
  let ?t = "?p\<lparr>rs_runner := ?q, rs_result := Some (True, printResult True ?q)\<rparr>"
  have "checkAllObjectives always_ok no_decoders (set_elapsed 9 (rs_runner (run_begin web_runner 0))) =
      checkAllObjectives always_ok no_decoders web_runner"
    by (rule check_all_cong) (simp_all add: run_begin_def set_elapsed_def)
  then have "rs_done ?p" "rs_result ?p = None"
    using web_checks by (simp_all add: poll_def Let_def split_beta run_begin_def)
  then have st: "steps (run_step always_ok no_decoders) (run_begin web_runner 0) [Tick 9, Completed 9] ?t"
    using step_completed[OF _ _ refl] step_tick[OF web_begin(1)] by blast
  have "rs_result ?t = Some (True, printResult True ?q)" by simp
  from run_completion_sound[OF st this] st show ?thesis by blast
qed

theorem run_injects_schedule_witness:
  "\<exists>s. steps (run_step always_ok no_decoders) (run_begin web_runner 0) [FaultDue early_fault 0 7] s \<and>
    rs_injected s = [(early_fault, 7)] \<and> posts_for [(early_fault, 7)] (rs_http s)"
proof -
  let ?s = "run_begin web_runner 0" and ?e = always_ok and ?d = no_decoders
  let ?f = "fire_fault ?e early_fault 0 7 ?s"
  have "(early_fault, 0) \<in> set (rs_pending ?s)" "startAt (rs_runner ?s) = Some 0"
    by (simp_all add: run_begin_def web_runner_def early_fault_def sample_fault_def AtDuration_def)
  then have "run_step ?e ?d ?s (FaultDue early_fault 0 7) ?f" by (rule step_fault) simp
  then have st: "steps (run_step ?e ?d) ?s [FaultDue early_fault 0 7] ?f" by blast
  moreover have "rs_injected ?f = [(early_fault, 7)]"
    by (simp add: fire_fault_def split_beta run_begin_def)
  ultimately show ?thesis using run_injects_schedule[OF st] by (intro exI[of _ ?f]) simp
qed

text \<open>
  An aborted run forgets its hints.  When a run with the default rules is aborted after a hint
  and the score was not asked for meanwhile, the result printed counts the hint but not its price:
  the score printed is 100, the live score of the same moment is 90.
\<close>

theorem abort_forgets_hints:
  "\<exists>s. steps (run_step e d) (run_begin (sample_runner []) 0) [HintAsked, CtxCancelled, Aborted 0] s \<and>
    rs_result s = Some (False, printResult False (rs_runner s)) \<and>
    hintsUsed (rs_runner s) = 1 \<and> Current (score (rs_runner s)) = 100 \<and>
    fst (CurrentScore 0 (rs_runner s)) = 90"
proof -
  let ?r = "sample_runner []"
  let ?s0 = "run_begin ?r 0"
  let ?s1 = "?s0\<lparr>rs_runner := snd (RequestHintText (rs_runner ?s0))\<rparr>"
  let ?s2 = "?s1\<lparr>rs_cancelled := True\<rparr>"
  let ?q = "set_elapsed 0 (rs_runner ?s2)"
  let ?s3 = "?s2\<lparr>rs_runner := ?q, rs_result := Some (False, printResult False ?q)\<rparr>"
  have "Scoring sample_scenario = DefaultScoring" by (simp add: sample_scenario_def)
  then have h0: "hintsUsed ?r = 0" and sc: "score ?r = default_score 0 0"
    by (simp_all add: sample_runner_def NewRunner_def sample_opts_def sample_plan default_score_def)
  have runner: "hintsUsed ?q = 1" "score ?q = default_score 0 0" "startAt ?q = Some 0"
    using h0 sc by (simp_all add: run_begin_def set_elapsed_def RequestHintText_def Let_def wrap64_id
        Since_def default_score_def)
  have ok: "score_ok (default_score 0 0)" "score_ok (default_score 0 1)"
    by (rule score_ok_default; simp)+
  have "time_penalty 0 r = 0" for r
    by (simp add: time_penalty_def seconds_exact_def rnd_pos_def)
  then have cur: "Current (default_score 0 0) = 100" "Current (default_score 0 1) = 90"
    unfolding Current_eq[OF ok(1)] Current_eq[OF ok(2)]
    by (simp_all add: default_score_def DefaultScoring_def)
  have "(score ?q)\<lparr>score_Elapsed := 0, score_HintsUsed := 1\<rparr> = default_score 0 1"
    unfolding runner by (simp add: default_score_def)
  then have live: "fst (CurrentScore 0 ?q) = 90"
    using runner cur by (simp add: CurrentScore_def Let_def Since_def)
  have "run_step e d ?s0 HintAsked ?s1" by (rule step_hint)
  moreover have "run_step e d ?s1 CtxCancelled ?s2" by (rule step_cancel)
  moreover have "run_step e d ?s2 (Aborted 0) ?s3"
    by (rule step_aborted) (simp_all add: run_begin_def)
  ultimately have "steps (run_step e d) ?s0 [HintAsked, CtxCancelled, Aborted 0] ?s3" by blast
  with runner cur live show ?thesis by (intro exI[of _ ?s3]) simp
qed

end
