(* ===== verification/Provision.thy ===== *)
theory Provision
  imports Resources Runner
begin

text \<open>
  The SSH provisioning of \<open>src/scenario/runner.go\<close>: \<open>provisionAll\<close>, \<open>provisionVM\<close>,
  \<open>servicePackages\<close> and \<open>runSSH\<close>.  Dialing, sessions and remote commands are calls on an
  environment, as are the sleeps and the state of the context.

  Shown: a VM is dialed at most 15 times and always comes to an end; the commands run are a
  prefix of the plan (update, install, the tier's setup commands in order) and provisioning
  succeeds exactly when all of them ran and succeeded; every session and connection is closed;
  the package list is the list of all known packages without repetitions.
\<close>

datatype ssh_call =
    SSHDial string
  | SSHSession
  | SSHCommand string
  | SSHEndSession
  | SSHClose
  | SleepFor int
  | CtxDone

text \<open>For \<open>CtxDone\<close> an error means that the context is cancelled.\<close>

datatype ssh_reply = SOk | SErr string string

type_synonym ssh_env = "(ssh_call, ssh_reply) env"
type_synonym 'a ssh_prog = "(ssh_call, ssh_reply, 'a) prog"

datatype provision_error =
    ContextDone string
  | SSHConnect string
  | AptUpdate string
  | AptInstall string
  | SetupCommand string string

definition runSSH :: "ssh_env \<Rightarrow> string \<Rightarrow> string option ssh_prog" where
  "runSSH e cmd =
    State_Monad.bind (perform e SSHSession) (\<lambda>r.
      case r of
        SErr err _ \<Rightarrow> State_Monad.return (Some err)
      | SOk \<Rightarrow>
          with_defer e SSHEndSession
            (State_Monad.bind (perform e (SSHCommand cmd)) (\<lambda>r.
              State_Monad.return
                (case r of SOk \<Rightarrow> None | SErr err out \<Rightarrow> Some (err @ nl @ out)))))"


section \<open>Packages\<close>

definition package_of :: "string \<Rightarrow> string option" where
  "package_of svc =
    map_of [(''nginx'', ''nginx''), (''apache2'', ''apache2''), (''mysql'', ''mysql-server''),
      (''postgresql'', ''postgresql''), (''postgres'', ''postgresql''), (''redis'', ''redis-server''),
      (''redis-server'', ''redis-server''), (''app-server'', ''python3 python3-flask''),
      (''celery'', ''python3-celery''), (''stress-ng'', ''stress-ng'')] svc"

fun add_packages :: "string list \<Rightarrow> string set \<times> string list \<Rightarrow> string set \<times> string list" where
  "add_packages [] st = st"
| "add_packages (p # ps) (seen, pkgs) =
    add_packages ps (if p \<notin> seen then (insert p seen, pkgs @ [p]) else (seen, pkgs))"

fun add_services :: "string list \<Rightarrow> string set \<times> string list \<Rightarrow> string set \<times> string list" where
  "add_services [] st = st"
| "add_services (svc # svcs) st =
    add_services svcs
      (case package_of svc of None \<Rightarrow> st | Some pkg \<Rightarrow> add_packages (Fields pkg) st)"

definition servicePackages :: "string list \<Rightarrow> string list" where
  "servicePackages services = snd (add_services services ({}, []))"


section \<open>One VM\<close>

text \<open>
  \<open>Inl\<close> is the error of a cancelled context, \<open>Inr\<close> the outcome of the last dial.  The number is
  that of the attempts left.
\<close>

fun dial :: "ssh_env \<Rightarrow> string \<Rightarrow> nat \<Rightarrow> string option \<Rightarrow> (string + string option) ssh_prog" where
  "dial e addr 0 err = State_Monad.return (Inr err)"
| "dial e addr (Suc n) err =
    State_Monad.bind (perform e CtxDone) (\<lambda>c.
      case c of
        SErr why _ \<Rightarrow> State_Monad.return (Inl why)
      | SOk \<Rightarrow>
          State_Monad.bind (perform e (SSHDial addr)) (\<lambda>r.
            case r of
              SOk \<Rightarrow> State_Monad.return (Inr None)
            | SErr err _ \<Rightarrow>
                State_Monad.bind (perform e (SleepFor (2 * Second))) (\<lambda>_. dial e addr n (Some err))))"

fun run_setup :: "ssh_env \<Rightarrow> string list \<Rightarrow> provision_error option ssh_prog" where
  "run_setup e [] = State_Monad.return None"
| "run_setup e (cmd # cmds) =
    State_Monad.bind (runSSH e cmd) (\<lambda>err.
      case err of
        Some err \<Rightarrow> State_Monad.return (Some (SetupCommand cmd err))
      | None \<Rightarrow> run_setup e cmds)"

definition apt_update :: string where
  "apt_update = ''apt-get update -qq''"

definition apt_install :: "string list \<Rightarrow> string" where
  "apt_install pkgs =
    ''DEBIAN_FRONTEND=noninteractive apt-get install -y --no-install-recommends '' @ Join pkgs '' ''"

definition install_packages :: "ssh_env \<Rightarrow> string list \<Rightarrow> provision_error option ssh_prog" where
  "install_packages e pkgs =
    (if 0 < length pkgs then
       State_Monad.bind (runSSH e apt_update) (\<lambda>err.
         case err of
           Some err \<Rightarrow> State_Monad.return (Some (AptUpdate err))
         | None \<Rightarrow>
             State_Monad.bind (runSSH e (apt_install pkgs)) (\<lambda>err.
               State_Monad.return (map_option AptInstall err)))
     else State_Monad.return None)"

definition provisionVM ::
  "ssh_env \<Rightarrow> VMEntry \<Rightarrow> string list \<Rightarrow> string list \<Rightarrow> provision_error option ssh_prog" where
  "provisionVM e entry services setups =
    State_Monad.bind (dial e (''172.16.'' @ fmt_d (vm_Index entry) @ ''.2:22'') 15 None) (\<lambda>res.
      case res of
        Inl why \<Rightarrow> State_Monad.return (Some (ContextDone why))
      | Inr (Some err) \<Rightarrow> State_Monad.return (Some (SSHConnect err))
      | Inr None \<Rightarrow>
          with_defer e SSHClose
            (State_Monad.bind (install_packages e (servicePackages services)) (\<lambda>err.
              case err of
                Some err \<Rightarrow> State_Monad.return (Some err)
              | None \<Rightarrow> run_setup e setups)))"

text \<open>
  All VMs: each is provisioned in its own environment; the errors arrive in the order in which the
  goroutines end, and the last to arrive is returned with the VM's name.
\<close>

fun tier_work :: "Tier list \<Rightarrow> string \<Rightarrow> string list \<times> string list" where
  "tier_work [] name = ([], [])"
| "tier_work (tier # tiers) name =
    (if tier_Name tier = name then (tier_Services tier, tier_Setup tier) else tier_work tiers name)"

definition provision_entry :: "ssh_env \<Rightarrow> Runner \<Rightarrow> VMEntry \<Rightarrow> provision_error option" where
  "provision_entry e r entry =
    (case tier_work (env_Tiers (Environment (Scenario r))) (vm_Tier entry) of (services, setups) \<Rightarrow>
      result (provisionVM e entry services setups))"

definition provisionAll ::
  "(VMEntry \<Rightarrow> ssh_env) \<Rightarrow> Runner \<Rightarrow> VMEntry list \<Rightarrow> (string \<times> provision_error) option" where
  "provisionAll e r arrivals =
    fold (\<lambda>err lastErr. Some err)
      (List.map_filter (\<lambda>entry. map_option (Pair (vm_Name entry)) (provision_entry (e entry) r entry))
         arrivals) None"


section \<open>The package list\<close>

text \<open>Keep the first occurrence of every element.\<close>

definition first_occurrences :: "'a list \<Rightarrow> 'a list" where
  "first_occurrences xs = rev (remdups (rev xs))"

lemma first_occurrences_snoc:
  "first_occurrences (xs @ [x]) =
    (if x \<in> set xs then first_occurrences xs else first_occurrences xs @ [x])"
  by (simp add: first_occurrences_def)

lemma add_packages_first:
  "add_packages ps (set xs, first_occurrences xs) = (set (xs @ ps), first_occurrences (xs @ ps))"
proof (induction ps arbitrary: xs)
  case (Cons p ps)
  from Cons[of "xs @ [p]"] show ?case
    by (auto simp: first_occurrences_snoc insert_absorb)
qed simp

lemma add_services_first:
  "add_services svcs (set xs, first_occurrences xs) =
    (let ys = xs @ concat (map (\<lambda>s. case package_of s of None \<Rightarrow> [] | Some p \<Rightarrow> Fields p) svcs)
     in (set ys, first_occurrences ys))"
proof (induction svcs arbitrary: xs)
  case (Cons s svcs)
  show ?case
  proof (cases "package_of s")
    case None
    with Cons[of xs] show ?thesis by simp
  next
    case (Some p)
    with Cons[of "xs @ Fields p"] show ?thesis
      by (simp add: add_packages_first Let_def)
  qed
qed simp

text \<open>
  The packages.  The loop with its \<open>seen\<close> set computes the packages of all known services in
  the order of their first occurrence, each once; unknown services contribute nothing.
\<close>

theorem servicePackages_spec:
  "let wanted = concat (map (\<lambda>s. case package_of s of None \<Rightarrow> [] | Some p \<Rightarrow> Fields p) services) in
   servicePackages services = rev (remdups (rev wanted)) \<and>
   distinct (servicePackages services) \<and> set (servicePackages services) = set wanted"
  using add_services_first[of services "[]"]
  by (simp add: servicePackages_def first_occurrences_def Let_def)


section \<open>Sessions and connections are closed\<close>

fun ssh_owes :: "ssh_call \<Rightarrow> ssh_reply \<Rightarrow> ssh_call option" where
  "ssh_owes (SSHDial _) SOk = Some SSHClose"
| "ssh_owes SSHSession SOk = Some SSHEndSession"
| "ssh_owes _ _ = None"

definition ssh_release :: "ssh_call \<Rightarrow> bool" where
  "ssh_release c \<longleftrightarrow> c = SSHClose \<or> c = SSHEndSession"

lemma ssh_release_simps [simp]:
  "ssh_release SSHClose" "ssh_release SSHEndSession" "\<not> ssh_release (SSHDial a)"
  "\<not> ssh_release SSHSession" "\<not> ssh_release (SSHCommand a)" "\<not> ssh_release (SleepFor n)"
  "\<not> ssh_release CtxDone"
  by (simp_all add: ssh_release_def)

interpretation ssh_res: resources ssh_owes ssh_release
proof
  fix c r x assume "ssh_owes c r = Some x"
  then show "ssh_release x" by (cases c; cases r) (auto simp: ssh_release_def)
qed

lemma balanced_runSSH: "balanced ssh_owes ssh_release (runSSH e cmd)"
  unfolding runSSH_def
proof (rule ssh_res.balanced_acquire)
  have "balanced ssh_owes ssh_release (State_Monad.bind (perform e (SSHCommand cmd)) (\<lambda>r.
      State_Monad.return (case r of SOk \<Rightarrow> None | SErr err out \<Rightarrow> Some (err @ nl @ out))))"
    by (intro ssh_res.balanced_bind ssh_res.balanced_perform ssh_res.balanced_return)
       (auto simp: ssh_release_def)
  then show "\<exists>p. balanced ssh_owes ssh_release p \<and> (case r of SErr err _ \<Rightarrow> State_Monad.return (Some err)
      | SOk \<Rightarrow> with_defer e SSHEndSession (State_Monad.bind (perform e (SSHCommand cmd)) (\<lambda>r.
          State_Monad.return (case r of SOk \<Rightarrow> None | SErr err out \<Rightarrow> Some (err @ nl @ out))))) =
        with_defer e x p" if "ssh_owes SSHSession r = Some x" for r x
    using that by (cases r) auto
qed (auto simp: ssh_release_def ssh_res.balanced_return split: ssh_reply.splits)

lemma balanced_setup: "balanced ssh_owes ssh_release (run_setup e cmds)"
  by (induction cmds)
     (auto intro!: ssh_res.balanced_bind ssh_res.balanced_return balanced_runSSH split: option.splits)

lemma balanced_install: "balanced ssh_owes ssh_release (install_packages e pkgs)"
  unfolding install_packages_def
  by (auto intro!: ssh_res.balanced_bind ssh_res.balanced_return balanced_runSSH split: option.splits)

text \<open>The dial loop ends with a connection exactly when it owes a close.\<close>

lemma dial_owed:
  assumes "owed ssh_owes ssh_release [] tr = Some []"
  shows "owed ssh_owes ssh_release [] (snd (run_state (dial e addr n err) tr)) =
    Some (if 0 < n \<and> fst (run_state (dial e addr n err) tr) = Inr None then [SSHClose] else [])"
  using assms
proof (induction n arbitrary: tr err)
  case 0
  then show ?case by (simp add: run_state_return)
next
  case (Suc n)
  let ?c = "(CtxDone, e tr CtxDone)"
  let ?d = "(SSHDial addr, e (tr @ [?c]) (SSHDial addr))"
  let ?s = "(SleepFor (2 * Second), e (tr @ [?c] @ [?d]) (SleepFor (2 * Second)))"
  have o: "owed ssh_owes ssh_release [] (tr @ [?c]) = Some []"
    using Suc.prems by (simp add: owed_append)
  show ?case
  proof (cases "e tr CtxDone")
    case (SErr why out)
    with o show ?thesis by (simp add: run_state_bind run_state_return)
  next
    case ctx: SOk
    show ?thesis
    proof (cases "snd ?d")
      case SOk
      with ctx Suc.prems show ?thesis
        by (simp add: run_state_bind run_state_return owed_append)
    next
      case (SErr err' out)
      then have "owed ssh_owes ssh_release [] (tr @ [?c] @ [?d] @ [?s]) = Some []"
        using Suc.prems by (simp add: owed_append)
      from Suc.IH[OF this, of "Some err'"] ctx SErr show ?thesis
        by (cases n) (simp_all add: run_state_bind run_state_return)
    qed
  qed
qed

lemma provisionVM_owed:
  "owed ssh_owes ssh_release [] (snd (run_state (provisionVM e entry svcs setups) [])) = Some []"
proof -
  let ?addr = "''172.16.'' @ fmt_d (vm_Index entry) @ ''.2:22''"
  obtain res tr where d: "run_state (dial e ?addr 15 None) [] = (res, tr)" by fastforce
  have o: "owed ssh_owes ssh_release [] tr = Some (if res = Inr None then [SSHClose] else [])"
    using dial_owed[of "[]" e ?addr 15 None] d by simp
  have b: "balanced ssh_owes ssh_release (State_Monad.bind (install_packages e (servicePackages svcs))
      (\<lambda>err. case err of Some err \<Rightarrow> State_Monad.return (Some err) | None \<Rightarrow> run_setup e setups))"
    by (auto intro!: ssh_res.balanced_bind ssh_res.balanced_return balanced_install balanced_setup
        split: option.splits)
  show ?thesis
  proof (cases "res = Inr None")
    case True
    with o have "owed ssh_owes ssh_release [] tr = Some [SSHClose]" by simp
    with b have "owed ssh_owes ssh_release [] (snd (run_state (State_Monad.bind (install_packages e (servicePackages svcs))
      (\<lambda>err. case err of Some err \<Rightarrow> State_Monad.return (Some err) | None \<Rightarrow> run_setup e setups)) tr)) = Some [SSHClose]"
      unfolding balanced_def by blast
    with d True show ?thesis by (simp add: provisionVM_def run_state_bind run_with_defer owed_append)
  next
    case False
    with o have "owed ssh_owes ssh_release [] tr = Some []" by simp
    moreover have "snd (run_state (provisionVM e entry svcs setups) []) = tr"
    proof (cases res)
      case (Inr err)
      with False d show ?thesis by (cases err) (simp_all add: provisionVM_def run_state_bind run_state_return)
    qed (use d in \<open>simp add: provisionVM_def run_state_bind run_state_return\<close>)
    ultimately show ?thesis by simp
  qed
qed


section \<open>The commands that are run\<close>

definition ran :: "(ssh_call, ssh_reply) trace \<Rightarrow> (string \<times> ssh_reply) list" where
  "ran tr = List.map_filter (\<lambda>(c, r). case c of SSHCommand cmd \<Rightarrow> Some (cmd, r) | _ \<Rightarrow> None) tr"

lemma ran_simps [simp]: "ran [] = []" "ran (tr @ tr') = ran tr @ ran tr'"
  "ran ((c, r) # tr) = (case c of SSHCommand cmd \<Rightarrow> (cmd, r) # ran tr | _ \<Rightarrow> ran tr)"
  by (simp_all add: ran_def List.map_filter_def split: ssh_call.split)

definition dials :: "(ssh_call, ssh_reply) trace \<Rightarrow> ssh_reply list" where
  "dials tr = List.map_filter (\<lambda>(c, r). case c of SSHDial _ \<Rightarrow> Some r | _ \<Rightarrow> None) tr"

lemma dials_simps [simp]: "dials [] = []" "dials (tr @ tr') = dials tr @ dials tr'"
  "dials ((c, r) # tr) = (case c of SSHDial _ \<Rightarrow> r # dials tr | _ \<Rightarrow> dials tr)"
  by (simp_all add: dials_def List.map_filter_def split: ssh_call.split)

text \<open>A plan is followed up to its first failure; \<open>ok\<close> tells whether there was none.\<close>

definition followed :: "string list \<Rightarrow> bool \<Rightarrow> (string \<times> ssh_reply) list \<Rightarrow> bool" where
  "followed plan ok xs \<longleftrightarrow> prefix (map fst xs) plan \<and>
    (ok \<longleftrightarrow> map fst xs = plan \<and> list_all (\<lambda>(c, r). r = SOk) xs)"

lemma followed_Nil: "followed [] True []"
  by (simp add: followed_def)

lemma followed_append: "followed p True xs \<Longrightarrow> followed q ok ys \<Longrightarrow> followed (p @ q) ok (xs @ ys)"
  by (auto simp: followed_def)

lemma followed_stop: "followed p False xs \<Longrightarrow> followed (p @ q) False xs"
  by (auto simp: followed_def prefix_def)

definition runs_plan :: "string list \<Rightarrow> 'a option ssh_prog \<Rightarrow> bool" where
  "runs_plan plan p \<longleftrightarrow> (\<forall>tr. \<exists>xs. ran (snd (run_state p tr)) = ran tr @ xs \<and>
    dials (snd (run_state p tr)) = dials tr \<and> followed plan (fst (run_state p tr) = None) xs)"

lemma runs_runSSH: "runs_plan [cmd] (runSSH e cmd)"
  by (auto simp: runs_plan_def runSSH_def run_state_bind run_state_return run_with_defer followed_def
      split: ssh_reply.splits)

lemma runs_Nil: "runs_plan [] (State_Monad.return None)"
  by (simp add: runs_plan_def run_state_return followed_Nil)

lemma runs_Cons:
  assumes "runs_plan p a" "runs_plan q b"
  shows "runs_plan (p @ q) (State_Monad.bind a (\<lambda>err.
    case err of Some x \<Rightarrow> State_Monad.return (Some (f x)) | None \<Rightarrow> b))"
  unfolding runs_plan_def
proof
  fix tr
  obtain err tr1 where a: "run_state a tr = (err, tr1)" by fastforce
  with assms(1) obtain xs where xs: "ran tr1 = ran tr @ xs" "dials tr1 = dials tr"
    "followed p (err = None) xs" unfolding runs_plan_def by (metis fst_conv snd_conv)
  obtain ys where ys: "ran (snd (run_state b tr1)) = ran tr1 @ ys" "dials (snd (run_state b tr1)) = dials tr1"
    "followed q (fst (run_state b tr1) = None) ys" using assms(2) unfolding runs_plan_def by blast
  let ?p = "State_Monad.bind a (\<lambda>err. case err of Some x \<Rightarrow> State_Monad.return (Some (f x)) | None \<Rightarrow> b)"
  show "\<exists>xs. ran (snd (run_state ?p tr)) = ran tr @ xs \<and> dials (snd (run_state ?p tr)) = dials tr \<and>
      followed (p @ q) (fst (run_state ?p tr) = None) xs"
  proof (cases err)
    case None
    with a xs ys followed_append[of p xs q _ ys] show ?thesis
      by (intro exI[of _ "xs @ ys"]) (simp add: run_state_bind)
  next
    case (Some x)
    with a xs followed_stop[of p xs q] show ?thesis
      by (intro exI[of _ xs]) (simp add: run_state_bind run_state_return)
  qed
qed

lemma runs_setup: "runs_plan cmds (run_setup e cmds)"
proof (induction cmds)
  case (Cons cmd cmds)
  from runs_Cons[OF runs_runSSH this, of cmd e "SetupCommand cmd"] show ?case
    by (simp cong: option.case_cong)
qed (simp add: runs_Nil)

lemma runs_map: "runs_plan p a \<Longrightarrow> runs_plan p (State_Monad.bind a (\<lambda>err. State_Monad.return (map_option f err)))"
  by (auto simp: runs_plan_def run_state_bind run_state_return split_beta)

lemma runs_install:
  "runs_plan (if pkgs = [] then [] else [apt_update, apt_install pkgs]) (install_packages e pkgs)"
proof (cases "pkgs = []")
  case True
  then show ?thesis by (simp add: install_packages_def runs_Nil)
next
  case False
  have "runs_plan ([apt_update] @ [apt_install pkgs]) (State_Monad.bind (runSSH e apt_update) (\<lambda>err.
      case err of Some x \<Rightarrow> State_Monad.return (Some (AptUpdate x))
      | None \<Rightarrow> State_Monad.bind (runSSH e (apt_install pkgs))
          (\<lambda>err. State_Monad.return (map_option AptInstall err))))"
    by (rule runs_Cons[OF runs_runSSH runs_map[OF runs_runSSH]])
  with False show ?thesis by (simp add: install_packages_def)
qed

lemma dial_run:
  assumes "run_state (dial e addr n err) tr = (res, tr')"
  shows "ran tr' = ran tr \<and> (\<exists>xs. dials tr' = dials tr @ xs \<and> length xs \<le> n \<and>
    (0 < n \<longrightarrow> (res = Inr None \<longleftrightarrow> SOk \<in> set xs)))"
  using assms
proof (induction n arbitrary: tr err)
  case 0
  then show ?case by (simp add: run_state_return)
next
  case (Suc n)
  let ?c = "(CtxDone, e tr CtxDone)"
  let ?d = "(SSHDial addr, e (tr @ [?c]) (SSHDial addr))"
  let ?s = "(SleepFor (2 * Second), e (tr @ [?c] @ [?d]) (SleepFor (2 * Second)))"
  show ?case
  proof (cases "e tr CtxDone")
    case (SErr why out)
    with Suc.prems show ?thesis by (auto simp: run_state_bind run_state_return)
  next
    case ctx: SOk
    show ?thesis
    proof (cases "snd ?d")
      case SOk
      with ctx Suc.prems show ?thesis
        by (auto simp: run_state_bind run_state_return intro!: exI[of _ "[SOk]"])
    next
      case (SErr err' out)
      then have run: "run_state (dial e addr n (Some err')) (tr @ [?c] @ [?d] @ [?s]) = (res, tr')"
        using ctx Suc.prems by (simp add: run_state_bind)
      from Suc.IH[OF this] obtain xs where xs: "ran tr' = ran tr" "dials tr' = dials tr @ snd ?d # xs"
        "length xs \<le> n" "0 < n \<longrightarrow> (res = Inr None \<longleftrightarrow> SOk \<in> set xs)" by auto
      have "res = Inr (Some err') \<and> xs = []" if "n = 0"
        using that run xs(3) by (simp add: run_state_return)
      with xs SErr show ?thesis
        by (intro conjI exI[of _ "snd ?d # xs"]) (cases n; auto)+
    qed
  qed
qed

text \<open>
  C31. Provisioning a VM.  Whatever the network and the VM answer: at most 15 dials are made, every
  connection and session opened is closed, in reverse order; the remote commands run are an initial
  part of the plan (the package update and installation if there are packages, then the tier's
  setup commands in order); and provisioning succeeds exactly when a dial was answered and the
  whole plan was run with success.
\<close>

theorem provisionVM_follows_plan:
  "let (res, tr) = run_state (provisionVM e entry services setups) [];
       pkgs = servicePackages services;
       plan = (if pkgs = [] then [] else [apt_update, apt_install pkgs]) @ setups
   in length (dials tr) \<le> 15 \<and> owed ssh_owes ssh_release [] tr = Some [] \<and>
      prefix (map fst (ran tr)) plan \<and>
      (res = None \<longleftrightarrow> SOk \<in> set (dials tr) \<and> map fst (ran tr) = plan \<and> list_all (\<lambda>(c, r). r = SOk) (ran tr))"
proof -
  let ?addr = "''172.16.'' @ fmt_d (vm_Index entry) @ ''.2:22''"
  let ?pkgs = "servicePackages services"
  let ?plan = "(if ?pkgs = [] then [] else [apt_update, apt_install ?pkgs]) @ setups"
  let ?body = "State_Monad.bind (install_packages e ?pkgs)
    (\<lambda>err. case err of Some err \<Rightarrow> State_Monad.return (Some err) | None \<Rightarrow> run_setup e setups)"
  obtain d tr1 where dial: "run_state (dial e ?addr 15 None) [] = (d, tr1)" by fastforce
  from dial_run[OF dial] have d: "ran tr1 = []" "length (dials tr1) \<le> 15"
    "d = Inr None \<longleftrightarrow> SOk \<in> set (dials tr1)" by auto
  have plan: "runs_plan ?plan ?body" by (rule runs_Cons[OF runs_install runs_setup])
  obtain xs where "ran (snd (run_state ?body tr1)) = ran tr1 @ xs"
    "dials (snd (run_state ?body tr1)) = dials tr1"
    "followed ?plan (fst (run_state ?body tr1) = None) xs"
    using plan[unfolded runs_plan_def, rule_format, of tr1] by blast
  then have xs: "ran (snd (run_state ?body tr1)) = xs" "dials (snd (run_state ?body tr1)) = dials tr1"
    "followed ?plan (fst (run_state ?body tr1) = None) xs" using d(1) by simp_all
  show ?thesis
  proof (cases "d = Inr None")
    case True
    then have "run_state (provisionVM e entry services setups) [] =
      (fst (run_state ?body tr1), snd (run_state ?body tr1) @ [(SSHClose, e (snd (run_state ?body tr1)) SSHClose)])"
      using dial by (simp add: provisionVM_def run_state_bind run_with_defer)
    with xs d True provisionVM_owed[of e entry services setups] show ?thesis
      by (simp add: followed_def Let_def)
  next
    case False
    have "\<exists>err. run_state (provisionVM e entry services setups) [] = (Some err, tr1)"
    proof (cases d)
      case (Inl why)
      with dial show ?thesis by (simp add: provisionVM_def run_state_bind run_state_return)
    next
      case (Inr err)
      with False dial show ?thesis
        by (cases err) (simp_all add: provisionVM_def run_state_bind run_state_return)
    qed
    then obtain err where "run_state (provisionVM e entry services setups) [] = (Some err, tr1)" ..
    with d False provisionVM_owed[of e entry services setups] show ?thesis
      by (simp add: Let_def)
  qed
qed

end
