(* ===== verification/VMIDs.thy ===== *)
theory VMIDs
  imports Prelude
begin

text \<open>
  The pool of VM identifiers in \<open>src/api/server.go\<close>: the map \<open>usedIDs\<close> and the methods
  \<open>allocateVMIDs\<close> and \<open>releaseVMIDs\<close>, as functions on that map, the only field of the server
  they touch.  Both callers pass a non-negative count.

  The locale \<open>id_pool\<close> is the contract the request handlers rely on: allocation returns that
  many new identifiers and marks them, release unmarks.  From the contract follows the ownership
  invariant of the server: as long as every holder releases exactly what it was given, no two
  holders share an identifier.
\<close>

type_synonym id_map = "(int, bool) fmap"

text \<open>A Go map lookup: \<open>false\<close> for an absent key.\<close>

definition is_used :: "id_map \<Rightarrow> int \<Rightarrow> bool" where
  "is_used m i \<longleftrightarrow> fmlookup m i = Some True"

definition used_set :: "id_map \<Rightarrow> int set" where
  "used_set m = {i. is_used m i}"

function alloc_loop :: "id_map \<Rightarrow> nat \<Rightarrow> int list \<Rightarrow> int \<Rightarrow> int list" where
  "alloc_loop usedIDs count ids candidate =
    (if length ids < count
     then alloc_loop usedIDs count
            (if \<not> is_used usedIDs candidate then ids @ [candidate] else ids) (candidate + 1)
     else ids)"
  by pat_completeness auto

lemma finite_used: "finite (used_set m)"
proof -
  have "used_set m \<subseteq> fset (fmdom m)"
    by (auto simp: used_set_def is_used_def fmlookup_dom_iff)
  then show ?thesis by (rule finite_subset) simp
qed

lemma used_above_decreases:
  assumes "is_used m c"
  shows "card {i \<in> used_set m. c + 1 \<le> i} < card {i \<in> used_set m. c \<le> i}"
proof (rule psubset_card_mono)
  show "finite {i \<in> used_set m. c \<le> i}" using finite_used by simp
  have "c \<in> {i \<in> used_set m. c \<le> i} - {i \<in> used_set m. c + 1 \<le> i}"
    using assms by (simp add: used_set_def)
  moreover have "{i \<in> used_set m. c + 1 \<le> i} \<subseteq> {i \<in> used_set m. c \<le> i}" by auto
  ultimately show "{i \<in> used_set m. c + 1 \<le> i} \<subset> {i \<in> used_set m. c \<le> i}" by blast
qed

text \<open>The search ends: every round finds an identifier or passes one of the finitely many used.\<close>

termination alloc_loop
  by (relation "measures [\<lambda>(m, count, ids, c). count - length ids,
                          \<lambda>(m, count, ids, c). card {i \<in> used_set m. c \<le> i}]")
     (auto simp: used_above_decreases)

declare alloc_loop.simps [simp del]

definition allocateVMIDs :: "id_map \<Rightarrow> nat \<Rightarrow> int list \<times> id_map" where
  "allocateVMIDs usedIDs count =
    (let ids = alloc_loop usedIDs count [] 0
     in (ids, fold (\<lambda>i. fmupd i True) ids usedIDs))"

definition releaseVMIDs :: "id_map \<Rightarrow> int list \<Rightarrow> id_map" where
  "releaseVMIDs usedIDs ids = fold fmdrop ids usedIDs"


section \<open>What the search finds\<close>

text \<open>The free identifiers below a bound, in order.\<close>

definition free_below :: "id_map \<Rightarrow> int \<Rightarrow> int list" where
  "free_below m c = filter (\<lambda>i. \<not> is_used m i) [0..c - 1]"

lemma free_below_Suc:
  "0 \<le> c \<Longrightarrow> free_below m (c + 1) = free_below m c @ (if is_used m c then [] else [c])"
  by (simp add: free_below_def upto_rec2)

lemma alloc_loop_free_below:
  assumes "0 \<le> c" "length (free_below m c) \<le> count"
  shows "\<exists>d\<ge>c. alloc_loop m count (free_below m c) c = free_below m d \<and> length (free_below m d) = count"
  using assms
proof (induction m count "free_below m c" c rule: alloc_loop.induct)
  case (1 m count c)
  show ?case
  proof (cases "length (free_below m c) < count")
    case True
    then have step: "(if \<not> is_used m c then free_below m c @ [c] else free_below m c) = free_below m (c + 1)"
      using 1(2) by (simp add: free_below_Suc)
    have "\<exists>d\<ge>c + 1. alloc_loop m count (free_below m (c + 1)) (c + 1) = free_below m d \<and>
        length (free_below m d) = count"
      using 1(1)[OF True step] 1(2) True by (simp add: free_below_Suc)
    then obtain d where "c + 1 \<le> d" "alloc_loop m count (free_below m (c + 1)) (c + 1) = free_below m d"
      "length (free_below m d) = count" by blast
    then show ?thesis
      using True step by (subst alloc_loop.simps) (intro exI[of _ d], simp)
  next
    case False
    then show ?thesis using 1(3) by (subst alloc_loop.simps) auto
  qed
qed

lemma allocate_free_below:
  obtains d where "fst (allocateVMIDs m count) = free_below m d" "length (free_below m d) = count"
  using alloc_loop_free_below[of 0 m count] by (auto simp: allocateVMIDs_def Let_def free_below_def)

lemma in_free_below: "i \<in> set (free_below m d) \<longleftrightarrow> 0 \<le> i \<and> i < d \<and> i \<notin> used_set m"
  by (auto simp: free_below_def used_set_def)

lemma sorted_free_below: "sorted_wrt (<) (free_below m d)"
  by (auto simp: free_below_def sorted_wrt_filter strict_sorted_iff)

lemma used_allocate:
  "used_set (snd (allocateVMIDs m count)) = used_set m \<union> set (fst (allocateVMIDs m count))"
  by (auto simp: allocateVMIDs_def Let_def used_set_def is_used_def fmlookup_fold_fmupd)

lemma used_release: "used_set (releaseVMIDs m ids) = used_set m - set ids"
  by (auto simp: releaseVMIDs_def used_set_def is_used_def fmlookup_fold_fmdrop)

text \<open>
  C4. Allocation.  Asking for \<open>count\<close> identifiers returns exactly \<open>count\<close> different ones, in
  ascending order, none negative and none in use; they are the lowest free ones; and exactly
  they become used in addition to those used before.
\<close>

theorem allocateVMIDs_spec:
  "case allocateVMIDs m count of (ids, m') \<Rightarrow>
    length ids = count \<and> sorted_wrt (<) ids \<and> distinct ids \<and>
    set ids \<subseteq> {i. 0 \<le> i} - used_set m \<and>
    {j. 0 \<le> j} - used_set m - set ids \<subseteq> {j. list_all (\<lambda>i. i < j) ids} \<and>
    used_set m' = used_set m \<union> set ids"
proof -
  obtain d where d: "fst (allocateVMIDs m count) = free_below m d" "length (free_below m d) = count"
    by (rule allocate_free_below)
  have "distinct (free_below m d)"
    using sorted_free_below[of m d] by (simp add: strict_sorted_iff)
  moreover have "{j. 0 \<le> j} - used_set m - set (free_below m d) \<subseteq>
      {j. list_all (\<lambda>i. i < j) (free_below m d)}"
    by (auto simp: in_free_below list_all_iff)
  ultimately show ?thesis
    using d used_allocate[of m count] sorted_free_below[of m d]
    by (auto simp: in_free_below split: prod.splits)
qed


section \<open>Ownership\<close>

locale id_pool =
  fixes used :: "'p \<Rightarrow> int set"
    and alloc :: "'p \<Rightarrow> nat \<Rightarrow> int list \<times> 'p"
    and release :: "'p \<Rightarrow> int list \<Rightarrow> 'p"
  assumes alloc_fresh: "alloc p n = (ids, p') \<Longrightarrow> set ids \<inter> used p = {}"
    and alloc_distinct: "alloc p n = (ids, p') \<Longrightarrow> distinct ids"
    and alloc_length: "alloc p n = (ids, p') \<Longrightarrow> length ids = n"
    and alloc_used: "alloc p n = (ids, p') \<Longrightarrow> used p' = used p \<union> set ids"
    and release_used: "used (release p ids) = used p - set ids"
begin

text \<open>
  Holders and what they hold.  \<open>owned\<close>: holdings are pairwise disjoint, without repetition, and
  marked.  \<open>covered\<close>: whatever is marked is held by somebody.
\<close>

definition owned :: "'p \<Rightarrow> 'h set \<Rightarrow> ('h \<Rightarrow> int list) \<Rightarrow> bool" where
  "owned p H held \<longleftrightarrow>
    (\<forall>h\<in>H. distinct (held h) \<and> set (held h) \<subseteq> used p) \<and>
    (\<forall>h\<in>H. \<forall>k\<in>H. h \<noteq> k \<longrightarrow> set (held h) \<inter> set (held k) = {})"

definition covered :: "'p \<Rightarrow> 'h set \<Rightarrow> ('h \<Rightarrow> int list) \<Rightarrow> bool" where
  "covered p H held \<longleftrightarrow> used p \<subseteq> (\<Union>h\<in>H. set (held h))"

lemma owned_cong:
  "(\<And>h. h \<in> H \<Longrightarrow> held h = held' h) \<Longrightarrow> owned p H held = owned p H held'"
  by (simp add: owned_def cong: ball_cong)

lemma covered_cong:
  "(\<And>h. h \<in> H \<Longrightarrow> held h = held' h) \<Longrightarrow> covered p H held = covered p H held'"
  by (simp add: covered_def)

lemma owned_alloc:
  assumes "owned p H held" "alloc p n = (ids, p')" "h \<notin> H" "held' h = ids"
    and "\<And>k. k \<in> H \<Longrightarrow> held' k = held k"
  shows "owned p' (insert h H) held'"
proof -
  have "set ids \<inter> set (held k) = {}" if "k \<in> H" for k
    using assms(1) that alloc_fresh[OF assms(2)] unfolding owned_def by blast
  then show ?thesis
    using assms alloc_distinct[OF assms(2)] alloc_used[OF assms(2)]
    unfolding owned_def by (auto; metis Int_commute)
qed

lemma owned_release:
  assumes "owned p H held" "h \<in> H"
  shows "owned (release p (held h)) (H - {h}) held"
  using assms unfolding owned_def release_used by blast

lemma owned_subset: "owned p H held \<Longrightarrow> K \<subseteq> H \<Longrightarrow> owned p K held"
  unfolding owned_def by blast

lemma covered_alloc:
  assumes "covered p H held" "alloc p n = (ids, p')" "held' h = ids"
    and "\<And>k. k \<in> H \<Longrightarrow> held' k = held k"
  shows "covered p' (insert h H) held'"
  using assms alloc_used[OF assms(2)] unfolding covered_def by auto

lemma covered_release:
  assumes "covered p H held"
  shows "covered (release p (held h)) (H - {h}) held"
  using assms unfolding covered_def release_used by auto

lemma covered_release_keep: "covered p H held \<Longrightarrow> covered (release p ids) H held"
  unfolding covered_def release_used by auto

lemma covered_empty: "covered p {} held \<Longrightarrow> used p = {}"
  by (simp add: covered_def)

end

lemma allocate_pair:
  assumes "allocateVMIDs m n = (ids, m')"
  shows "set ids \<inter> used_set m = {}" "distinct ids" "length ids = n" "used_set m' = used_set m \<union> set ids"
proof -
  obtain d where d: "ids = free_below m d" "length (free_below m d) = n"
    using allocate_free_below[of m n] assms by (metis fst_conv)
  then show "set ids \<inter> used_set m = {}" "distinct ids" "length ids = n"
    using sorted_free_below[of m d] by (auto simp: in_free_below strict_sorted_iff)
  show "used_set m' = used_set m \<union> set ids" using used_allocate[of m n] assms by simp
qed

interpretation pool: id_pool used_set allocateVMIDs releaseVMIDs
  by unfold_locales (use allocate_pair used_release in \<open>blast+\<close>)

end
