(* ===== verification/Goroutines.thy ===== *)
theory Goroutines
  imports VMLaunch
begin

text \<open>
  The goroutines of a fleet, stepped call by call.  All launchers of the program start one goroutine
  per VM and let them run side by side.  Each is a program in an environment of its own, which may
  give any answer at any point; so the calls it will make can be read off in advance, and a program
  counter per goroutine says how many it has made.  A goroutine that waits for its machine goes on
  when the context has ended, or when the machine ends by itself.

  Shown: a step never runs past the end; once the context has ended the goroutines can always come
  to their end by themselves; while it has not, a goroutine whose machine runs stays where it waits.
\<close>

type_synonym launch_trace = "(launch_call, launch_reply) trace"
type_synonym pool = "nat \<Rightarrow> nat"

datatype pool_event = Call nat | MachineEnds nat

definition call_at :: "(nat \<Rightarrow> launch_trace) \<Rightarrow> pool \<Rightarrow> nat \<Rightarrow> launch_call" where
  "call_at runs pc i = fst (runs i ! pc i)"

inductive pool_step :: "nat \<Rightarrow> (nat \<Rightarrow> launch_trace) \<Rightarrow> bool \<Rightarrow> pool \<Rightarrow> pool_event \<Rightarrow> pool \<Rightarrow> bool"
  for n runs cancelled where
  pool_call:
    "i < n \<Longrightarrow> pc i < length (runs i) \<Longrightarrow> (call_at runs pc i = VMWait \<longrightarrow> cancelled) \<Longrightarrow>
     pool_step n runs cancelled pc (Call i) (pc(i := Suc (pc i)))"
| pool_machine_ends:
    "i < n \<Longrightarrow> pc i < length (runs i) \<Longrightarrow> call_at runs pc i = VMWait \<Longrightarrow>
     pool_step n runs cancelled pc (MachineEnds i) (pc(i := Suc (pc i)))"

inductive_cases pool_step_cases: "pool_step n runs cancelled pc ev pc'"
inductive_simps pool_step_simps:
  "pool_step n runs cancelled pc (Call i) pc'" "pool_step n runs cancelled pc (MachineEnds i) pc'"

text \<open>The calls made so far, and whether all goroutines have ended.\<close>

definition made :: "(nat \<Rightarrow> launch_trace) \<Rightarrow> pool \<Rightarrow> nat \<Rightarrow> launch_trace" where
  "made runs pc i = take (pc i) (runs i)"

definition pool_ok :: "(nat \<Rightarrow> launch_trace) \<Rightarrow> pool \<Rightarrow> bool" where
  "pool_ok runs pc \<longleftrightarrow> (\<forall>i. pc i \<le> length (runs i))"

definition pool_done :: "nat \<Rightarrow> (nat \<Rightarrow> launch_trace) \<Rightarrow> pool \<Rightarrow> bool" where
  "pool_done n runs pc \<longleftrightarrow> list_all (\<lambda>i. pc i = length (runs i)) [0..<n]"

definition calls_left :: "nat \<Rightarrow> (nat \<Rightarrow> launch_trace) \<Rightarrow> pool \<Rightarrow> nat" where
  "calls_left n runs pc = (\<Sum>i < n. length (runs i) - pc i)"

lemma pool_ok_begin [simp]: "pool_ok runs (\<lambda>_. 0)"
  by (simp add: pool_ok_def)

lemma pool_done_iff: "pool_done n runs pc \<longleftrightarrow> (\<forall>i < n. pc i = length (runs i))"
  by (auto simp: pool_done_def list_all_iff)

lemma pool_ok_step: "pool_ok runs pc \<Longrightarrow> pool_step n runs c pc ev pc' \<Longrightarrow> pool_ok runs pc'"
  by (erule pool_step_cases) (auto simp: pool_ok_def)

lemma pool_done_stays: "pool_done n runs pc \<Longrightarrow> \<not> pool_step n runs c pc ev pc'"
  by (auto simp: pool_done_iff elim: pool_step_cases)

lemma made_done: "pool_done n runs pc \<Longrightarrow> i < n \<Longrightarrow> made runs pc i = runs i"
  by (simp add: pool_done_iff made_def)

text \<open>Goroutines that are not all at their end have a next call, if the context has ended.\<close>

lemma pool_progress:
  assumes "pool_ok runs pc" "\<not> pool_done n runs pc"
  shows "\<exists>i pc'. pool_step n runs True pc (Call i) pc' \<and> calls_left n runs pc' < calls_left n runs pc"
proof -
  from assms obtain i where i: "i < n" "pc i < length (runs i)"
    by (auto simp: pool_ok_def pool_done_iff le_less)
  let ?pc = "pc(i := Suc (pc i))"
  have "pool_step n runs True pc (Call i) ?pc" using i by (simp add: pool_call)
  moreover have "calls_left n runs ?pc < calls_left n runs pc"
    unfolding calls_left_def using i by (intro sum_strict_mono_ex1) auto
  ultimately show ?thesis by (intro exI[of _ i] exI[of _ ?pc] conjI)
qed


section \<open>Waiting\<close>

definition waiting :: "launch_call \<times> launch_reply \<Rightarrow> bool" where
  "waiting ev \<longleftrightarrow> fst ev = VMWait"

definition has_waited :: "(nat \<Rightarrow> launch_trace) \<Rightarrow> pool \<Rightarrow> nat \<Rightarrow> bool" where
  "has_waited runs pc i \<longleftrightarrow> list_ex waiting (made runs pc i)"

lemma has_waited_begin [simp]: "\<not> has_waited runs (\<lambda>_. 0) i"
  by (simp add: has_waited_def made_def)

lemma stays_waiting:
  assumes "pool_step n runs False pc ev pc'" "ev \<noteq> MachineEnds i" "\<not> has_waited runs pc i"
  shows "\<not> has_waited runs pc' i"
  using assms(1)
proof (rule pool_step_cases)
  fix j
  assume "pc' = pc(j := Suc (pc j))" "pc j < length (runs j)" "call_at runs pc j = VMWait \<longrightarrow> False"
  with assms(3) show ?thesis
    by (cases "j = i") (auto simp: has_waited_def made_def take_Suc_conv_app_nth waiting_def call_at_def)
qed (use assms(2,3) in \<open>auto simp: has_waited_def made_def\<close>)

text \<open>What a goroutine has made before it has waited is what it makes before it waits.\<close>

lemma take_before_first:
  "\<not> list_ex P (take k xs) \<Longrightarrow> prefix (take k xs) (takeWhile (\<lambda>x. \<not> P x) xs)"
  by (induction xs arbitrary: k) (auto simp: take_Cons' split: if_splits)

lemma made_before_waiting:
  assumes "\<not> has_waited runs pc i"
    and "list_all (\<lambda>ev. \<not> is_release (fst ev)) (takeWhile (\<lambda>ev. \<not> waiting ev) (runs i))"
  shows "list_all (\<lambda>(c, reply). \<not> is_release c) (made runs pc i)"
proof -
  have "prefix (made runs pc i) (takeWhile (\<lambda>ev. \<not> waiting ev) (runs i))"
    using assms(1) unfolding has_waited_def made_def by (rule take_before_first)
  with assms(2) show ?thesis
    by (auto simp: list_all_iff dest!: set_mono_prefix) (metis fst_conv subsetD)
qed

section \<open>Programs that release nothing before they wait\<close>

definition waits_first :: "launch_trace \<Rightarrow> bool" where
  "waits_first tr \<longleftrightarrow>
    (list_ex waiting tr \<longrightarrow> list_all (\<lambda>ev. \<not> is_release (fst ev)) (takeWhile (\<lambda>ev. \<not> waiting ev) tr))"

text \<open>From a trace without a wait and without a release the program goes on like that.\<close>

definition patient :: "'a launch_prog \<Rightarrow> bool" where
  "patient p \<longleftrightarrow> (\<forall>tr. list_all (\<lambda>ev. \<not> waiting ev \<and> \<not> is_release (fst ev)) tr \<longrightarrow>
    waits_first (snd (run_state p tr)))"

lemma patient_return: "patient (State_Monad.return x)"
  by (auto simp: patient_def waits_first_def run_state_return list_all_iff list_ex_iff)

lemma patient_perform:
  assumes "c \<noteq> VMWait" "\<not> is_release c" "\<And>r. patient (f r)"
  shows "patient (State_Monad.bind (perform d c) f)"
  using assms by (simp add: patient_def run_state_bind waiting_def)

lemma patient_if: "patient p \<Longrightarrow> patient q \<Longrightarrow> patient (if b then p else q)"
  by simp

lemma patient_wait:
  assumes "\<And>r. extends (f r)"
  shows "patient (State_Monad.bind (perform d VMWait) f)"
  unfolding patient_def
proof (intro allI impI)
  fix tr :: launch_trace
  assume quiet: "list_all (\<lambda>ev. \<not> waiting ev \<and> \<not> is_release (fst ev)) tr"
  let ?ev = "(VMWait, d tr VMWait)"
  obtain rest where "snd (run_state (f (snd ?ev)) (tr @ [?ev])) = (tr @ [?ev]) @ rest"
    using assms[of "snd ?ev"] unfolding extends_def prefix_def by blast
  moreover have "takeWhile (\<lambda>ev. \<not> waiting ev) (xs @ ev # rest) = xs"
    if "list_all (\<lambda>ev. \<not> waiting ev \<and> \<not> is_release (fst ev)) xs" "waiting ev" for xs ev
    using that by (induction xs) auto
  from this[OF quiet, of ?ev] have "takeWhile (\<lambda>ev. \<not> waiting ev) (tr @ ?ev # rest) = tr"
    by (simp add: waiting_def)
  ultimately show "waits_first (snd (run_state (State_Monad.bind (perform d VMWait) f) tr))"
    using quiet by (simp add: run_state_bind waits_first_def list_all_iff)
qed

lemma patient_defer:
  assumes "patient p" "c \<noteq> VMWait"
  shows "patient (with_defer d c p)"
proof -
  have "takeWhile (\<lambda>ev. \<not> waiting ev) (tr @ [ev]) = takeWhile (\<lambda>ev. \<not> waiting ev) tr"
    if "list_ex waiting tr" for tr ev
    using that by (induction tr) auto
  with assms show ?thesis
    by (auto simp: patient_def waits_first_def run_with_defer waiting_def)
qed

lemma patient_report: "patient (report d vmID what r)"
  unfolding report_def by (cases r) (auto intro!: patient_return patient_perform)

lemmas patient_intros = patient_return patient_perform patient_if patient_wait patient_defer patient_report

lemma patient_run: "patient p \<Longrightarrow> waits_first (snd (run_state p []))"
  by (simp add: patient_def)

end
