(* ===== verification/RunLife.thy ===== *)
theory RunLife
  imports RunLoop Provision VMIDs Goroutines
begin

text \<open>
  The whole life of a run: \<open>Run\<close> of \<open>src/scenario/runner.go\<close> from the moment its preparation
  (\<open>Run_prologue\<close>) has succeeded until it returns.

  The main goroutine starts one goroutine per VM, sleeps eight seconds, provisions the VMs over
  SSH, starts the web terminal, sets the start time and the schedule, waits for completion or
  cancellation, prints the result and waits for the goroutines of the VMs.  Meanwhile every VM's
  goroutine makes its calls one by one; it leaves \<open>Wait\<close> when the context of the fleet is
  cancelled or when its machine ends by itself.  The events of the running phase are those of
  theory \<open>RunLoop\<close>.

  The goroutines of the VMs run the program \<open>run_vm\<close> side by side, as theory \<open>Goroutines\<close> says.

  Shown: from its schedule on the life of a run is a run of theory \<open>RunLoop\<close>, and no fault comes before
  eight seconds and the provisioning are over; when \<open>Run\<close> returns,
  the result has been printed and every machine is stopped and every image removed, and until it
  ends no machine is stopped unless it failed or ended by itself; a cancelled run can always
  return, whatever state it is in, but never earlier than the sleep allows; and a run that has
  completed leaves its pending faults behind, which reach the VMs of the next run.
\<close>

section \<open>The state\<close>

datatype life_phase = Booting | Provisioning | Opening | Live | Draining | Returned

record life =
  lf_phase :: life_phase
  lf_pc :: pool
  lf_warning :: "(string \<times> provision_error) option"
  lf_terminal :: "(int \<times> int) option"
  lf_run :: run_state_t

text \<open>
  What a run is given: its configuration and message of the day, the moment it launches its VMs,
  whether a web terminal is attached, and what its goroutines talk to.
\<close>

record life_world =
  lw_base :: config
  lw_motd :: string
  lw_launched :: int
  lw_terminal :: bool
  lw_vm :: "nat \<Rightarrow> launch_env"
  lw_ssh :: "VMEntry \<Rightarrow> ssh_env"
  lw_http :: http_env
  lw_decoders :: decoders

text \<open>The outcome of a VM's goroutine, and the calls it makes until then.\<close>

definition vm_run :: "life_world \<Rightarrow> Runner \<Rightarrow> nat \<Rightarrow> run_error option \<times> launch_trace" where
  "vm_run w r i = run_state (run_vm (lw_vm w i) (lw_base w) (lw_motd w) (VMs (Plan r) ! i)) []"

definition vm_calls :: "life_world \<Rightarrow> Runner \<Rightarrow> nat \<Rightarrow> launch_trace" where
  "vm_calls w r i = snd (vm_run w r i)"

abbreviation vm_count :: "Runner \<Rightarrow> nat" where
  "vm_count r \<equiv> length (VMs (Plan r))"

definition vm_made :: "life_world \<Rightarrow> life \<Rightarrow> nat \<Rightarrow> launch_trace" where
  "vm_made w s i = made (vm_calls w (rs_runner (lf_run s))) (lf_pc s) i"

text \<open>The loop that starts the goroutines; nothing is scheduled or polled yet.\<close>

definition life_begin :: "Runner \<Rightarrow> life" where
  "life_begin r =
    \<lparr>lf_phase = Booting, lf_pc = (\<lambda>_. 0), lf_warning = None, lf_terminal = None,
     lf_run = \<lparr>rs_runner = r, rs_pending = [], rs_injected = [], rs_active = {}, rs_http = [],
       rs_polling = False, rs_done = False, rs_cancelled = False, rs_result = None\<rparr>\<rparr>"

text \<open>
  The fleet's context ends with the caller's, and when a completed run cancels it.
\<close>

definition fleet_cancelled :: "life \<Rightarrow> bool" where
  "fleet_cancelled s \<longleftrightarrow> rs_cancelled (lf_run s) \<or> (\<exists>txt. rs_result (lf_run s) = Some (True, txt))"

datatype life_event =
    Goroutine pool_event
  | WakeUp int
  | Provisioned "VMEntry list"
  | TerminalStarts
  | GoLive int
  | During run_event
  | Return

definition boot_wait :: int where
  "boot_wait = 8 * Second"

text \<open>Hints, scores and the caller's cancellation may come at any time.\<close>

definition from_outside :: "run_event \<Rightarrow> bool" where
  "from_outside ev = (case ev of HintAsked \<Rightarrow> True | ScoreAsked _ \<Rightarrow> True | CtxCancelled \<Rightarrow> True | _ \<Rightarrow> False)"

text \<open>Setting the start time; the context may have been cancelled before.\<close>

definition go_live :: "int \<Rightarrow> run_state_t \<Rightarrow> run_state_t" where
  "go_live now rs = (run_begin (rs_runner rs) now)\<lparr>rs_cancelled := rs_cancelled rs\<rparr>"

definition ends_run :: "run_event \<Rightarrow> bool" where
  "ends_run ev = (case ev of Completed _ \<Rightarrow> True | Aborted _ \<Rightarrow> True | _ \<Rightarrow> False)"

inductive life_step :: "life_world \<Rightarrow> life \<Rightarrow> life_event \<Rightarrow> life \<Rightarrow> bool" for w where
  life_goroutine:
    "pool_step (vm_count (rs_runner (lf_run s))) (vm_calls w (rs_runner (lf_run s))) (fleet_cancelled s)
       (lf_pc s) ev pc \<Longrightarrow>
     life_step w s (Goroutine ev) (s\<lparr>lf_pc := pc\<rparr>)"
| life_wake:
    "lf_phase s = Booting \<Longrightarrow> lw_launched w + boot_wait \<le> now \<Longrightarrow>
     life_step w s (WakeUp now) (s\<lparr>lf_phase := Provisioning\<rparr>)"
| life_provisioned:
    "lf_phase s = Provisioning \<Longrightarrow> mset arrivals = mset (VMs (Plan (rs_runner (lf_run s)))) \<Longrightarrow>
     life_step w s (Provisioned arrivals)
       (s\<lparr>lf_phase := Opening, lf_warning := provisionAll (lw_ssh w) (rs_runner (lf_run s)) arrivals\<rparr>)"
| life_terminal:
    "lf_phase s = Opening \<Longrightarrow> lf_terminal s = None \<Longrightarrow>
     lw_terminal w \<Longrightarrow> 0 < opt_WebPort (run_opts (rs_runner (lf_run s))) \<Longrightarrow>
     life_step w s TerminalStarts
       (s\<lparr>lf_terminal := Some (TotalVMs (Plan (rs_runner (lf_run s))), opt_WebPort (run_opts (rs_runner (lf_run s))))\<rparr>)"
| life_go_live:
    "lf_phase s = Opening \<Longrightarrow> lw_launched w + boot_wait \<le> now \<Longrightarrow>
     lf_terminal s \<noteq> None \<or> \<not> (lw_terminal w \<and> 0 < opt_WebPort (run_opts (rs_runner (lf_run s)))) \<Longrightarrow>
     life_step w s (GoLive now) (s\<lparr>lf_phase := Live, lf_run := go_live now (lf_run s)\<rparr>)"
| life_during:
    "from_outside ev \<or> lf_phase s = Live \<or> lf_phase s = Draining \<or> lf_phase s = Returned \<Longrightarrow>
     run_step (lw_http w) (lw_decoders w) (lf_run s) ev rs \<Longrightarrow>
     life_step w s (During ev)
       (s\<lparr>lf_run := rs, lf_phase := if ends_run ev then Draining else lf_phase s\<rparr>)"
| life_return:
    "lf_phase s = Draining \<Longrightarrow> pool_done (vm_count (rs_runner (lf_run s))) (vm_calls w (rs_runner (lf_run s))) (lf_pc s) \<Longrightarrow>
     life_step w s Return (s\<lparr>lf_phase := Returned\<rparr>)"

inductive_cases life_step_cases: "life_step w s ev s'"
inductive_simps life_step_simps:
  "life_step w s (Goroutine ev) s'" "life_step w s (WakeUp now) s'"
  "life_step w s (Provisioned arrivals) s'" "life_step w s TerminalStarts s'" "life_step w s (GoLive now) s'"
  "life_step w s (During ev) s'" "life_step w s Return s'"

lemmas life_defs = life_begin_def go_live_def run_begin_def fleet_cancelled_def


section \<open>Bookkeeping\<close>

lemma vm_calls_cong: "Plan r = Plan r' \<Longrightarrow> vm_calls w r = vm_calls w r'"
  by (simp add: vm_calls_def vm_run_def fun_eq_iff)

text \<open>Before it goes live a run has no timers, no traffic and no result.\<close>

definition quiet :: "run_state_t \<Rightarrow> bool" where
  "quiet rs \<longleftrightarrow> rs_pending rs = [] \<and> rs_injected rs = [] \<and> rs_http rs = [] \<and>
    \<not> rs_polling rs \<and> \<not> rs_done rs \<and> rs_result rs = None"

text \<open>Once live, its running phase is a run of the transition system of theory \<open>RunLoop\<close>.\<close>

definition runs_from :: "life_world \<Rightarrow> Runner \<Rightarrow> run_state_t \<Rightarrow> bool" where
  "runs_from w r rs \<longleftrightarrow> (\<exists>r' t evs. Scenario r' = Scenario r \<and> Plan r' = Plan r \<and>
    lw_launched w + boot_wait \<le> t \<and>
    steps (run_step (lw_http w) (lw_decoders w)) (run_begin r' t) evs rs)"

definition life_inv :: "life_world \<Rightarrow> Runner \<Rightarrow> life \<Rightarrow> bool" where
  "life_inv w r s \<longleftrightarrow>
    Scenario (rs_runner (lf_run s)) = Scenario r \<and> Plan (rs_runner (lf_run s)) = Plan r \<and>
    pool_ok (vm_calls w r) (lf_pc s) \<and>
    (case lf_phase s of
       Live \<Rightarrow> runs_from w r (lf_run s) \<and> rs_result (lf_run s) = None
     | Draining \<Rightarrow> runs_from w r (lf_run s) \<and> rs_result (lf_run s) \<noteq> None
     | Returned \<Rightarrow> runs_from w r (lf_run s) \<and> rs_result (lf_run s) \<noteq> None \<and>
         pool_done (vm_count r) (vm_calls w r) (lf_pc s)
     | _ \<Rightarrow> quiet (lf_run s))"

lemma life_inv_begin: "life_inv w r (life_begin r)"
  by (simp add: life_inv_def life_begin_def quiet_def)

lemma life_inv_keeps:
  assumes "life_inv w r s"
  shows "Scenario (rs_runner (lf_run s)) = Scenario r" "Plan (rs_runner (lf_run s)) = Plan r"
    "vm_calls w (rs_runner (lf_run s)) = vm_calls w r"
proof -
  from assms show "Scenario (rs_runner (lf_run s)) = Scenario r"
    and plan: "Plan (rs_runner (lf_run s)) = Plan r" by (simp_all add: life_inv_def)
  show "vm_calls w (rs_runner (lf_run s)) = vm_calls w r" by (rule vm_calls_cong[OF plan])
qed

lemma runs_from_step:
  assumes "runs_from w r rs" and st: "run_step (lw_http w) (lw_decoders w) rs ev rs'"
  shows "runs_from w r rs'"
proof -
  from assms(1) obtain r' t evs where r': "Scenario r' = Scenario r" "Plan r' = Plan r"
      "lw_launched w + boot_wait \<le> t"
    and run: "steps (run_step (lw_http w) (lw_decoders w)) (run_begin r' t) evs rs"
    unfolding runs_from_def by (elim exE conjE)
  from steps_snoc[OF run st] r' show ?thesis
    unfolding runs_from_def by (intro exI[of _ r'] exI[of _ t] exI[of _ "evs @ [ev]"] conjI)
qed

lemma runs_from_begin:
  assumes "Scenario (rs_runner rs) = Scenario r" "Plan (rs_runner rs) = Plan r"
    and "lw_launched w + boot_wait \<le> now"
  shows "runs_from w r (go_live now rs)"
proof -
  let ?b = "run_begin (rs_runner rs) now"
  have "\<exists>evs. steps (run_step (lw_http w) (lw_decoders w)) ?b evs (go_live now rs)"
  proof (cases "rs_cancelled rs")
    case True
    have "run_step (lw_http w) (lw_decoders w) ?b CtxCancelled (?b\<lparr>rs_cancelled := True\<rparr>)"
      by (rule step_cancel)
    then show ?thesis unfolding go_live_def using True by (intro exI[of _ "[CtxCancelled]"]) (simp add: steps_one)
  next
    case False
    then have "go_live now rs = ?b" by (simp add: go_live_def run_begin_def)
    with steps_Nil[of _ ?b] show ?thesis by (intro exI[of _ "[]"]) simp
  qed
  then obtain evs where "steps (run_step (lw_http w) (lw_decoders w)) ?b evs (go_live now rs)" ..
  with assms show ?thesis
    unfolding runs_from_def by (intro exI[of _ "rs_runner rs"] exI[of _ now] exI[of _ evs] conjI)
qed

lemma outside_quiet:
  "run_step e d rs ev rs' \<Longrightarrow> from_outside ev \<Longrightarrow> quiet rs \<Longrightarrow> quiet rs'"
  by (erule run_step_cases) (auto simp: from_outside_def quiet_def)

lemma ends_result:
  "run_step e d rs ev rs' \<Longrightarrow> ends_run ev \<Longrightarrow> rs_result rs = None \<and> rs_result rs' \<noteq> None"
  "run_step e d rs ev rs' \<Longrightarrow> \<not> ends_run ev \<Longrightarrow> rs_result rs' = rs_result rs"
  by (erule run_step_cases; auto simp: ends_run_def run_step_defs Let_def split_beta)+

lemma life_inv_during:
  assumes inv: "life_inv w r s" and st: "run_step (lw_http w) (lw_decoders w) (lf_run s) ev rs"
    and at: "from_outside ev \<or> lf_phase s = Live \<or> lf_phase s = Draining \<or> lf_phase s = Returned"
  shows "life_inv w r (s\<lparr>lf_run := rs, lf_phase := if ends_run ev then Draining else lf_phase s\<rparr>)"
proof -
  have "\<not> from_outside ev" if "ends_run ev"
    using that by (cases ev) (simp_all add: ends_run_def from_outside_def)
  with at inv step_keeps(1,2)[OF st] ends_result[OF st] runs_from_step[OF _ st] outside_quiet[OF st]
  show ?thesis by (cases "lf_phase s") (auto simp: life_inv_def)
qed

lemma life_inv_step: "life_inv w r s \<Longrightarrow> life_step w s ev s' \<Longrightarrow> life_inv w r s'"
proof (erule life_step_cases)
  fix ev rs
  assume "life_inv w r s" "run_step (lw_http w) (lw_decoders w) (lf_run s) ev rs"
    "from_outside ev \<or> lf_phase s = Live \<or> lf_phase s = Draining \<or> lf_phase s = Returned"
    "s' = s\<lparr>lf_run := rs, lf_phase := if ends_run ev then Draining else lf_phase s\<rparr>"
  then show ?thesis using life_inv_during by simp
next
  fix now
  assume inv: "life_inv w r s" "lw_launched w + boot_wait \<le> now" "lf_phase s = Opening"
    and s': "s' = s\<lparr>lf_phase := Live, lf_run := go_live now (lf_run s)\<rparr>"
  show ?thesis using inv runs_from_begin[OF life_inv_keeps(1,2)[OF inv(1)] inv(2)]
    by (simp add: life_inv_def s') (simp add: go_live_def run_begin_def)
next
  fix pev pc
  assume inv: "life_inv w r s" and s': "s' = s\<lparr>lf_pc := pc\<rparr>"
    and st: "pool_step (vm_count (rs_runner (lf_run s))) (vm_calls w (rs_runner (lf_run s)))
      (fleet_cancelled s) (lf_pc s) pev pc"
  then have "pool_step (vm_count r) (vm_calls w r) (fleet_cancelled s) (lf_pc s) pev pc"
    using life_inv_keeps[OF inv] by simp
  from pool_ok_step[OF _ this] pool_done_stays[of "vm_count r" "vm_calls w r"] this inv
  show ?thesis by (cases "lf_phase s") (auto simp: life_inv_def s')
next
  assume inv: "life_inv w r s" "lf_phase s = Draining" "s' = s\<lparr>lf_phase := Returned\<rparr>"
    "pool_done (vm_count (rs_runner (lf_run s))) (vm_calls w (rs_runner (lf_run s))) (lf_pc s)"
  then show ?thesis using life_inv_keeps[OF inv(1)] by (simp add: life_inv_def)
qed (auto simp: life_inv_def)

interpretation lives: step_invariant "life_step w" "life_inv w r"
  by unfold_locales (rule life_inv_step)

lemmas life_reaches = lives.steps_inv[OF _ life_inv_begin]

section \<open>The running phase\<close>

text \<open>
  From the moment the schedule is set the part of the state that holds faults, traffic and result is
  one that the transition system of theory \<open>RunLoop\<close> reaches from the same scenario and plan, so that
  all that is shown there of a run holds of a life.
\<close>

theorem life_refines_run:
  assumes "steps (life_step w) (life_begin r) evs s"
  shows "if lf_phase s \<in> {Live, Draining, Returned}
    then \<exists>r' t evs'. Scenario r' = Scenario r \<and> Plan r' = Plan r \<and> lw_launched w + boot_wait \<le> t \<and>
      steps (run_step (lw_http w) (lw_decoders w)) (run_begin r' t) evs' (lf_run s)
    else rs_injected (lf_run s) = [] \<and> rs_http (lf_run s) = [] \<and> rs_result (lf_run s) = None"
  using life_reaches[OF assms]
  by (cases "lf_phase s") (simp_all add: life_inv_def quiet_def runs_from_def)

text \<open>The faults of a life: all that theory \<open>RunLoop\<close> shows of a run, counted from the launch.\<close>

lemma life_faults_inv:
  assumes "steps (life_step w) (life_begin r) evs s" "lf_phase s \<in> {Live, Draining, Returned}"
  shows "\<exists>r' t. Scenario r' = Scenario r \<and> lw_launched w + boot_wait \<le> t \<and> faults_inv r' t (lf_run s)"
proof -
  have "runs_from w r (lf_run s)"
    using life_reaches[OF assms(1)] assms(2) by (auto simp: life_inv_def)
  then obtain r' t evs' where r': "Scenario r' = Scenario r" "lw_launched w + boot_wait \<le> t"
    and run: "steps (run_step (lw_http w) (lw_decoders w)) (run_begin r' t) evs' (lf_run s)"
    unfolding runs_from_def by (elim exE conjE)
  from injections.steps_inv[OF run faults_inv_begin] r' show ?thesis
    by (intro exI[of _ r'] exI[of _ t] conjI)
qed

lemma provisioned_before:
  assumes "steps (life_step w) s0 evs s" "lf_phase s \<notin> {Booting, Provisioning}"
  shows "lf_phase s0 \<notin> {Booting, Provisioning} \<or> (\<exists>arrivals. Provisioned arrivals \<in> set evs)"
  using assms
proof (induction rule: steps.induct)
  case (steps_Cons s e t es u)
  have "lf_phase s \<notin> {Booting, Provisioning} \<or> (\<exists>arrivals. e = Provisioned arrivals)"
    if "lf_phase t \<notin> {Booting, Provisioning}"
    by (rule life_step_cases[OF steps_Cons.hyps(1)])
       (use that in \<open>auto simp: ends_run_def from_outside_def split: if_splits run_event.splits\<close>)
  with steps_Cons show ?case by auto
qed simp

lemma life_injection:
  assumes "steps (life_step w) (life_begin r) evs s" "(f, now) \<in> set (rs_injected (lf_run s))"
  shows "f \<in> set (Faults (Scenario r)) \<and> fault_Triggers f = [] \<and> lf_phase s \<notin> {Booting, Provisioning} \<and>
    (\<exists>atDur. AtDuration f = Some atDur \<and> lw_launched w + boot_wait + atDur \<le> now)"
proof -
  have phase: "lf_phase s \<in> {Live, Draining, Returned}"
    using life_reaches[OF assms(1)] assms(2)
    by (cases "lf_phase s") (auto simp: life_inv_def quiet_def)
  from life_faults_inv[OF assms(1) this] obtain r' t where
    t: "Scenario r' = Scenario r" "lw_launched w + boot_wait \<le> t" and inv: "faults_inv r' t (lf_run s)"
    by (elim exE conjE)
  have "f \<in># claimed (lf_run s)" using assms(2) by (force simp: claimed_def)
  with inv schedule_mset have "f \<in># mset (filter (\<lambda>f. fault_Triggers f = []) (Faults (Scenario r')))"
    unfolding faults_inv_def by (meson mset_subset_eqD)
  moreover from inv assms(2) have "\<exists>atDur. AtDuration f = Some atDur \<and> t + atDur \<le> now"
    by (auto simp: faults_inv_def list_all_iff)
  ultimately show ?thesis using t phase by (auto intro: order_trans[OF add_right_mono])
qed

text \<open>
  C27. No fault before the machines had time to boot.  In every life of a run, whatever interleaves: a
  fault that is injected is one of the scenario's, has no trigger, comes no earlier than 8000000000
  nanoseconds after the launch of the machines plus the fault's own start time, and only after the
  provisioning of the machines has ended.
\<close>

theorem life_fault_times:
  assumes "steps (life_step w) (life_begin r) evs s" "(f, now) \<in> set (rs_injected (lf_run s))"
  shows "f \<in> set (Faults (Scenario r)) \<and> fault_Triggers f = [] \<and>
    (\<exists>atDur. AtDuration f = Some atDur \<and> lw_launched w + 8000000000 + atDur \<le> now) \<and>
    (\<exists>arrivals. Provisioned arrivals \<in> set evs)"
  using life_injection[OF assms] provisioned_before[OF assms(1)]
  by (auto simp: boot_wait_def life_begin_def)


section \<open>The machines\<close>

text \<open>
  C12. A run that has launched its machines returns when everything is given back.  (A dry run, and a
  run whose cloud-init images cannot be generated, return before that: \<open>Run_prologue\<close>.)  However the
  steps of the VMs' goroutines, the faults, the polls and the cancellation interleave: when \<open>Run\<close>,
  having launched its machines, has returned, it has reported completion or abortion, and every
  goroutine has stopped the machine it created and removed its copy of the root image.
\<close>

theorem run_returns_clean:
  assumes "steps (life_step w) (life_begin r) evs s" "lf_phase s = Returned"
  shows "rs_result (lf_run s) \<noteq> None \<and>
    list_all (\<lambda>i. vm_made w s i = vm_calls w r i \<and> owed cleanup_vm is_release [] (vm_made w s i) = Some [])
      [0..<vm_count r]"
proof -
  have inv: "life_inv w r s" by (rule life_reaches[OF assms(1)])
  have "owed cleanup_vm is_release [] (vm_calls w r i) = Some []" for i
    using run_vm_releases[of "lw_vm w i" "lw_base w" "lw_motd w" "VMs (Plan r) ! i"]
    unfolding vm_calls_def vm_run_def by (rule conjunct1)
  with inv assms(2) show ?thesis
    by (auto simp: life_inv_def list_all_iff vm_made_def life_inv_keeps(3)[OF inv] made_done)
qed

lemma patient_run_vm: "patient (run_vm d base motd e)"
proof -
  have send: "patient (send e what r)" for what r
    unfolding send_def by (rule patient_return)
  have boot: "patient (boot_entry d e cfg)" for cfg
    unfolding boot_entry_def by (auto intro!: patient_intros send)
  show ?thesis
    unfolding run_vm_def Let_def by (auto intro!: patient_intros send boot split: launch_reply.splits)
qed

text \<open>Cancellation of the fleet's context is final.\<close>

lemma fleet_cancelled_step:
  assumes inv: "life_inv w r s" and st: "life_step w s ev s'" and c: "fleet_cancelled s"
  shows "fleet_cancelled s'"
  using st
proof (rule life_step_cases)
  fix ev rs
  assume run: "run_step (lw_http w) (lw_decoders w) (lf_run s) ev rs"
    and s': "s' = s\<lparr>lf_run := rs, lf_phase := if ends_run ev then Draining else lf_phase s\<rparr>"
  from run have kept: "rs_cancelled (lf_run s) \<Longrightarrow> rs_cancelled rs"
    by (rule run_step_cases) (auto simp: run_step_defs Let_def split_beta)
  from c show ?thesis unfolding fleet_cancelled_def
  proof (elim disjE exE)
    fix msg assume "rs_result (lf_run s) = Some (True, msg)"
    with step_keeps(5)[OF run] have "rs_result rs = Some (True, msg)" by simp
    then show "rs_cancelled (lf_run s') \<or> (\<exists>txt. rs_result (lf_run s') = Some (True, txt))"
      by (simp add: s')
  qed (use kept in \<open>simp add: s'\<close>)
next
  fix now
  assume "lf_phase s = Opening" "s' = s\<lparr>lf_phase := Live, lf_run := go_live now (lf_run s)\<rparr>"
  then show ?thesis using c inv by (simp add: fleet_cancelled_def go_live_def life_inv_def quiet_def)
qed (use c in \<open>simp_all add: fleet_cancelled_def\<close>)

text \<open>While neither the context nor its machine has ended, a goroutine stays where it waits.\<close>

definition undisturbed :: "life_world \<Rightarrow> Runner \<Rightarrow> nat \<Rightarrow> life \<Rightarrow> bool" where
  "undisturbed w r i s \<longleftrightarrow> fleet_cancelled s \<or> \<not> has_waited (vm_calls w r) (lf_pc s) i"

lemma undisturbed_step:
  assumes inv: "life_inv w r s" and st: "life_step w s ev s'" and ev: "ev \<noteq> Goroutine (MachineEnds i)"
    and ok: "undisturbed w r i s"
  shows "undisturbed w r i s'"
proof (cases "fleet_cancelled s")
  case True
  from fleet_cancelled_step[OF inv st this] show ?thesis by (simp add: undisturbed_def)
next
  case False
  with ok have here: "\<not> has_waited (vm_calls w r) (lf_pc s) i" by (simp add: undisturbed_def)
  from st show ?thesis
  proof (rule life_step_cases)
    fix pev pc
    assume pev: "ev = Goroutine pev" and s': "s' = s\<lparr>lf_pc := pc\<rparr>"
      and "pool_step (vm_count (rs_runner (lf_run s))) (vm_calls w (rs_runner (lf_run s)))
        (fleet_cancelled s) (lf_pc s) pev pc"
    then have "pool_step (vm_count r) (vm_calls w r) False (lf_pc s) pev pc"
      using life_inv_keeps[OF inv] False by simp
    from stays_waiting[OF this _ here] ev pev s' show ?thesis by (simp add: undisturbed_def)
  qed (use here in \<open>simp_all add: undisturbed_def\<close>)
qed

lemma undisturbed_steps:
  assumes "steps (life_step w) s evs s'" "life_inv w r s" "Goroutine (MachineEnds i) \<notin> set evs"
    and "undisturbed w r i s"
  shows "undisturbed w r i s'"
  using assms
proof (induction rule: steps.induct)
  case (steps_Cons s e t es u)
  have "life_inv w r t" by (rule life_inv_step[OF steps_Cons.prems(1) steps_Cons.hyps(1)])
  moreover have "undisturbed w r i t"
    using undisturbed_step[OF steps_Cons.prems(1) steps_Cons.hyps(1) _ steps_Cons.prems(3)]
      steps_Cons.prems(2) by auto
  ultimately show ?case using steps_Cons.IH steps_Cons.prems(2) by simp
qed simp

text \<open>
  C28. The machines outlive the run.  As long as the run is neither complete nor cancelled and the
  machine of a VM has not ended by itself, the VM's goroutine stops no machine and removes no root
  image, once it can launch its machine.
\<close>

theorem machines_outlive_run:
  assumes "steps (life_step w) (life_begin r) evs s" "Goroutine (MachineEnds i) \<notin> set evs"
    and "\<not> fleet_cancelled s" "list_ex waiting (vm_calls w r i)"
  shows "list_all (\<lambda>(c, reply). \<not> is_release c) (vm_made w s i)"
proof -
  have inv: "life_inv w r s" by (rule life_reaches[OF assms(1)])
  have "undisturbed w r i s"
    by (rule undisturbed_steps[OF assms(1) life_inv_begin assms(2)])
       (simp add: undisturbed_def life_begin_def)
  with assms(3) have "\<not> has_waited (vm_calls w r) (lf_pc s) i" by (simp add: undisturbed_def)
  moreover have "waits_first (vm_calls w r i)"
    unfolding vm_calls_def vm_run_def by (rule patient_run[OF patient_run_vm])
  ultimately show ?thesis
    using assms(4) unfolding vm_made_def life_inv_keeps(3)[OF inv]
    by (intro made_before_waiting) (simp_all add: waits_first_def)
qed


section \<open>The end of a run\<close>

text \<open>
  The events a run needs no help for: no machine ends by itself, nobody asks for hints or scores,
  no timer but the sleep fires and no objective is met.
\<close>

definition unaided :: "life_event \<Rightarrow> bool" where
  "unaided ev = (case ev of Goroutine (MachineEnds _) \<Rightarrow> False | During (Aborted _) \<Rightarrow> True | During _ \<Rightarrow> False | _ \<Rightarrow> True)"

definition can_reach :: "life_world \<Rightarrow> life \<Rightarrow> (life \<Rightarrow> bool) \<Rightarrow> bool" where
  "can_reach w s P \<longleftrightarrow> (\<exists>evs s'. steps (life_step w) s evs s' \<and> list_all unaided evs \<and> P s')"

lemma can_reach_now: "P s \<Longrightarrow> can_reach w s P"
  unfolding can_reach_def by (intro exI[of _ "[]"] exI[of _ s]) (simp add: steps_Nil)

lemma can_reach_step:
  assumes "life_step w s ev t" "unaided ev" "can_reach w t P"
  shows "can_reach w s P"
proof -
  from assms(3) obtain evs s' where more: "steps (life_step w) t evs s'" "list_all unaided evs" "P s'"
    unfolding can_reach_def by (elim exE conjE)
  have "steps (life_step w) s (ev # evs) s'" by (rule steps_Cons) (rule assms(1), rule more(1))
  with assms(2) more(2,3) show ?thesis
    unfolding can_reach_def by (intro exI[of _ "ev # evs"] exI[of _ s']) simp
qed

lemma can_reach_trans:
  assumes "can_reach w s P" "\<And>t evs. steps (life_step w) s evs t \<Longrightarrow> P t \<Longrightarrow> can_reach w t Q"
  shows "can_reach w s Q"
proof -
  from assms(1) obtain evs t where t: "steps (life_step w) s evs t" "list_all unaided evs" "P t"
    unfolding can_reach_def by (elim exE conjE)
  from assms(2)[OF t(1,3)] obtain evs' u
    where "steps (life_step w) t evs' u" "list_all unaided evs'" "Q u"
    unfolding can_reach_def by (elim exE conjE)
  with t steps_append[OF t(1)] show ?thesis
    unfolding can_reach_def by (intro exI[of _ "evs @ evs'"] exI[of _ u]) simp
qed

text \<open>
  Once the result is printed and the context of the fleet has ended, the goroutines of the VMs
  come to their end and the run returns.
\<close>

lemma drains:
  assumes "life_inv w r s" "fleet_cancelled s" "lf_phase s = Draining"
  shows "can_reach w s (\<lambda>s'. lf_phase s' = Returned \<and> lf_run s' = lf_run s)"
  using assms
proof (induction "calls_left (vm_count r) (vm_calls w r) (lf_pc s)" arbitrary: s rule: less_induct)
  case less
  note k = life_inv_keeps(2,3)[OF less.prems(1)]
  show ?case
  proof (cases "pool_done (vm_count r) (vm_calls w r) (lf_pc s)")
    case True
    then have "life_step w s Return (s\<lparr>lf_phase := Returned\<rparr>)"
      by (intro life_return) (use less.prems(3) k in simp_all)
    then show ?thesis by (rule can_reach_step) (simp_all add: unaided_def can_reach_now)
  next
    case False
    have "pool_ok (vm_calls w r) (lf_pc s)" using less.prems(1) by (simp add: life_inv_def)
    from pool_progress[OF this False] obtain i pc
      where pc: "pool_step (vm_count r) (vm_calls w r) True (lf_pc s) (Call i) pc"
        "calls_left (vm_count r) (vm_calls w r) pc < calls_left (vm_count r) (vm_calls w r) (lf_pc s)"
      by blast
    let ?t = "s\<lparr>lf_pc := pc\<rparr>"
    have one: "life_step w s (Goroutine (Call i)) ?t"
      by (rule life_goroutine) (use pc(1) k less.prems(2) in simp)
    have "fleet_cancelled ?t" using less.prems(2) by (simp add: fleet_cancelled_def)
    from less.hyps[OF _ life_inv_step[OF less.prems(1) one] this] pc(2) less.prems(3)
    have "can_reach w ?t (\<lambda>s'. lf_phase s' = Returned \<and> lf_run s' = lf_run s)" by simp
    from can_reach_step[OF one _ this] show ?thesis by (simp add: unaided_def)
  qed
qed

lemma opens:
  assumes "lf_phase s = Opening" "rs_cancelled (lf_run s)"
  shows "can_reach w s (\<lambda>s'. lf_phase s' = Live \<and> rs_cancelled (lf_run s'))"
proof -
  let ?now = "lw_launched w + boot_wait"
  let ?live = "\<lambda>s. s\<lparr>lf_phase := Live, lf_run := go_live ?now (lf_run s)\<rparr>"
  let ?wanted = "\<lambda>s. lw_terminal w \<and> 0 < opt_WebPort (run_opts (rs_runner (lf_run s)))"
  have go: "can_reach w s (\<lambda>s'. lf_phase s' = Live \<and> rs_cancelled (lf_run s'))"
    if "lf_phase s = Opening" "rs_cancelled (lf_run s)" "lf_terminal s \<noteq> None \<or> \<not> ?wanted s" for s
  proof (rule can_reach_step)
    show "life_step w s (GoLive ?now) (?live s)" by (rule life_go_live[OF that(1) order_refl that(3)])
  qed (use that(2) in \<open>simp_all add: unaided_def can_reach_now go_live_def\<close>)
  show ?thesis
  proof (cases "lf_terminal s \<noteq> None \<or> \<not> ?wanted s")
    case False
    then have none: "lf_terminal s = None" and wanted: "lw_terminal w"
        "0 < opt_WebPort (run_opts (rs_runner (lf_run s)))" by blast+
    show ?thesis
    proof (rule can_reach_step)
      show "life_step w s TerminalStarts (s\<lparr>lf_terminal :=
          Some (TotalVMs (Plan (rs_runner (lf_run s))), opt_WebPort (run_opts (rs_runner (lf_run s))))\<rparr>)"
        by (rule life_terminal[OF assms(1) none wanted])
    qed (use assms in \<open>simp_all add: unaided_def go\<close>)
  qed (use assms go in blast)
qed

lemma provisions:
  assumes "lf_phase s = Provisioning" "rs_cancelled (lf_run s)"
  shows "can_reach w s (\<lambda>s'. lf_phase s' = Live \<and> rs_cancelled (lf_run s'))"
  using life_provisioned[OF assms(1) refl]
  by (rule can_reach_step) (use assms in \<open>simp_all add: unaided_def opens\<close>)

lemma wakes:
  assumes "lf_phase s = Booting" "rs_cancelled (lf_run s)"
  shows "can_reach w s (\<lambda>s'. lf_phase s' = Live \<and> rs_cancelled (lf_run s'))"
  using life_wake[OF assms(1) order_refl]
  by (rule can_reach_step) (use assms in \<open>simp_all add: unaided_def provisions\<close>)

lemma aborts:
  assumes "life_inv w r s" "lf_phase s = Live" "rs_cancelled (lf_run s)"
  shows "can_reach w s (\<lambda>s'. lf_phase s' = Draining \<and> fleet_cancelled s')"
proof -
  have "rs_result (lf_run s) = None" using assms(1,2) by (simp add: life_inv_def)
  from step_aborted[OF this assms(3) refl, of "lw_http w" "lw_decoders w" 0]
  have "life_step w s (During (Aborted 0)) (s\<lparr>lf_run := (lf_run s)\<lparr>
      rs_runner := set_elapsed 0 (rs_runner (lf_run s)),
      rs_result := Some (False, printResult False (set_elapsed 0 (rs_runner (lf_run s))))\<rparr>,
    lf_phase := if ends_run (Aborted 0) then Draining else lf_phase s\<rparr>)"
    by (intro life_during disjI2 disjI1 assms(2))
  then show ?thesis
    by (rule can_reach_step)
       (use assms(3) in \<open>simp_all add: unaided_def can_reach_now ends_run_def fleet_cancelled_def\<close>)
qed

text \<open>
  C13. A run can always end.  From every state of every run in which the fleet's context has ended,
  be it by the caller's cancellation at any moment, during the boot or later, or by completion,
  the steps the run makes by itself lead to its return, with no machine having to end and no agent
  or user having to act.  Provisioning is one step here: its SSH commands, which look at no context,
  are taken to answer.
\<close>

theorem run_can_return:
  assumes "steps (life_step w) (life_begin r) evs s" "fleet_cancelled s"
  shows "\<exists>more s'. steps (life_step w) s more s' \<and> list_all unaided more \<and> lf_phase s' = Returned"
proof -
  note inv = life_reaches[OF assms(1)]
  let ?R = "\<lambda>s. can_reach w s (\<lambda>s'. lf_phase s' = Returned)"
  have drain: "?R t" if "life_inv w r t" "lf_phase t = Draining" "fleet_cancelled t" for t
    using drains[OF that(1,3,2)] by (rule can_reach_trans) (simp add: can_reach_now)
  have live: "?R t" if "life_inv w r t" "lf_phase t = Live" "rs_cancelled (lf_run t)" for t
    using aborts[OF that] by (rule can_reach_trans) (use drain lives.steps_inv that(1) in blast)
  have early: "?R s" if "can_reach w s (\<lambda>s'. lf_phase s' = Live \<and> rs_cancelled (lf_run s'))"
    using that by (rule can_reach_trans) (use live lives.steps_inv inv in blast)
  have "rs_cancelled (lf_run s)" if "lf_phase s \<notin> {Draining, Returned}"
    using that assms(2) inv by (cases "lf_phase s") (auto simp: fleet_cancelled_def life_inv_def quiet_def)
  with early wakes provisions opens live drain inv assms(2) have "?R s"
    by (cases "lf_phase s") (simp_all add: can_reach_now)
  then show ?thesis by (simp add: can_reach_def)
qed

section \<open>Faults that come too late\<close>

lemma allocate_cong:
  "used_set m = used_set m' \<Longrightarrow> fst (allocateVMIDs m n) = fst (allocateVMIDs m' n)"
proof -
  assume "used_set m = used_set m'"
  then have "is_used m = is_used m'" by (auto simp: used_set_def fun_eq_iff)
  then have "alloc_loop m n ids c = alloc_loop m' n ids c" for ids c
    by (induction m n ids c rule: alloc_loop.induct) (subst (1 2) alloc_loop.simps, simp)
  then show ?thesis by (simp add: allocateVMIDs_def Let_def)
qed

text \<open>Identifiers given back are the next to be handed out.\<close>

lemma released_ids_return:
  "fst (allocateVMIDs (releaseVMIDs (snd (allocateVMIDs m n)) (fst (allocateVMIDs m n))) n) =
   fst (allocateVMIDs m n)"
proof (rule allocate_cong)
  obtain d where "fst (allocateVMIDs m n) = free_below m d" by (rule allocate_free_below)
  then show "used_set (releaseVMIDs (snd (allocateVMIDs m n)) (fst (allocateVMIDs m n))) = used_set m"
    by (auto simp: used_release used_allocate in_free_below)
qed

definition late_fault :: Fault where
  "late_fault = sample_fault\<lparr>fault_At := ''10m''\<rparr>"

definition late_scenario :: Scenario where
  "late_scenario = sample_scenario\<lparr>Objectives := [web_objective], Faults := [late_fault]\<rparr>"

definition late_runner :: "int list \<Rightarrow> Runner" where
  "late_runner ids = (sample_runner ids)\<lparr>Scenario := late_scenario\<rparr>"

lemma late_runner: "NewRunner late_scenario (sample_opts ids) = Inr (late_runner ids)"
proof -
  have "BuildVMPlan late_scenario fmempty fmempty ids = Inr (sample_plan ids)"
    using sample_plan[of ids] by (simp add: BuildVMPlan_def late_scenario_def)
  then show ?thesis
    by (simp add: NewRunner_def late_runner_def sample_runner_def sample_opts_def sample_plan)
       (simp add: late_scenario_def)
qed

lemma late_at: "AtDuration late_fault = Some (600 * Second)"
  using ParseDuration_whole[of "''m''" 60000000000 10]
  by (simp add: late_fault_def AtDuration_def show_base.simps digit_table_def unit_of_def)

lemma late_checks: "fst (run_state (checkAllObjectives always_ok no_decoders (late_runner ids)) tr)"
  by (simp add: late_runner_def late_scenario_def checkAllObjectives_def checkObjective_def web_objective_def
      sample_objective_def Plan_sample_runner ResolveTargets_def sample_target_def sample_ByTier
      check_vm_def run_state_bind run_state_return always_ok_def Let_def)

definition calm_world :: life_world where
  "calm_world = \<lparr>lw_base = DefaultConfig, lw_motd = '''', lw_launched = 0, lw_terminal = False,
     lw_vm = (\<lambda>_ _ _. Ok ''rootfs''), lw_ssh = (\<lambda>_ _ _. SOk), lw_http = always_ok,
     lw_decoders = no_decoders\<rparr>"

lemma late_targets:
  "ResolveTargets (fault_Target late_fault) (Plan (late_runner ids)) = Inr [0, 1]"
  by (simp add: ResolveTargets_def late_fault_def sample_fault_def sample_target_def late_runner_def
      Plan_sample_runner sample_ByTier)

text \<open>The run of the sample: it boots, provisions, goes live and completes at its first poll.\<close>

lemma calm_run:
  obtains s where
    "steps (life_step calm_world) (life_begin (late_runner ids))
      [WakeUp (8 * Second), Provisioned (VMs (sample_plan ids)), GoLive (8 * Second),
       During (Tick (18 * Second)), During (Completed (18 * Second))] s"
    "lf_phase s = Draining" "fleet_cancelled s" "rs_pending (lf_run s) = [(late_fault, 600 * Second)]"
    "startAt (rs_runner (lf_run s)) = Some (8 * Second)" "Plan (rs_runner (lf_run s)) = sample_plan ids"
    "set (rs_http (lf_run s)) \<subseteq> {(c, reply). case c of Get url \<Rightarrow> True | _ \<Rightarrow> False}"
proof -
  let ?w = calm_world and ?T = "8 * Second" and ?U = "18 * Second" and ?r = "late_runner ids"
  have plan: "Plan ?r = sample_plan ids" by (simp add: late_runner_def Plan_sample_runner)
  have w: "lw_launched ?w + boot_wait = ?T" "\<not> lw_terminal ?w" "lw_http ?w = always_ok"
    "lw_decoders ?w = no_decoders" by (simp_all add: calm_world_def boot_wait_def)
  define s1 where "s1 = (life_begin ?r)\<lparr>lf_phase := Provisioning\<rparr>"
  define s2 where "s2 = s1\<lparr>lf_phase := Opening,
    lf_warning := provisionAll (lw_ssh ?w) (rs_runner (lf_run s1)) (VMs (sample_plan ids))\<rparr>"
  define s3 where "s3 = s2\<lparr>lf_phase := Live, lf_run := go_live ?T (lf_run s2)\<rparr>"
  define p where "p = poll always_ok no_decoders ?U (lf_run s3)"
  define s4 where "s4 = s3\<lparr>lf_run := p, lf_phase := if ends_run (Tick ?U) then Draining else lf_phase s3\<rparr>"
  define q where "q = p\<lparr>rs_runner := set_final ?U (rs_runner p),
    rs_result := Some (True, printResult True (set_final ?U (rs_runner p)))\<rparr>"
  define s5 where "s5 = s4\<lparr>lf_run := q, lf_phase := if ends_run (Completed ?U) then Draining else lf_phase s4\<rparr>"
  have run1: "lf_run s1 = lf_run (life_begin ?r)" "lf_run s2 = lf_run (life_begin ?r)"
    by (simp_all add: s1_def s2_def)
  have live: "lf_run s3 = run_begin ?r ?T"
    by (simp add: s3_def run1 go_live_def life_begin_def run_begin_def)
  have same: "checkAllObjectives always_ok no_decoders (set_elapsed ?U (rs_runner (run_begin ?r ?T))) =
      checkAllObjectives always_ok no_decoders ?r"
    by (rule check_all_cong) (simp_all add: run_begin_def set_elapsed_def)
  have p: "rs_done p" "rs_result p = None" "rs_pending p = schedule [late_fault]"
    "startAt (rs_runner p) = Some ?T" "Plan (rs_runner p) = sample_plan ids"
    "rs_http p = snd (run_state (checkAllObjectives always_ok no_decoders ?r) [])"
    using late_checks same plan
    by (simp_all add: p_def live poll_def Let_def split_beta run_begin_def set_elapsed_def
        late_runner_def late_scenario_def)
  have e1: "life_step ?w (life_begin ?r) (WakeUp ?T) s1"
    unfolding s1_def by (rule life_wake) (simp_all add: w life_begin_def)
  have e2: "life_step ?w s1 (Provisioned (VMs (sample_plan ids))) s2"
    unfolding s2_def by (rule life_provisioned) (simp_all add: run1 life_begin_def plan s1_def)
  have e3: "life_step ?w s2 (GoLive ?T) s3"
    unfolding s3_def by (rule life_go_live) (simp_all add: w s2_def)
  have "run_step always_ok no_decoders (lf_run s3) (Tick ?U) p"
    unfolding p_def by (rule step_tick) (simp add: live run_begin_def)
  then have e4: "life_step ?w s3 (During (Tick ?U)) s4"
    unfolding s4_def by (intro life_during) (simp_all add: w, simp add: s3_def)
  have "run_step always_ok no_decoders p (Completed ?U) q"
    unfolding q_def by (rule step_completed[OF p(2,1) refl])
  then have e5: "life_step ?w s4 (During (Completed ?U)) s5"
    unfolding s5_def by (intro life_during) (simp_all add: w s4_def ends_run_def, simp add: s3_def)
  have "steps (life_step ?w) (life_begin ?r)
      [WakeUp ?T, Provisioned (VMs (sample_plan ids)), GoLive ?T, During (Tick ?U), During (Completed ?U)] s5"
    by (rule steps_Cons, rule e1, rule steps_Cons, rule e2, rule steps_Cons, rule e3,
        rule steps_Cons, rule e4, rule steps_one, rule e5)
  moreover have "schedule [late_fault] = [(late_fault, 600 * Second)]"
    using late_at by (simp add: late_fault_def sample_fault_def)
  moreover have "set (rs_http p) \<subseteq> {(c, reply). case c of Get url \<Rightarrow> True | _ \<Rightarrow> False}"
    using emits_checks[of always_ok no_decoders ?r] unfolding emits_def p(6)
    by (metis (no_types, lifting) Collect_cong Un_empty_left empty_set)
  ultimately show ?thesis
    using p by (intro that[of s5]) (simp_all add: s5_def ends_run_def q_def fleet_cancelled_def set_final_def)
qed

text \<open>
  C14. A completed run leaves its faults behind.  In this run the objectives are met before the last
  fault is due.  \<open>Run\<close> returns, its identifiers are given back and handed out again, and a run
  with a plan over them starts; then the timer of the first run's fault fires, and the fault is
  posted to the agents of the second run's VMs.
\<close>

theorem late_fault_hits_next_run:
  "\<exists>ids m evs s s' reply.
    allocateVMIDs fmempty 3 = (ids, m) \<and> NewRunner late_scenario (sample_opts ids) = Inr (late_runner ids) \<and>
    steps (life_step calm_world) (life_begin (late_runner ids)) evs s \<and> lf_phase s = Returned \<and>
    fst (allocateVMIDs (releaseVMIDs m ids) 3) = ids \<and>
    NewRunner sample_scenario (sample_opts ids) = Inr (sample_runner ids) \<and>
    life_step calm_world s (During (FaultDue late_fault (600 * Second) (608 * Second))) s' \<and>
    rs_http (lf_run s') = rs_http (lf_run s) @
      map (\<lambda>e. (PostStart (AgentURL e @ ''/fault/start'') (fault_request late_fault), reply))
        (take 2 (VMs (Plan (sample_runner ids))))"
proof -
  define ids where "ids = fst (allocateVMIDs fmempty 3)"
  define m where "m = snd (allocateVMIDs fmempty 3)"
  let ?w = calm_world and ?r = "late_runner ids"
  obtain s where s: "steps (life_step ?w) (life_begin ?r)
      [WakeUp (8 * Second), Provisioned (VMs (sample_plan ids)), GoLive (8 * Second),
       During (Tick (18 * Second)), During (Completed (18 * Second))] s"
    "lf_phase s = Draining" "fleet_cancelled s" "rs_pending (lf_run s) = [(late_fault, 600 * Second)]"
    "startAt (rs_runner (lf_run s)) = Some (8 * Second)" "Plan (rs_runner (lf_run s)) = sample_plan ids"
    by (rule calm_run)
  from drains[OF life_reaches[OF s(1)] s(3,2)] obtain more t
    where t: "steps (life_step ?w) s more t" "lf_phase t = Returned" "lf_run t = lf_run s"
    unfolding can_reach_def by (elim exE conjE)
  let ?ev = "FaultDue late_fault (600 * Second) (608 * Second)"
  define rs where "rs = fire_fault always_ok late_fault (600 * Second) (608 * Second) (lf_run t)"
  define u where "u = t\<lparr>lf_run := rs, lf_phase := if ends_run ?ev then Draining else lf_phase t\<rparr>"
  have "run_step always_ok no_decoders (lf_run t) ?ev rs"
    unfolding rs_def by (rule step_fault[where ?t0.0 = "8 * Second"]) (simp_all add: t s(4,5))
  then have fire: "life_step ?w t (During ?ev) u"
    unfolding u_def by (intro life_during) (simp_all add: t calm_world_def)
  have targets: "ResolveTargets (fault_Target late_fault) (Plan (rs_runner (lf_run t))) = Inr [0, 1]"
    using late_targets[of ids] by (simp add: t s late_runner_def Plan_sample_runner)
  have "rs_http rs = rs_http (lf_run t) @
      map (\<lambda>e. (PostStart (AgentURL e @ ''/fault/start'') (fault_request late_fault), Response 200 ''''))
        (take 2 (VMs (sample_plan ids)))"
    using targets unfolding rs_def
    by (simp add: fire_fault_def split_beta injectFault_def run_state_bind run_state_return always_ok_def
        t s sample_VMs)
  then have http: "rs_http (lf_run u) = rs_http (lf_run t) @
      map (\<lambda>e. (PostStart (AgentURL e @ ''/fault/start'') (fault_request late_fault), Response 200 ''''))
        (take 2 (VMs (Plan (sample_runner ids))))"
    by (simp add: u_def Plan_sample_runner)
  have again: "fst (allocateVMIDs (releaseVMIDs m ids) 3) = ids"
    unfolding ids_def m_def by (rule released_ids_return)
  have first: "allocateVMIDs fmempty 3 = (ids, m)" by (simp add: ids_def m_def)
  obtain evs where run: "steps (life_step ?w) (life_begin ?r) evs t"
    using steps_append[OF s(1) t(1)] by blast
  show ?thesis
    by (rule exI[of _ ids], rule exI[of _ m], rule exI[of _ evs], rule exI[of _ t], rule exI[of _ u],
        rule exI[of _ "Response 200 ''''"], intro conjI first late_runner run t(2) again sample_runner fire http)
qed

section \<open>Concrete lives\<close>

lemma calm_returned:
  obtains evs s where "steps (life_step calm_world) (life_begin (late_runner ids)) evs s" "lf_phase s = Returned"
    "Plan (rs_runner (lf_run s)) = sample_plan ids"
proof -
  obtain s evs where s: "steps (life_step calm_world) (life_begin (late_runner ids)) evs s"
    "lf_phase s = Draining" "fleet_cancelled s" "Plan (rs_runner (lf_run s)) = sample_plan ids"
    by (rule calm_run)
  from drains[OF life_reaches[OF s(1)] s(3,2)] obtain more t
    where t: "steps (life_step calm_world) s more t" "lf_phase t = Returned" "lf_run t = lf_run s"
    unfolding can_reach_def by (elim exE conjE)
  have "steps (life_step calm_world) (life_begin (late_runner ids)) (evs @ more) t"
    by (rule steps_append) (rule s(1), rule t(1))
  then show ?thesis by (rule that) (simp_all add: t s(4))
qed

theorem life_fault_times_witness:
  "\<exists>evs s. steps (life_step calm_world) (life_begin (late_runner [4, 5, 6])) evs s \<and>
    (late_fault, 608 * Second) \<in> set (rs_injected (lf_run s)) \<and> late_fault \<in> set (Faults late_scenario) \<and>
    (\<exists>arrivals. Provisioned arrivals \<in> set evs)"
proof -
  obtain evs s where s: "steps (life_step calm_world) (life_begin (late_runner [4, 5, 6])) evs s"
    "lf_phase s = Draining" "rs_pending (lf_run s) = [(late_fault, 600 * Second)]"
    "startAt (rs_runner (lf_run s)) = Some (8 * Second)"
    by (rule calm_run)
  let ?ev = "FaultDue late_fault (600 * Second) (608 * Second)"
  define rs where "rs = fire_fault always_ok late_fault (600 * Second) (608 * Second) (lf_run s)"
  define u where "u = s\<lparr>lf_run := rs, lf_phase := if ends_run ?ev then Draining else lf_phase s\<rparr>"
  have "run_step always_ok no_decoders (lf_run s) ?ev rs"
    unfolding rs_def by (rule step_fault[where ?t0.0 = "8 * Second"]) (simp_all add: s)
  then have "life_step calm_world s (During ?ev) u"
    unfolding u_def by (intro life_during) (simp_all add: s calm_world_def)
  from steps_snoc[OF s(1) this] have
    run: "steps (life_step calm_world) (life_begin (late_runner [4, 5, 6])) (evs @ [During ?ev]) u" .
  have inj: "(late_fault, 608 * Second) \<in> set (rs_injected (lf_run u))"
    by (simp add: u_def rs_def fire_fault_def split_beta)
  have "Faults (Scenario (late_runner [4, 5, 6])) = Faults late_scenario" by (simp add: late_runner_def)
  with life_fault_times[OF run inj] have "late_fault \<in> set (Faults late_scenario)"
    "\<exists>arrivals. Provisioned arrivals \<in> set (evs @ [During ?ev])" by (simp_all only:)
  with run inj show ?thesis by blast
qed

theorem run_returns_clean_witness:
  "\<exists>s. lf_phase s = Returned \<and> rs_result (lf_run s) \<noteq> None \<and>
    owed cleanup_vm is_release [] (vm_made calm_world s 2) = Some []"
proof -
  obtain evs s where run: "steps (life_step calm_world) (life_begin (late_runner [4, 5, 6])) evs s"
    "lf_phase s = Returned"
    by (rule calm_returned)
  have "2 \<in> set [0..<vm_count (late_runner [4, 5, 6])]"
    by (simp add: late_runner_def Plan_sample_runner sample_total)
  with run_returns_clean[OF run] run(2) show ?thesis
    unfolding list_all_iff by (intro exI[of _ s]) blast
qed

lemma calm_calls:
  assumes "i < 3"
  shows "vm_run calm_world (late_runner ids) i =
    (None, map (\<lambda>c. (c, Ok ''rootfs''))
      (let e = VMs (sample_plan ids) ! i; k = (entry_config DefaultConfig e)\<lparr>RootFSPath := ''rootfs''\<rparr> in
       [DepEnsureTAP (vm_Index e), DepPrepareRootFS (RootFSPath DefaultConfig) (vm_Index e) (entry_disk DefaultConfig e),
        DepFactory k, VMStart, VMWait, VMStop, OsRemove ''rootfs'']))"
  by (simp add: vm_run_def run_vm_def boot_entry_def calm_world_def Let_def run_state_bind run_state_return
      run_with_defer late_runner_def Plan_sample_runner)

theorem machines_outlive_run_witness:
  "\<exists>s. steps (life_step calm_world) (life_begin (late_runner [4, 5, 6])) (replicate 4 (Goroutine (Call 0))) s \<and>
    map fst (vm_made calm_world s 0) = [DepEnsureTAP 4, DepPrepareRootFS (RootFSPath DefaultConfig) 4 (RootFSSizeMiB DefaultConfig),
      DepFactory ((entry_config DefaultConfig (VMs (sample_plan [4, 5, 6]) ! 0))\<lparr>RootFSPath := ''rootfs''\<rparr>), VMStart] \<and>
    list_all (\<lambda>(c, reply). \<not> is_release c) (vm_made calm_world s 0)"
proof -
  let ?r = "late_runner [4, 5, 6]" and ?w = calm_world
  define pos where "pos k = (life_begin ?r)\<lparr>lf_pc := (\<lambda>_. 0)(0 := k)\<rparr>" for k
  have run: "rs_runner (lf_run (pos k)) = ?r" "lf_pc (pos k) 0 = k" for k
    by (simp_all add: pos_def life_begin_def)
  have n: "length (VMs (Plan ?r)) = 3" by (simp add: late_runner_def Plan_sample_runner sample_total)
  have calls: "vm_calls ?w ?r 0 = snd (vm_run ?w ?r 0)" by (simp add: vm_calls_def)
  have call: "life_step ?w (pos k) (Goroutine (Call 0)) (pos (Suc k))" if "k < 4" for k
  proof -
    have "fst (vm_calls ?w ?r 0 ! k) \<noteq> VMWait" "k < length (vm_calls ?w ?r 0)"
      using that unfolding calls by (auto simp: calm_calls Let_def less_Suc_eq numeral_eq_Suc)
    then have "pool_step (vm_count ?r) (vm_calls ?w ?r) c (lf_pc (pos k)) (Call 0)
        ((lf_pc (pos k))(0 := Suc (lf_pc (pos k) 0)))" for c
      by (intro pool_call) (simp_all add: run n call_at_def)
    from life_goroutine[of "pos k" ?w "Call 0", unfolded run, OF this]
    have "life_step ?w (pos k) (Goroutine (Call 0)) (pos k\<lparr>lf_pc := (lf_pc (pos k))(0 := Suc k)\<rparr>)"
      by (simp add: run)
    moreover have "pos k\<lparr>lf_pc := (lf_pc (pos k))(0 := Suc k)\<rparr> = pos (Suc k)"
      by (simp add: pos_def life_begin_def)
    ultimately show ?thesis by simp
  qed
  have st: "steps (life_step ?w) (life_begin ?r) (replicate 4 (Goroutine (Call 0))) (pos 4)"
  proof -
    have "steps (life_step ?w) (pos 0) [Goroutine (Call 0), Goroutine (Call 0), Goroutine (Call 0), Goroutine (Call 0)]
        (pos (Suc (Suc (Suc (Suc 0)))))"
      by (rule steps_Cons, rule call, simp, rule steps_Cons, rule call, simp, rule steps_Cons, rule call, simp,
          rule steps_one, rule call, simp)
    moreover have "pos 0 = life_begin ?r" by (simp add: pos_def life_begin_def fun_upd_idem)
    ultimately show ?thesis by (simp add: numeral_eq_Suc)
  qed
  have made: "vm_made ?w (pos 4) 0 = take 4 (snd (vm_run ?w ?r 0))"
    by (simp add: vm_made_def made_def run calls)
  have "list_all (\<lambda>(c, reply). \<not> is_release c) (vm_made ?w (pos 4) 0)"
    by (rule machines_outlive_run[OF st]) (simp_all add: fleet_cancelled_def pos_def life_begin_def calls calm_calls Let_def waiting_def)
  with st show ?thesis
    by (intro exI[of _ "pos 4"])
       (simp add: made calm_calls Let_def sample_VMs vm_entry_def sample_tier_def entry_disk_def)
qed

theorem run_can_return_witness:
  "\<exists>more s'. steps (life_step calm_world) (life_begin (late_runner [])) (During CtxCancelled # more) s' \<and>
    list_all unaided more \<and> lf_phase s' = Returned"
proof -
  let ?b = "life_begin (late_runner [])"
  let ?s = "?b\<lparr>lf_run := (lf_run ?b)\<lparr>rs_cancelled := True\<rparr>,
    lf_phase := if ends_run CtxCancelled then Draining else lf_phase ?b\<rparr>"
  have one: "life_step calm_world ?b (During CtxCancelled) ?s"
    by (intro life_during step_cancel) (simp add: from_outside_def)
  have "steps (life_step calm_world) ?b [During CtxCancelled] ?s" by (rule steps_one) (rule one)
  moreover have "fleet_cancelled ?s" by (simp add: fleet_cancelled_def)
  ultimately have "\<exists>more s'. steps (life_step calm_world) ?s more s' \<and> list_all unaided more \<and> lf_phase s' = Returned"
    by (rule run_can_return)
  then obtain more s' where rest: "steps (life_step calm_world) ?s more s'" "list_all unaided more"
    "lf_phase s' = Returned" by (elim exE conjE)
  have "steps (life_step calm_world) ?b (During CtxCancelled # more) s'"
    by (rule steps_Cons) (rule one, rule rest(1))
  with rest(2,3) show ?thesis by (intro exI[of _ more] exI[of _ s'] conjI)
qed

end
