(* ===== verification/ApiServer.thy ===== *)
theory ApiServer
  imports VMIDs VMConfig Runner
begin

text \<open>
  The state of the REST server (\<open>src/api/server.go\<close>) and the vocabulary of its handlers.  A handler
  is a function from the server's state to a response and the new state, one call for each
  section it runs under the server's mutex.  What comes from outside is an argument: the decoded
  request body (\<open>None\<close> if the JSON decoder fails), the fresh UUID, the clock, and the order in
  which a Go map is iterated.

  The \<open>cancel\<close> function of an entry cancels the context of its goroutine; the flag
  \<open>cancelled\<close> records it.

  Shown: the total number of VMs does not depend on the iteration order.
\<close>

record VMStatus =
  vs_ID :: int
  vs_IP :: string

record FleetEntry =
  fleet_ID :: string
  fleet_Count :: int
  fleet_Status :: string
  fleet_VMs :: "VMStatus list"
  fleet_WebPort :: int
  fleet_CreatedAt :: int
  fleet_vmIDs :: "int list"
  fleet_cancelled :: bool

record ScenarioEntry =
  scen_ID :: string
  scen_Title :: string
  scen_File :: string
  scen_Status :: string
  scen_Score :: int
  scen_Elapsed :: string
  scen_HintsUsed :: int
  scen_VMs :: "VMStatus list"
  scen_CreatedAt :: int
  scen_runner :: "Runner option"
  scen_cancelled :: bool
  scen_startAt :: int

record Server =
  fleets :: "(string, FleetEntry) fmap"
  scenarios :: "(string, ScenarioEntry) fmap"
  baseCfg :: config
  usedIDs :: id_map

definition NewServer :: "config \<Rightarrow> Server" where
  "NewServer cfg = \<lparr>fleets = fmempty, scenarios = fmempty, baseCfg = cfg, usedIDs = fmempty\<rparr>"

definition vm_statuses :: "int list \<Rightarrow> VMStatus list" where
  "vm_statuses vmIDs = map (\<lambda>i. \<lparr>vs_ID = i, vs_IP = ''172.16.'' @ fmt_d i @ ''.2''\<rparr>) vmIDs"



record hintResponse =
  hr_Hint :: string
  hr_Score :: int

datatype payload =
    ErrorText string
  | FleetBody FleetEntry
  | FleetList "FleetEntry list"
  | ScenarioBody ScenarioEntry
  | ScenarioList "ScenarioEntry list"
  | HintBody hintResponse
  | RawBody string
  | NoBody

datatype response = Resp int payload

text \<open>The iteration of a Go map: any order of its keys.\<close>

definition iter_order :: "('k, 'v) fmap \<Rightarrow> 'k list \<Rightarrow> bool" where
  "iter_order m ks \<longleftrightarrow> distinct ks \<and> set ks = fset (fmdom m)"

definition TotalVMs_of :: "string list \<Rightarrow> Server \<Rightarrow> int" where
  "TotalVMs_of order s =
    fold (\<lambda>f total. if fleet_Status f = ''running'' \<or> fleet_Status f = ''starting''
                     then wrap64 (total + fleet_Count f) else total)
      (List.map_filter (fmlookup (fleets s)) order) 0"

lemma wrap64_add: "wrap64 (wrap64 a + b) = wrap64 (a + b)"
proof -
  have e: "wrap64 a + b + 2 ^ 63 = (a + 2 ^ 63) mod 2 ^ 64 + b" by (simp add: wrap64_def)
  have "(wrap64 a + b + 2 ^ 63) mod 2 ^ 64 = (a + 2 ^ 63 + b) mod 2 ^ 64"
    unfolding e by (rule mod_add_left_eq)
  also have "a + 2 ^ 63 + b = a + b + 2 ^ 63" by simp
  finally show ?thesis unfolding wrap64_def[of "wrap64 a + b"] wrap64_def[of "a + b"] by (simp only:)
qed

lemma fold_wrap_sum:
  "fold (\<lambda>f total. if P f then wrap64 (total + c f) else total) xs (wrap64 a) =
    wrap64 (a + (\<Sum>f\<leftarrow>filter P xs. c f))"
  by (induction xs arbitrary: a) (simp_all add: wrap64_add add.assoc)

text \<open>
  The VM count.  Whatever the order in which the map of fleets is visited, the total is the
  (64-bit) sum of the sizes of the fleets that are starting or running.
\<close>

theorem TotalVMs_order_independent:
  assumes "iter_order (fleets s) order"
  shows "TotalVMs_of order s = wrap64 (\<Sum>k | k \<in> fset (fmdom (fleets s)) \<and>
      fleet_Status (the (fmlookup (fleets s) k)) \<in> {''running'', ''starting''}.
      fleet_Count (the (fmlookup (fleets s) k)))"
proof -
  let ?g = "\<lambda>k. the (fmlookup (fleets s) k)"
  let ?P = "\<lambda>f. fleet_Status f = ''running'' \<or> fleet_Status f = ''starting''"
  have some: "fmlookup (fleets s) k = Some (?g k)" if "k \<in> set order" for k
    using assms that by (auto simp: iter_order_def fmlookup_dom_iff)
  have "TotalVMs_of order s = wrap64 (\<Sum>f\<leftarrow>filter ?P (map ?g order). fleet_Count f)"
    using fold_wrap_sum[of ?P fleet_Count "map ?g order" 0]
      map_filter_all_Some[of order "fmlookup (fleets s)" ?g, OF some]
    by (simp add: TotalVMs_of_def wrap64_id)
  also have "(\<Sum>f\<leftarrow>filter ?P (map ?g order). fleet_Count f) = (\<Sum>k\<leftarrow>filter (?P \<circ> ?g) order. fleet_Count (?g k))"
    by (simp add: filter_map comp_def)
  also have "\<dots> = (\<Sum>k\<in>set (filter (?P \<circ> ?g) order). fleet_Count (?g k))"
    using assms by (intro sum_list_distinct_conv_sum_set) (simp add: iter_order_def)
  finally show ?thesis
    using assms by (simp add: iter_order_def conj_commute)
qed

definition sample_fleet :: "string \<Rightarrow> int list \<Rightarrow> FleetEntry" where
  "sample_fleet i ids =
    \<lparr>fleet_ID = i, fleet_Count = int (length ids), fleet_Status = ''running'',
     fleet_VMs = vm_statuses ids, fleet_WebPort = 0, fleet_CreatedAt = 0, fleet_vmIDs = ids,
     fleet_cancelled = False\<rparr>"

theorem TotalVMs_order_independent_witness:
  "TotalVMs_of [''b'', ''a'']
     ((NewServer DefaultConfig)\<lparr>fleets := fmupd ''b'' (sample_fleet ''b'' [2]) (fmupd ''a'' (sample_fleet ''a'' [0, 1]) fmempty)\<rparr>) = 3"
proof -
  let ?s = "(NewServer DefaultConfig)\<lparr>fleets := fmupd ''b'' (sample_fleet ''b'' [2])
    (fmupd ''a'' (sample_fleet ''a'' [0, 1]) fmempty)\<rparr>"
  have o: "iter_order (fleets ?s) [''b'', ''a'']" by (auto simp: iter_order_def)
  have "{k. k \<in> fset (fmdom (fleets ?s)) \<and>
      fleet_Status (the (fmlookup (fleets ?s) k)) \<in> {''running'', ''starting''}} = {''a'', ''b''}"
    by (auto simp: sample_fleet_def)
  with TotalVMs_order_independent[OF o] show ?thesis by (simp add: sample_fleet_def wrap64_id)
qed

end
