(* ===== verification/ApiFleet.thy ===== *)
theory ApiFleet
  imports ApiServer VMLaunch
begin

text \<open>
  \<open>src/api/fleet.go\<close>: the fleet handlers, the two critical sections of the goroutine a new fleet
  starts, and \<open>launchFleet\<close>, the work it does in between.

  \<open>launchFleet\<close> starts one goroutine per VM; each is a program over the injected dependencies
  (\<open>LaunchDeps\<close>), \<open>os.Remove\<close> and the state of the context, which may be cancelled between any
  two of its calls.  The goroutines share nothing but the error channel, so a launch is the
  family of their runs, in any interleaving, and the order in which their errors arrive.

  Shown: a VM's resources are released, in reverse order of their acquisition, on every path
  and whatever the dependencies answer; the error a launch reports is one its VMs sent.
\<close>

record fleetCreateRequest =
  fcr_Count :: int
  fcr_Kernel :: string
  fcr_RootFS :: string
  fcr_CloudInitISO :: string
  fcr_MemMB :: int
  fcr_VCPUs :: int
  fcr_DiskMB :: int

text \<open>The configuration of a new fleet: the base with the request's non-zero fields.\<close>

definition fleet_config :: "config \<Rightarrow> fleetCreateRequest \<Rightarrow> config" where
  "fleet_config base req =
    (let cfg = base;
         cfg = (if fcr_Kernel req \<noteq> '''' then cfg\<lparr>KernelImagePath := fcr_Kernel req\<rparr> else cfg);
         cfg = (if fcr_RootFS req \<noteq> '''' then cfg\<lparr>RootFSPath := fcr_RootFS req\<rparr> else cfg);
         cfg = (if fcr_CloudInitISO req \<noteq> '''' then cfg\<lparr>CloudInitISO := fcr_CloudInitISO req\<rparr> else cfg);
         cfg = (if 0 < fcr_MemMB req then cfg\<lparr>MemSizeMiB := fcr_MemMB req\<rparr> else cfg);
         cfg = (if 0 < fcr_VCPUs req then cfg\<lparr>VCPUs := fcr_VCPUs req\<rparr> else cfg)
     in if 0 < fcr_DiskMB req then cfg\<lparr>RootFSSizeMiB := fcr_DiskMB req\<rparr> else cfg)"

text \<open>The goroutine a request starts: which entry it serves, and what it launches.\<close>

record fleet_job =
  job_entry :: string
  job_cfg :: config
  job_vmIDs :: "int list"

definition createFleet ::
  "string \<Rightarrow> int \<Rightarrow> fleetCreateRequest option \<Rightarrow> Server \<Rightarrow> response \<times> fleet_job option \<times> Server" where
  "createFleet uuid now body s =
    (case body of
       None \<Rightarrow> (Resp 400 (ErrorText ''invalid JSON''), None, s)
     | Some req \<Rightarrow>
        let req = (if fcr_Count req < 1 then req\<lparr>fcr_Count := 1\<rparr> else req);
            cfg = fleet_config (baseCfg s) req;
            (vmIDs, used) = allocateVMIDs (usedIDs s) (nat (fcr_Count req));
            entry = \<lparr>fleet_ID = uuid, fleet_Count = fcr_Count req, fleet_Status = ''starting'',
                     fleet_VMs = vm_statuses vmIDs, fleet_WebPort = 0, fleet_CreatedAt = now,
                     fleet_vmIDs = vmIDs, fleet_cancelled = False\<rparr>
        in (Resp 201 (FleetBody entry),
            Some \<lparr>job_entry = uuid, job_cfg = cfg, job_vmIDs = vmIDs\<rparr>,
            s\<lparr>usedIDs := used, fleets := fmupd uuid entry (fleets s)\<rparr>))"

text \<open>The goroutine before and after \<open>launchFleet\<close>.\<close>

definition fleet_started :: "string \<Rightarrow> Server \<Rightarrow> Server" where
  "fleet_started fid s =
    (case fmlookup (fleets s) fid of
       None \<Rightarrow> s
     | Some entry \<Rightarrow> s\<lparr>fleets := fmupd fid (entry\<lparr>fleet_Status := ''running''\<rparr>) (fleets s)\<rparr>)"

definition fleet_finished :: "string \<Rightarrow> Server \<Rightarrow> Server" where
  "fleet_finished fid s =
    (case fmlookup (fleets s) fid of
       None \<Rightarrow> s
     | Some entry \<Rightarrow>
        s\<lparr>fleets := fmupd fid (entry\<lparr>fleet_Status := ''stopped''\<rparr>) (fleets s),
          usedIDs := releaseVMIDs (usedIDs s) (fleet_vmIDs entry)\<rparr>)"

definition listFleets :: "string list \<Rightarrow> Server \<Rightarrow> response" where
  "listFleets order s = Resp 200 (FleetList (List.map_filter (fmlookup (fleets s)) order))"

definition getFleet :: "string \<Rightarrow> Server \<Rightarrow> response" where
  "getFleet fid s =
    (case fmlookup (fleets s) fid of
       None \<Rightarrow> Resp 404 (ErrorText ''fleet not found'')
     | Some entry \<Rightarrow> Resp 200 (FleetBody entry))"

definition deleteFleet :: "string \<Rightarrow> Server \<Rightarrow> response \<times> Server" where
  "deleteFleet fid s =
    (case fmlookup (fleets s) fid of
       None \<Rightarrow> (Resp 404 (ErrorText ''fleet not found''), s)
     | Some entry \<Rightarrow>
        let entry = entry\<lparr>fleet_cancelled := True\<rparr> in
        (Resp 204 NoBody,
         if fleet_Status entry \<noteq> ''stopped''
         then s\<lparr>fleets := fmupd fid (entry\<lparr>fleet_Status := ''stopped''\<rparr>) (fleets s),
                usedIDs := releaseVMIDs (usedIDs s) (fleet_vmIDs entry)\<rparr>
         else s\<lparr>fleets := fmupd fid entry (fleets s)\<rparr>))"

definition handleFleets ::
  "string list \<Rightarrow> string \<Rightarrow> int \<Rightarrow> string \<Rightarrow> fleetCreateRequest option \<Rightarrow> Server \<Rightarrow>
   response \<times> fleet_job option \<times> Server" where
  "handleFleets order uuid now meth body s =
    (if meth = ''POST'' then createFleet uuid now body s
     else if meth = ''GET'' then (listFleets order s, None, s)
     else (Resp 405 (ErrorText ''method not allowed''), None, s))"

definition handleFleet :: "string \<Rightarrow> string \<Rightarrow> Server \<Rightarrow> response \<times> Server" where
  "handleFleet meth path s =
    (let fid = TrimPrefix path ''/api/v1/fleets/'' in
     if fid = '''' then (Resp 400 (ErrorText ''missing fleet id''), s)
     else if meth = ''GET'' then (getFleet fid s, s)
     else if meth = ''DELETE'' then deleteFleet fid s
     else (Resp 405 (ErrorText ''method not allowed''), s))"


section \<open>Launching\<close>

definition boot_vm :: "launch_env \<Rightarrow> config \<Rightarrow> int \<Rightarrow> launch_error option launch_prog" where
  "boot_vm d cfg vmID =
    State_Monad.bind (perform d (DepFactory cfg)) (\<lambda>r.
      if failed r then report d vmID ''create'' r
      else with_defer d VMStop
        (State_Monad.bind (perform d VMStart) (\<lambda>r.
          if failed r then report d vmID ''start'' r
          else State_Monad.bind (perform d VMWait) (report d vmID ''exited''))))"

definition prepare_vm :: "launch_env \<Rightarrow> config \<Rightarrow> config \<Rightarrow> int \<Rightarrow> launch_error option launch_prog" where
  "prepare_vm d base cfg vmID =
    State_Monad.bind (perform d (DepPrepareRootFS (RootFSPath base) vmID (RootFSSizeMiB base))) (\<lambda>r.
      case r of
        Err _ \<Rightarrow> report d vmID ''prepare rootfs'' r
      | Ok vmRootFS \<Rightarrow>
          with_defer d (OsRemove vmRootFS) (boot_vm d (cfg\<lparr>RootFSPath := vmRootFS\<rparr>) vmID))"

definition launch_vm :: "launch_env \<Rightarrow> config \<Rightarrow> int \<Rightarrow> launch_error option launch_prog" where
  "launch_vm d base vmID =
    (let cfg = ForVM base vmID in
     State_Monad.bind (perform d (DepEnsureTAP vmID)) (\<lambda>r.
       if failed r then report d vmID ''tap setup'' r
       else with_defer d (DepRemoveTAP vmID)
         (if CloudInitISO base \<noteq> '''' then
            State_Monad.bind
              (perform d (DepEnsureISO (CloudInitISO cfg) ''cloud-init-config.yaml'' (''vm-'' @ fmt_d vmID)))
              (\<lambda>r. if failed r then report d vmID ''cloud-init ISO'' r else prepare_vm d base cfg vmID)
          else prepare_vm d base cfg vmID)))"

text \<open>
  The launch: every VM runs in its own environment.  The errors arrive in the order in which the
  goroutines send them, a permutation of the VMs, and the last to arrive is returned.
\<close>

definition sent_errors :: "(int \<Rightarrow> launch_env) \<Rightarrow> config \<Rightarrow> int list \<Rightarrow> launch_error list" where
  "sent_errors d base arrivals =
    List.map_filter (\<lambda>vmID. fst (run_state (launch_vm (d vmID) base vmID) [])) arrivals"

definition launchFleet :: "(int \<Rightarrow> launch_env) \<Rightarrow> config \<Rightarrow> int list \<Rightarrow> launch_error option" where
  "launchFleet d base arrivals = fold (\<lambda>err lastErr. Some err) (sent_errors d base arrivals) None"


section \<open>Resources are given back\<close>

lemma balanced_boot: "balanced cleanup is_release (boot_vm d cfg vmID)"
  unfolding boot_vm_def by (auto intro!: all_launch.balanced_intros)

lemma balanced_prepare: "balanced cleanup is_release (prepare_vm d base cfg vmID)"
  unfolding prepare_vm_def by (auto intro!: all_launch.balanced_intros balanced_boot)

lemma balanced_launch: "balanced cleanup is_release (launch_vm d base vmID)"
  unfolding launch_vm_def Let_def
  by (rule all_launch.balanced_tap) (auto intro!: all_launch.balanced_intros balanced_prepare)

lemma plays_launch: "plays d (launch_vm d base vmID)"
  unfolding launch_vm_def prepare_vm_def boot_vm_def Let_def
  by (auto intro!: plays_intros plays_report split: launch_reply.splits)

text \<open>
  C5. No leaked resources.  Whatever the dependencies answer and whenever the context is cancelled,
  a VM's goroutine gives back everything it acquired (the TAP device, the copy of the root
  image, the machine), each exactly once and in reverse order of acquisition, and gives back
  nothing it did not acquire.
\<close>

theorem launch_vm_releases:
  "owed cleanup is_release [] (snd (run_state (launch_vm d base vmID) [])) = Some []"
  by (rule balanced_run[OF balanced_launch])


section \<open>What is launched, and what is reported\<close>

lemma emits_report: "(\<And>c. Q (CtxErr, c)) \<Longrightarrow> emits Q (report d vmID what r)"
  unfolding report_def by (cases r) (auto intro!: emits_return emits_bind emits_perform)

text \<open>The events that ask for a machine ask for this configuration.\<close>

definition asks_for :: "config \<Rightarrow> launch_call \<times> launch_reply \<Rightarrow> bool" where
  "asks_for cfg ev = (case fst ev of DepFactory k \<Rightarrow> k = cfg | _ \<Rightarrow> True)"

lemma emits_boot: "emits (asks_for cfg) (boot_vm d cfg vmID)"
  unfolding boot_vm_def
  by (auto simp: asks_for_def intro!: emits_bind emits_perform emits_report emits_defer)

definition built_for :: "config \<Rightarrow> config \<Rightarrow> int \<Rightarrow> (launch_call, launch_reply) trace \<Rightarrow> config \<Rightarrow> bool" where
  "built_for base cfg vmID tr k \<longleftrightarrow> (\<exists>p. k = cfg\<lparr>RootFSPath := p\<rparr> \<and>
    (DepPrepareRootFS (RootFSPath base) vmID (RootFSSizeMiB base), Ok p) \<in> set tr)"

lemma prepare_vm_factory:
  assumes run: "run_state (prepare_vm d base cfg vmID) tr = (res, tr')"
  shows "set tr \<subseteq> set tr' \<and>
    ((DepFactory k, r) \<in> set tr' \<longrightarrow> (DepFactory k, r) \<in> set tr \<or> built_for base cfg vmID tr' k)"
proof -
  let ?c = "DepPrepareRootFS (RootFSPath base) vmID (RootFSSizeMiB base)"
  let ?tr = "tr @ [(?c, d tr ?c)]"
  show ?thesis
  proof (cases "d tr ?c")
    case (Ok p)
    let ?k = "cfg\<lparr>RootFSPath := p\<rparr>"
    have "emits (asks_for ?k) (with_defer d (OsRemove p) (boot_vm d ?k vmID))"
      by (auto simp: asks_for_def intro!: emits_defer emits_boot)
    moreover have "tr' = snd (run_state (with_defer d (OsRemove p) (boot_vm d ?k vmID)) ?tr)"
      using Ok run by (simp add: prepare_vm_def run_state_bind)
    ultimately have "set ?tr \<subseteq> set tr'" "set tr' \<subseteq> set ?tr \<union> Collect (asks_for ?k)"
      unfolding emits_def by blast+
    with Ok show ?thesis by (auto simp: built_for_def asks_for_def)
  next
    case (Err x)
    then have "tr' = ?tr @ [(CtxErr, d ?tr CtxErr)]"
      using run by (simp add: prepare_vm_def report_def run_state_bind run_state_return)
    then show ?thesis by auto
  qed
qed

text \<open>After the TAP device is up: the optional cloud-init image, then the rest.\<close>

lemma launch_rest_factory:
  assumes run: "run_state (if hasISO then
      State_Monad.bind (perform d (DepEnsureISO a b h))
        (\<lambda>r. if failed r then report d vmID w r else prepare_vm d base cfg vmID)
      else prepare_vm d base cfg vmID) tr = (res, tr')"
  shows "set tr \<subseteq> set tr' \<and>
    ((DepFactory k, r) \<in> set tr' \<longrightarrow> (DepFactory k, r) \<in> set tr \<or> built_for base cfg vmID tr' k)"
proof (cases hasISO)
  case False
  then show ?thesis using prepare_vm_factory run by simp
next
  case hasISO: True
  let ?tr = "tr @ [(DepEnsureISO a b h, d tr (DepEnsureISO a b h))]"
  show ?thesis
  proof (cases "d tr (DepEnsureISO a b h)")
    case (Ok u)
    then have "run_state (prepare_vm d base cfg vmID) ?tr = (res, tr')"
      using run hasISO by (simp add: run_state_bind failed_def)
    from prepare_vm_factory[OF this, of k r] show ?thesis by auto
  next
    case (Err x)
    then have "tr' = ?tr @ [(CtxErr, d ?tr CtxErr)]"
      using run hasISO by (simp add: report_def failed_def run_state_bind run_state_return)
    then show ?thesis by auto
  qed
qed

lemma launch_vm_factory:
  assumes "(DepFactory k, r) \<in> set (snd (run_state (launch_vm d base vmID) []))"
  shows "built_for base (ForVM base vmID) vmID (snd (run_state (launch_vm d base vmID) [])) k \<and>
    (\<exists>u. (DepEnsureTAP vmID, Ok u) \<in> set (snd (run_state (launch_vm d base vmID) [])))"
proof (cases "d [] (DepEnsureTAP vmID)")
  case (Err x)
  then show ?thesis
    using assms by (simp add: launch_vm_def Let_def report_def failed_def run_state_bind run_state_return)
next
  case (Ok u)
  let ?rest = "if CloudInitISO base \<noteq> '''' then
      State_Monad.bind (perform d (DepEnsureISO (CloudInitISO (ForVM base vmID)) ''cloud-init-config.yaml'' (''vm-'' @ fmt_d vmID)))
        (\<lambda>r. if failed r then report d vmID ''cloud-init ISO'' r else prepare_vm d base (ForVM base vmID) vmID)
    else prepare_vm d base (ForVM base vmID) vmID"
  obtain res tr' where run: "run_state ?rest [(DepEnsureTAP vmID, Ok u)] = (res, tr')" by fastforce
  have "run_state (launch_vm d base vmID) [] =
      run_state (with_defer d (DepRemoveTAP vmID) ?rest) [(DepEnsureTAP vmID, Ok u)]"
    using Ok unfolding launch_vm_def Let_def by (simp only: run_state_bind run_perform Ok) (simp add: failed_def)
  then have tr: "snd (run_state (launch_vm d base vmID) []) =
      tr' @ [(DepRemoveTAP vmID, d tr' (DepRemoveTAP vmID))]"
    unfolding with_defer_def run_state_bind run by (simp add: run_state_return)
  from launch_rest_factory[OF run, of k r] assms show ?thesis
    unfolding tr by (auto simp: built_for_def)
qed

lemmas launch_defs = launch_vm_def prepare_vm_def boot_vm_def report_def with_defer_def failed_def
  Let_def run_state_bind run_state_return

text \<open>
  The machine is built from the VM's own configuration.  Whenever a goroutine asks the
  factory for a machine, the configuration is the one derived for its identifier with the root image
  replaced by the private copy just prepared for it, so never the shared base image; and the
  TAP device of that identifier is up.
\<close>

theorem launch_vm_config:
  assumes "(DepFactory cfg, r) \<in> set (snd (run_state (launch_vm d base vmID) []))"
  shows "\<exists>p u. cfg = (ForVM base vmID)\<lparr>RootFSPath := p\<rparr> \<and>
    (DepPrepareRootFS (RootFSPath base) vmID (RootFSSizeMiB base), Ok p)
      \<in> set (snd (run_state (launch_vm d base vmID) [])) \<and>
    (DepEnsureTAP vmID, Ok u) \<in> set (snd (run_state (launch_vm d base vmID) []))"
  using launch_vm_factory[OF assms] by (auto simp: built_for_def)

theorem launch_vm_config_witness:
  "\<exists>p u. (ForVM DefaultConfig 3)\<lparr>RootFSPath := ''/tmp/copy''\<rparr> = (ForVM DefaultConfig 3)\<lparr>RootFSPath := p\<rparr> \<and>
    (DepPrepareRootFS '''' 3 1024, Ok p)
      \<in> set (snd (run_state (launch_vm (\<lambda>_ _. Ok ''/tmp/copy'') DefaultConfig 3) [])) \<and>
    (DepEnsureTAP 3, Ok u) \<in> set (snd (run_state (launch_vm (\<lambda>_ _. Ok ''/tmp/copy'') DefaultConfig 3) []))"
proof -
  let ?d = "\<lambda>_ _. Ok ''/tmp/copy''"
  have "(DepFactory ((ForVM DefaultConfig 3)\<lparr>RootFSPath := ''/tmp/copy''\<rparr>), Ok ''/tmp/copy'')
      \<in> set (snd (run_state (launch_vm ?d DefaultConfig 3) []))"
    by (simp add: launch_defs DefaultConfig_def)
  from launch_vm_config[OF this] show ?thesis by (simp add: DefaultConfig_def)
qed

lemma last_error: "fold (\<lambda>err lastErr. Some err) es a = (if es = [] then a else Some (last es))"
  by (induction es arbitrary: a) auto

text \<open>
  The result of a launch.  In whatever order the goroutines finish, the launch succeeds
  exactly when no goroutine sent an error, and an error it returns was sent by one of its VMs.
\<close>

theorem launchFleet_result:
  assumes "set arrivals = set vmIDs"
  shows "(launchFleet d base arrivals = None \<longleftrightarrow>
      list_all (\<lambda>vmID. fst (run_state (launch_vm (d vmID) base vmID) []) = None) vmIDs) \<and>
    set_option (launchFleet d base arrivals) \<subseteq> set (sent_errors d base vmIDs)"
proof -
  have sent: "set (sent_errors d base xs) =
      {err. \<exists>vmID\<in>set xs. fst (run_state (launch_vm (d vmID) base vmID) []) = Some err}" for xs
    by (force simp: sent_errors_def List.map_filter_def image_iff)
  have "sent_errors d base xs = [] \<longleftrightarrow> set (sent_errors d base xs) = {}" for xs by simp
  then have "launchFleet d base arrivals = None \<longleftrightarrow>
      (\<forall>vmID\<in>set vmIDs. fst (run_state (launch_vm (d vmID) base vmID) []) = None)"
    unfolding launchFleet_def last_error by (auto simp: sent assms) (metis not_None_eq)
  moreover have "set_option (launchFleet d base arrivals) \<subseteq> set (sent_errors d base arrivals)"
    by (auto simp: launchFleet_def last_error split: if_splits)
  then have "set_option (launchFleet d base arrivals) \<subseteq> set (sent_errors d base vmIDs)"
    by (simp only: sent assms)
  ultimately show ?thesis by (simp add: list_all_iff)
qed

definition tap_fails :: launch_env where
  "tap_fails tr c = (case c of DepEnsureTAP _ \<Rightarrow> Err ''exit status 1'' | _ \<Rightarrow> Ok '''')"

theorem launchFleet_result_witness:
  "launchFleet (\<lambda>_. tap_fails) DefaultConfig [1, 0] \<noteq> None"
proof -
  have "fst (run_state (launch_vm tap_fails DefaultConfig i) []) \<noteq> None" for i
    by (simp add: launch_vm_def Let_def run_state_bind run_state_return tap_fails_def failed_def report_def)
  with launchFleet_result[of "[1, 0]" "[0, 1]" "\<lambda>_. tap_fails" DefaultConfig] show ?thesis
    by auto
qed

end
