(* ===== verification/ApiScenario.thy ===== *)
theory ApiScenario
  imports ApiServer
begin

text \<open>
  \<open>src/api/scenario.go\<close>: the scenario handlers, the parsers of the \<open>scale\<close> and \<open>disk\<close> fields, and
  the hint endpoint for VMs.

  Creating a scenario is in three parts, as in the code: the checks that touch no state, the
  allocation of identifiers under the mutex, and the registration, again under the mutex; between
  the last two the request alone knows its identifiers.  Loading a scenario
  file is a parameter (\<open>Load\<close> of the scenario package with its own parameters).

  Shown: the parsers accept exactly the well-formed positive entries, and reading back printed
  overrides gives them back; the runner of a new scenario is always created, with the allocated
  identifiers as the identifiers of its VMs; which scenario a VM's hint request reaches does not
  depend on the iteration order as long as no two running scenarios share a VM.
\<close>

record scenarioCreateRequest =
  scr_ScenarioFile :: string
  scr_Kernel :: string
  scr_RootFS :: string
  scr_CloudInitISO :: string
  scr_FirecrackerBin :: string
  scr_Scale :: string
  scr_Disk :: string
  scr_WebPort :: int

definition parse_override :: "string \<Rightarrow> (string, int) fmap \<Rightarrow> (string, int) fmap" where
  "parse_override part overrides =
    (case SplitN2 (CHR ''='') part of
       [k, v] \<Rightarrow> let n = Sscanf_d v in
                 if 0 < n then fmupd (TrimSpace k) n overrides else overrides
     | _ \<Rightarrow> overrides)"

definition parseScaleOverrides :: "string \<Rightarrow> (string, int) fmap" where
  "parseScaleOverrides s =
    (if s = '''' then fmempty else fold parse_override (Split (CHR '','') s) fmempty)"

definition parseDiskOverrides :: "string \<Rightarrow> (string, int) fmap" where
  "parseDiskOverrides s =
    (if s = '''' then fmempty else fold parse_override (Split (CHR '','') s) fmempty)"

text \<open>What a create request has computed before it takes the mutex.\<close>

record scenario_request =
  sr_scenario :: Scenario
  sr_file :: string
  sr_cfg :: config
  sr_webPort :: int
  sr_scale :: "(string, int) fmap"
  sr_disk :: "(string, int) fmap"
  sr_total :: int

definition scenario_config :: "config \<Rightarrow> scenarioCreateRequest \<Rightarrow> config" where
  "scenario_config base req =
    (let cfg = base;
         cfg = (if scr_Kernel req \<noteq> '''' then cfg\<lparr>KernelImagePath := scr_Kernel req\<rparr> else cfg);
         cfg = (if scr_RootFS req \<noteq> '''' then cfg\<lparr>RootFSPath := scr_RootFS req\<rparr> else cfg);
         cfg = (if scr_CloudInitISO req \<noteq> '''' then cfg\<lparr>CloudInitISO := scr_CloudInitISO req\<rparr> else cfg)
     in if scr_FirecrackerBin req \<noteq> '''' then cfg\<lparr>FirecrackerBin := scr_FirecrackerBin req\<rparr> else cfg)"

definition create_prepare ::
  "(string \<Rightarrow> plan_error + Scenario) \<Rightarrow> scenarioCreateRequest option \<Rightarrow> Server \<Rightarrow>
   response + scenario_request" where
  "create_prepare load body s =
    (case body of
       None \<Rightarrow> Inl (Resp 400 (ErrorText ''invalid JSON''))
     | Some req \<Rightarrow>
        if scr_ScenarioFile req = '''' then Inl (Resp 400 (ErrorText ''scenario_file is required''))
        else case load (scr_ScenarioFile req) of
          Inl _ \<Rightarrow> Inl (Resp 400 (ErrorText ''failed to load scenario''))
        | Inr sc \<Rightarrow>
           let scale = parseScaleOverrides (scr_Scale req);
               disk = parseDiskOverrides (scr_Disk req)
           in case BuildVMPlan sc scale disk [] of
                Inl _ \<Rightarrow> Inl (Resp 400 (ErrorText ''failed to build VM plan''))
              | Inr tmpPlan \<Rightarrow>
                 Inr \<lparr>sr_scenario = sc, sr_file = scr_ScenarioFile req,
                      sr_cfg = scenario_config (baseCfg s) req,
                      sr_webPort = (if scr_WebPort req = 0 then 8888 else scr_WebPort req),
                      sr_scale = scale, sr_disk = disk, sr_total = TotalVMs tmpPlan\<rparr>)"

definition create_allocate :: "scenario_request \<Rightarrow> Server \<Rightarrow> int list \<times> Server" where
  "create_allocate req s =
    (let (vmIDs, used) = allocateVMIDs (usedIDs s) (nat (sr_total req))
     in (vmIDs, s\<lparr>usedIDs := used\<rparr>))"

definition run_options :: "scenario_request \<Rightarrow> int list \<Rightarrow> RunOptions" where
  "run_options req vmIDs =
    \<lparr>opt_KernelPath = KernelImagePath (sr_cfg req), opt_RootFSPath = RootFSPath (sr_cfg req),
     opt_CloudInitISO = CloudInitISO (sr_cfg req), opt_FirecrackerBin = FirecrackerBin (sr_cfg req),
     opt_ScaleOverrides = sr_scale req, opt_DiskOverrides = sr_disk req, opt_DryRun = False,
     opt_WebPort = sr_webPort req, opt_VMIDs = vmIDs\<rparr>"

text \<open>The goroutine of a scenario releases the identifiers it was created with.\<close>

record scenario_job =
  sjob_entry :: string
  sjob_vmIDs :: "int list"

definition create_register ::
  "string \<Rightarrow> int \<Rightarrow> scenario_request \<Rightarrow> int list \<Rightarrow> Server \<Rightarrow> response \<times> scenario_job option \<times> Server" where
  "create_register uuid now req vmIDs s =
    (case NewRunner (sr_scenario req) (run_options req vmIDs) of
       Inl _ \<Rightarrow>
         (Resp 500 (ErrorText ''failed to create runner''), None,
          s\<lparr>usedIDs := releaseVMIDs (usedIDs s) vmIDs\<rparr>)
     | Inr runner \<Rightarrow>
         let entry = \<lparr>scen_ID = uuid, scen_Title = meta_Title (Meta (sr_scenario req)),
                      scen_File = sr_file req, scen_Status = ''running'', scen_Score = 0,
                      scen_Elapsed = '''', scen_HintsUsed = 0, scen_VMs = vm_statuses vmIDs,
                      scen_CreatedAt = now, scen_runner = Some runner, scen_cancelled = False,
                      scen_startAt = now\<rparr>
         in (Resp 201 (ScenarioBody entry), Some \<lparr>sjob_entry = uuid, sjob_vmIDs = vmIDs\<rparr>,
             s\<lparr>scenarios := fmupd uuid entry (scenarios s)\<rparr>))"

definition createScenario ::
  "(string \<Rightarrow> plan_error + Scenario) \<Rightarrow> string \<Rightarrow> int \<Rightarrow> scenarioCreateRequest option \<Rightarrow> Server \<Rightarrow>
   response \<times> scenario_job option \<times> Server" where
  "createScenario load uuid now body s =
    (case create_prepare load body s of
       Inl resp \<Rightarrow> (resp, None, s)
     | Inr req \<Rightarrow>
        let (vmIDs, s) = create_allocate req s in create_register uuid now req vmIDs s)"

text \<open>The end of the goroutine, after \<open>runner.Run\<close> has returned.\<close>

definition scenario_finished :: "string \<Rightarrow> int list \<Rightarrow> Server \<Rightarrow> Server" where
  "scenario_finished sid vmIDs s =
    (let s = (case fmlookup (scenarios s) sid of
                None \<Rightarrow> s
              | Some entry \<Rightarrow>
                 if scen_Status entry = ''running''
                 then s\<lparr>scenarios := fmupd sid (entry\<lparr>scen_Status :=
                          if scen_cancelled entry then ''aborted'' else ''complete''\<rparr>) (scenarios s)\<rparr>
                 else s)
     in s\<lparr>usedIDs := releaseVMIDs (usedIDs s) vmIDs\<rparr>)"

definition listScenarios :: "string list \<Rightarrow> Server \<Rightarrow> response" where
  "listScenarios order s = Resp 200 (ScenarioList (List.map_filter (fmlookup (scenarios s)) order))"

definition getScenario :: "int \<Rightarrow> string \<Rightarrow> Server \<Rightarrow> response \<times> Server" where
  "getScenario now sid s =
    (case fmlookup (scenarios s) sid of
       None \<Rightarrow> (Resp 404 (ErrorText ''scenario not found''), s)
     | Some entry \<Rightarrow>
        let entry = (case scen_runner entry of
              None \<Rightarrow> entry
            | Some r \<Rightarrow>
               let (sc, r) = CurrentScore now r in
               entry\<lparr>scen_Score := sc, scen_runner := Some r,
                     scen_Elapsed := duration_string (Round Second (Since now (Some (scen_startAt entry))))\<rparr>)
        in (Resp 200 (ScenarioBody entry), s\<lparr>scenarios := fmupd sid entry (scenarios s)\<rparr>))"

text \<open>Serving a hint from an entry, shared by the two hint endpoints.\<close>

definition serve_hint :: "int \<Rightarrow> string \<Rightarrow> ScenarioEntry \<Rightarrow> Server \<Rightarrow> response \<times> Server" where
  "serve_hint now sid entry s =
    (case scen_runner entry of
       None \<Rightarrow> (Resp 500 (ErrorText ''runner not available''), s)
     | Some r \<Rightarrow>
        let (hint, r) = RequestHintText r;
            (sc, r) = CurrentScore now r;
            entry = entry\<lparr>scen_runner := Some r, scen_HintsUsed := wrap64 (scen_HintsUsed entry + 1),
                          scen_Score := sc\<rparr>
        in (Resp 200 (HintBody \<lparr>hr_Hint = hint, hr_Score = sc\<rparr>),
            s\<lparr>scenarios := fmupd sid entry (scenarios s)\<rparr>))"

definition hintScenario :: "int \<Rightarrow> string \<Rightarrow> Server \<Rightarrow> response \<times> Server" where
  "hintScenario now sid s =
    (case fmlookup (scenarios s) sid of
       None \<Rightarrow> (Resp 404 (ErrorText ''scenario not found''), s)
     | Some entry \<Rightarrow> serve_hint now sid entry s)"

definition deleteScenario :: "string \<Rightarrow> Server \<Rightarrow> response \<times> Server" where
  "deleteScenario sid s =
    (case fmlookup (scenarios s) sid of
       None \<Rightarrow> (Resp 404 (ErrorText ''scenario not found''), s)
     | Some entry \<Rightarrow>
        (Resp 204 NoBody,
         s\<lparr>scenarios := fmupd sid (entry\<lparr>scen_cancelled := True, scen_Status := ''aborted''\<rparr>)
             (scenarios s)\<rparr>))"

text \<open>The first running scenario, in iteration order, that lists the VM.\<close>

definition find_owner :: "string list \<Rightarrow> int \<Rightarrow> Server \<Rightarrow> (string \<times> ScenarioEntry) option" where
  "find_owner order vmID s =
    find (\<lambda>(_, sc). scen_Status sc = ''running'' \<and> list_ex (\<lambda>v. vs_ID v = vmID) (scen_VMs sc))
      (List.map_filter (\<lambda>k. map_option (Pair k) (fmlookup (scenarios s) k)) order)"

definition handleVM ::
  "string list \<Rightarrow> int \<Rightarrow> string \<Rightarrow> string \<Rightarrow> Server \<Rightarrow> response \<times> Server" where
  "handleVM order now meth path s =
    (case SplitN2 (CHR ''/'') (TrimPrefix path ''/api/v1/vms/'') of
       [i, sub] \<Rightarrow>
         if sub \<noteq> ''hint'' \<or> meth \<noteq> ''POST'' then (Resp 404 (ErrorText ''not found''), s)
         else (case Atoi i of
             None \<Rightarrow> (Resp 400 (ErrorText ''invalid vm id''), s)
           | Some vmID \<Rightarrow>
              (case find_owner order vmID s of
                 None \<Rightarrow> (Resp 404 (ErrorText ''no running scenario owns this VM''), s)
               | Some (sid, entry) \<Rightarrow> serve_hint now sid entry s))
     | _ \<Rightarrow> (Resp 404 (ErrorText ''not found''), s))"

definition handleScenarios ::
  "(string \<Rightarrow> plan_error + Scenario) \<Rightarrow> string list \<Rightarrow> string \<Rightarrow> int \<Rightarrow> string \<Rightarrow>
   scenarioCreateRequest option \<Rightarrow> Server \<Rightarrow> response \<times> scenario_job option \<times> Server" where
  "handleScenarios load order uuid now meth body s =
    (if meth = ''POST'' then createScenario load uuid now body s
     else if meth = ''GET'' then (listScenarios order s, None, s)
     else (Resp 405 (ErrorText ''method not allowed''), None, s))"

definition handleScenario :: "int \<Rightarrow> string \<Rightarrow> string \<Rightarrow> Server \<Rightarrow> response \<times> Server" where
  "handleScenario now meth path s =
    (let parts = SplitN2 (CHR ''/'') (TrimPrefix path ''/api/v1/scenarios/'');
         sid = parts ! 0;
         sub = (if length parts = 2 then parts ! 1 else '''')
     in if sid = '''' then (Resp 400 (ErrorText ''missing scenario id''), s)
        else if meth = ''GET'' \<and> sub = '''' then getScenario now sid s
        else if meth = ''POST'' \<and> sub = ''hint'' then hintScenario now sid s
        else if meth = ''DELETE'' \<and> sub = '''' then deleteScenario sid s
        else (Resp 405 (ErrorText ''method not allowed''), s))"

section \<open>Overrides\<close>

lemma Split_Join:
  "ws \<noteq> [] \<Longrightarrow> list_all (\<lambda>w. c \<notin> set w) ws \<Longrightarrow> Split c (Join ws [c]) = ws"
  by (induction ws "[c]" rule: Join.induct) (auto simp: Split_no_sep Split_append_sep)

text \<open>Tier names that survive the syntax of the override lists.\<close>

definition plain_name :: "string \<Rightarrow> bool" where
  "plain_name k \<longleftrightarrow> k \<noteq> '''' \<and> list_all graphic k \<and> CHR '','' \<notin> set k \<and> CHR ''='' \<notin> set k"

definition override_text :: "string \<times> int \<Rightarrow> string" where
  "override_text kv = fst kv @ ''='' @ fmt_d (snd kv)"

lemma skip_space_digit:
  assumes "is_digit c"
  shows "skip_space (c # cs) = Some (c # cs)"
  by (simp add: skip_space.simps[of "c # cs"] lead_rune_graphic graphic_digit[OF assms])

lemma Sscanf_fmt_d:
  assumes "0 < n" "n < 2 ^ 63"
  shows "Sscanf_d (fmt_d n) = n"
proof -
  have ds: "list_all is_digit (show_base 10 (nat n))" using show_dec_digits by (simp add: list_all_iff)
  then obtain c cs where s: "show_base 10 (nat n) = c # cs" and c: "is_digit c"
    by (cases "show_base 10 (nat n)") auto
  have tw: "takeWhile is_digit (show_base 10 (nat n)) = show_base 10 (nat n)"
    using ds by (simp add: list_all_iff takeWhile_eq_all_conv)
  have "skip_space (fmt_d n) = Some (show_base 10 (nat n))"
    using assms skip_space_digit[OF c, of cs] by (simp add: fmt_d_def s)
  then show ?thesis
    using assms by (simp add: Sscanf_d_def split_sign_show read_show_base Let_def tw)
qed

lemma parse_override_text:
  assumes "plain_name k" "0 < n" "n < 2 ^ 63"
  shows "parse_override (override_text (k, n)) m = fmupd k n m"
proof -
  have k: "k \<noteq> []" "CHR ''='' \<notin> set k" "graphic (hd k)" "graphic (last k)"
    using assms(1) by (auto simp: plain_name_def list_all_iff)
  have "\<forall>x\<in>set k. x \<noteq> CHR ''=''" using k(2) by auto
  then have "takeWhile (\<lambda>x. x \<noteq> CHR ''='') (k @ CHR ''='' # fmt_d n) = k"
    "dropWhile (\<lambda>x. x \<noteq> CHR ''='') (k @ CHR ''='' # fmt_d n) = CHR ''='' # fmt_d n"
    by (simp_all add: takeWhile_append2 dropWhile_append2)
  then have "SplitN2 (CHR ''='') (override_text (k, n)) = [k, fmt_d n]"
    by (simp add: SplitN2_def override_text_def)
  then show ?thesis
    using k assms by (simp add: parse_override_def Sscanf_fmt_d TrimSpace_graphic Let_def)
qed

lemma override_text_no_comma:
  assumes "plain_name k" "0 < n"
  shows "CHR '','' \<notin> set (override_text (k, n))"
proof -
  have "CHR '','' \<notin> set (fmt_d n)"
    using assms(2) show_dec_digits[of "CHR '',''" "nat n"] by (auto simp: fmt_d_def is_digit_def)
  with assms(1) show ?thesis by (simp add: override_text_def plain_name_def)
qed

lemma fold_parse_override:
  "list_all (\<lambda>(k, n). plain_name k \<and> 0 < n \<and> n < 2 ^ 63) kvs \<Longrightarrow>
    fold parse_override (map override_text kvs) m = fold (\<lambda>(k, n). fmupd k n) kvs m"
  by (induction kvs arbitrary: m) (auto simp: parse_override_text)

text \<open>
  Overrides round trip.  Printing a list of tier names and positive counts in the syntax
  \<open>web=2,db=1\<close> and parsing it gives the map with exactly these entries (the last one for a
  repeated name), for the scale as well as for the disk field.
\<close>

theorem parse_overrides_roundtrip:
  assumes "list_all (\<lambda>(k, n). plain_name k \<and> 0 < n \<and> n < 2 ^ 63) kvs"
  shows "parseScaleOverrides (Join (map override_text kvs) '','') = fold (\<lambda>(k, n). fmupd k n) kvs fmempty \<and>
    parseDiskOverrides (Join (map override_text kvs) '','') = fold (\<lambda>(k, n). fmupd k n) kvs fmempty"
proof (cases "kvs = []")
  case True
  then show ?thesis by (simp add: parseScaleOverrides_def parseDiskOverrides_def)
next
  case False
  have "list_all (\<lambda>w. CHR '','' \<notin> set w) (map override_text kvs)"
    using assms by (auto simp: list_all_iff dest!: override_text_no_comma)
  then have "Split (CHR '','') (Join (map override_text kvs) '','') = map override_text kvs"
    using False by (intro Split_Join) simp_all
  moreover have "Join (map override_text kvs) '','' \<noteq> ''''"
    using False by (cases kvs; cases "tl kvs") (auto simp: override_text_def)
  ultimately show ?thesis
    using fold_parse_override[OF assms] by (simp add: parseScaleOverrides_def parseDiskOverrides_def)
qed

theorem parse_overrides_roundtrip_witness:
  "parseScaleOverrides ''web=2,db=1'' = fmupd ''db'' 1 (fmupd ''web'' 2 fmempty)"
proof -
  have "Join (map override_text [(''web'', 2), (''db'', 1)]) '','' = ''web=2,db=1''"
    by (simp add: override_text_def fmt_d_def show_base.simps digit_table_def)
  moreover have "list_all (\<lambda>(k, n). plain_name k \<and> 0 < n \<and> n < 2 ^ 63) [(''web'', 2), (''db'', 1 :: int)]"
    by (simp add: plain_name_def graphic_def)
  ultimately show ?thesis
    using parse_overrides_roundtrip[of "[(''web'', 2), (''db'', 1)]"] by simp
qed



section \<open>Creation\<close>

lemma create_prepare_Inr:
  assumes "create_prepare load body s = Inr req"
  obtains r plan where "body = Some r" "BuildVMPlan (sr_scenario req) (sr_scale req) (sr_disk req) [] = Inr plan"
    "sr_total req = TotalVMs plan" "sr_scale req = parseScaleOverrides (scr_Scale r)"
    "load (scr_ScenarioFile r) = Inr (sr_scenario req)"
  using assms
  by (auto simp: create_prepare_def Let_def split: option.splits if_splits sum.splits)

text \<open>
  C32. Creating a scenario.  When the checks pass, creation succeeds with status 201: the branch in
  which the runner cannot be created is never taken.  The identifiers given out are as many as the
  plan has VMs, they are the identifiers of the plan's VMs in order, the entry lists
  them, and they are what the goroutine will release.
\<close>

theorem createScenario_ok:
  assumes "create_prepare load body s = Inr req"
  shows "let (vmIDs, s1) = create_allocate req s;
             (resp, job, s2) = createScenario load uuid now body s in
    \<exists>entry runner. resp = Resp 201 (ScenarioBody entry) \<and>
      fmlookup (scenarios s2) uuid = Some entry \<and> scen_runner entry = Some runner \<and>
      length vmIDs = length (VMs (Plan runner)) \<and> map vm_Index (VMs (Plan runner)) = vmIDs \<and>
      map vs_ID (scen_VMs entry) = vmIDs \<and> job = Some \<lparr>sjob_entry = uuid, sjob_vmIDs = vmIDs\<rparr> \<and>
      usedIDs s2 = usedIDs s1"
proof -
  obtain r plan where p: "BuildVMPlan (sr_scenario req) (sr_scale req) (sr_disk req) [] = Inr plan"
    "sr_total req = TotalVMs plan" using create_prepare_Inr[OF assms] by metis
  obtain vmIDs s1 where al: "create_allocate req s = (vmIDs, s1)" by fastforce
  obtain plan' where p': "BuildVMPlan (sr_scenario req) (sr_scale req) (sr_disk req) vmIDs = Inr plan'"
    using BuildVMPlan_isl[of "sr_scenario req" "sr_scale req" "sr_disk req" "[]" "sr_disk req" vmIDs] p(1)
    by (cases "BuildVMPlan (sr_scenario req) (sr_scale req) (sr_disk req) vmIDs") auto
  then obtain runner where rn: "NewRunner (sr_scenario req) (run_options req vmIDs) = Inr runner"
    "Plan runner = plan'" by (auto simp: NewRunner_def run_options_def)
  have "length (VMs plan') = length (VMs plan)" "sr_total req = int (length (VMs plan))"
    using BuildVMPlan_Inr(1,2)[OF p'] BuildVMPlan_Inr(1,2)[OF p(1)] p(2) by simp_all
  moreover have "length vmIDs = nat (sr_total req)"
    using al allocate_pair(3)[of "usedIDs s" "nat (sr_total req)"]
    by (auto simp: create_allocate_def split: prod.splits)
  ultimately have "length vmIDs = length (VMs plan')" by simp
  moreover from this have "map vm_Index (VMs plan') = vmIDs"
    using plan_indices[OF p'] by simp
  ultimately show ?thesis
    using assms al rn
    by (simp add: createScenario_def create_register_def Let_def vm_statuses_def comp_def)
qed


section \<open>Which scenario a VM belongs to\<close>

definition owns :: "Server \<Rightarrow> int \<Rightarrow> string \<Rightarrow> bool" where
  "owns s vmID k \<longleftrightarrow> (\<exists>sc. fmlookup (scenarios s) k = Some sc \<and> scen_Status sc = ''running'' \<and>
    vmID \<in> vs_ID ` set (scen_VMs sc))"

lemma set_iter_entries:
  "set (List.map_filter (\<lambda>k. map_option (Pair k) (fmlookup m k)) order) =
    {(k, v). k \<in> set order \<and> fmlookup m k = Some v}"
  by (induction order) (auto simp: List.map_filter_simps split: option.splits)

lemma find_in_set: "find P xs = Some x \<Longrightarrow> x \<in> set xs \<and> P x"
  by (auto simp: find_Some_iff)

lemma find_owner_Some:
  assumes "find_owner order vmID s = Some (k, sc)"
  shows "owns s vmID k \<and> k \<in> set order \<and> fmlookup (scenarios s) k = Some sc"
  using find_in_set[OF assms[unfolded find_owner_def]]
  by (auto simp: set_iter_entries owns_def list_ex_iff)

lemma find_owner_None:
  "find_owner order vmID s = None \<longleftrightarrow> (\<forall>k\<in>set order. \<not> owns s vmID k)"
  unfolding find_owner_def find_None_iff set_iter_entries
  by (fastforce simp: owns_def list_ex_iff)

text \<open>
  The hint endpoint of a VM is well defined.  If no two running scenarios list the same VM,
  the response of the endpoint and its effect on the server do not depend on the order in
  which the map of scenarios is visited.
\<close>

theorem handleVM_order_independent:
  assumes "iter_order (scenarios s) order" "iter_order (scenarios s) order'"
    and "\<And>vmID k k'. owns s vmID k \<Longrightarrow> owns s vmID k' \<Longrightarrow> k = k'"
  shows "handleVM order now meth path s = handleVM order' now meth path s"
proof -
  have set: "set order' = set order" using assms(1,2) by (simp add: iter_order_def)
  have "find_owner order vmID s = find_owner order' vmID s" for vmID
  proof (cases "find_owner order vmID s")
    case None
    then have "find_owner order' vmID s = None" unfolding find_owner_None set .
    with None show ?thesis by simp
  next
    case (Some e)
    obtain k sc where e: "e = (k, sc)" by fastforce
    then have k: "owns s vmID k" "k \<in> set order" "fmlookup (scenarios s) k = Some sc"
      using find_owner_Some Some by blast+
    have "find_owner order' vmID s \<noteq> None" using k set find_owner_None by metis
    then obtain k' sc' where e': "find_owner order' vmID s = Some (k', sc')" by auto
    from find_owner_Some[OF this] assms(3)[OF k(1)] have k': "k' = k" "fmlookup (scenarios s) k' = Some sc'"
      by auto
    with k(3) have "sc' = sc" by simp
    with k' e e' Some show ?thesis by simp
  qed
  then show ?thesis unfolding handleVM_def by presburger
qed

section \<open>A concrete server\<close>

definition sample_request :: scenarioCreateRequest where
  "sample_request =
    \<lparr>scr_ScenarioFile = ''s.yaml'', scr_Kernel = '''', scr_RootFS = '''', scr_CloudInitISO = '''',
     scr_FirecrackerBin = '''', scr_Scale = '''', scr_Disk = '''', scr_WebPort = 0\<rparr>"

definition sample_load :: "string \<Rightarrow> plan_error + Scenario" where
  "sample_load path = Inr sample_scenario"

definition sample_prepared :: scenario_request where
  "sample_prepared =
    \<lparr>sr_scenario = sample_scenario, sr_file = ''s.yaml'', sr_cfg = DefaultConfig, sr_webPort = 8888,
     sr_scale = fmempty, sr_disk = fmempty, sr_total = 3\<rparr>"

lemma sample_prepare:
  "create_prepare sample_load (Some sample_request) (NewServer DefaultConfig) = Inr sample_prepared"
  by (simp add: create_prepare_def sample_load_def sample_request_def parseScaleOverrides_def
      parseDiskOverrides_def sample_plan sample_total sample_prepared_def scenario_config_def NewServer_def)

theorem createScenario_ok_witness:
  "let (resp, job, s2) = createScenario sample_load ''u1'' 5 (Some sample_request) (NewServer DefaultConfig) in
    \<exists>entry runner. resp = Resp 201 (ScenarioBody entry) \<and> scen_runner entry = Some runner \<and>
      map vm_Index (VMs (Plan runner)) = map vs_ID (scen_VMs entry)"
proof -
  from createScenario_ok[OF sample_prepare, of "''u1''" 5] show ?thesis
    by (auto simp: Let_def split: prod.splits)
qed

definition sample_entry :: "string \<Rightarrow> int list \<Rightarrow> ScenarioEntry" where
  "sample_entry k ids =
    \<lparr>scen_ID = k, scen_Title = ''Overload'', scen_File = ''s.yaml'', scen_Status = ''running'',
     scen_Score = 0, scen_Elapsed = '''', scen_HintsUsed = 0, scen_VMs = vm_statuses ids,
     scen_CreatedAt = 0, scen_runner = None, scen_cancelled = False, scen_startAt = 0\<rparr>"

definition two_scenarios :: Server where
  "two_scenarios = (NewServer DefaultConfig)\<lparr>scenarios :=
    fmupd ''b'' (sample_entry ''b'' [2, 3]) (fmupd ''a'' (sample_entry ''a'' [0, 1]) fmempty)\<rparr>"

theorem handleVM_order_independent_witness:
  "handleVM [''a'', ''b''] 0 ''POST'' ''/api/v1/vms/3/hint'' two_scenarios =
   handleVM [''b'', ''a''] 0 ''POST'' ''/api/v1/vms/3/hint'' two_scenarios"
proof (rule handleVM_order_independent)
  show "k = k'" if "owns two_scenarios v k" "owns two_scenarios v k'" for v k k'
    using that by (auto simp: owns_def two_scenarios_def sample_entry_def vm_statuses_def split: if_splits)
qed (auto simp: iter_order_def two_scenarios_def)

end
