(* ===== verification/ApiSystem.thy ===== *)
theory ApiSystem
  imports ApiFleet ApiScenario
begin

text \<open>
  The server as a concurrent system.  Every critical section of a handler or of a goroutine is one
  atomic step; between steps anything may interleave.  \<open>fpc\<close> is the program counter of the
  goroutine of each fleet, \<open>pending\<close> holds the scenario requests that have their identifiers but
  are not registered yet, \<open>sjobs\<close> the goroutines of running scenarios with the identifiers they
  will release.  UUIDs are fresh, as the library that makes them documents.

  The two hint endpoints and the score of a scenario take the runner's own mutex and then the
  server's; they change no identifier and no status, and each is one step here.

  Shown: identifiers are never leaked; as long as no fleet is deleted before its goroutine has
  ended, no two holders ever share an identifier; deleting a live fleet breaks this, as a
  concrete run shows; hint counts of entries and runners agree.
\<close>

datatype phase = Spawned | Launching | Done

record Sys =
  srv :: Server
  fpc :: "string \<Rightarrow> phase option"
  pending :: "string \<Rightarrow> (scenario_request \<times> int list) option"
  sjobs :: "string \<Rightarrow> int list option"

definition initial :: "config \<Rightarrow> Sys" where
  "initial cfg = \<lparr>srv = NewServer cfg, fpc = Map.empty, pending = Map.empty, sjobs = Map.empty\<rparr>"

datatype event =
    CreateFleet string int fleetCreateRequest
  | StartFleet string
  | FinishFleet string
  | DeleteFleet string
  | AllocScenario string scenarioCreateRequest
  | RegisterScenario string int
  | FinishScenario string
  | DeleteScenario string
  | GetScenario int string
  | HintScenario int string
  | HintVM "string list" int string

definition fresh :: "Sys \<Rightarrow> string \<Rightarrow> bool" where
  "fresh \<sigma> u \<longleftrightarrow> u |\<notin>| fmdom (fleets (srv \<sigma>)) \<and> u |\<notin>| fmdom (scenarios (srv \<sigma>)) \<and>
    fpc \<sigma> u = None \<and> pending \<sigma> u = None \<and> sjobs \<sigma> u = None"

inductive sys_step :: "(string \<Rightarrow> plan_error + Scenario) \<Rightarrow> Sys \<Rightarrow> event \<Rightarrow> Sys \<Rightarrow> bool"
  for load :: "string \<Rightarrow> plan_error + Scenario" where
  create_fleet:
    "fresh \<sigma> u \<Longrightarrow> createFleet u now (Some req) (srv \<sigma>) = (resp, Some job, s) \<Longrightarrow>
     sys_step load \<sigma> (CreateFleet u now req) (\<sigma>\<lparr>srv := s, fpc := (fpc \<sigma>)(u \<mapsto> Spawned)\<rparr>)"
| start_fleet:
    "fpc \<sigma> u = Some Spawned \<Longrightarrow>
     sys_step load \<sigma> (StartFleet u)
       (\<sigma>\<lparr>srv := fleet_started u (srv \<sigma>), fpc := (fpc \<sigma>)(u \<mapsto> Launching)\<rparr>)"
| finish_fleet:
    "fpc \<sigma> u = Some Launching \<Longrightarrow>
     sys_step load \<sigma> (FinishFleet u)
       (\<sigma>\<lparr>srv := fleet_finished u (srv \<sigma>), fpc := (fpc \<sigma>)(u \<mapsto> Done)\<rparr>)"
| delete_fleet:
    "sys_step load \<sigma> (DeleteFleet u) (\<sigma>\<lparr>srv := snd (deleteFleet u (srv \<sigma>))\<rparr>)"
| alloc_scenario:
    "fresh \<sigma> u \<Longrightarrow> create_prepare load (Some body) (srv \<sigma>) = Inr req \<Longrightarrow>
     create_allocate req (srv \<sigma>) = (ids, s) \<Longrightarrow>
     sys_step load \<sigma> (AllocScenario u body)
       (\<sigma>\<lparr>srv := s, pending := (pending \<sigma>)(u \<mapsto> (req, ids))\<rparr>)"
| register_scenario:
    "pending \<sigma> u = Some (req, ids) \<Longrightarrow> create_register u now req ids (srv \<sigma>) = (resp, job, s) \<Longrightarrow>
     sys_step load \<sigma> (RegisterScenario u now)
       (\<sigma>\<lparr>srv := s, pending := (pending \<sigma>)(u := None),
          sjobs := (sjobs \<sigma>)(u := map_option sjob_vmIDs job)\<rparr>)"
| finish_scenario:
    "sjobs \<sigma> u = Some ids \<Longrightarrow>
     sys_step load \<sigma> (FinishScenario u)
       (\<sigma>\<lparr>srv := scenario_finished u ids (srv \<sigma>), sjobs := (sjobs \<sigma>)(u := None)\<rparr>)"
| delete_scenario:
    "sys_step load \<sigma> (DeleteScenario u) (\<sigma>\<lparr>srv := snd (deleteScenario u (srv \<sigma>))\<rparr>)"
| get_scenario:
    "sys_step load \<sigma> (GetScenario now u) (\<sigma>\<lparr>srv := snd (getScenario now u (srv \<sigma>))\<rparr>)"
| hint_scenario:
    "sys_step load \<sigma> (HintScenario now u) (\<sigma>\<lparr>srv := snd (hintScenario now u (srv \<sigma>))\<rparr>)"
| hint_vm:
    "iter_order (scenarios (srv \<sigma>)) order \<Longrightarrow>
     sys_step load \<sigma> (HintVM order now path)
       (\<sigma>\<lparr>srv := snd (handleVM order now ''POST'' path (srv \<sigma>))\<rparr>)"

inductive_simps sys_step_simps:
  "sys_step load \<sigma> (CreateFleet u now req) \<tau>"
  "sys_step load \<sigma> (StartFleet u) \<tau>"
  "sys_step load \<sigma> (FinishFleet u) \<tau>"
  "sys_step load \<sigma> (DeleteFleet u) \<tau>"
  "sys_step load \<sigma> (AllocScenario u body) \<tau>"
  "sys_step load \<sigma> (RegisterScenario u now) \<tau>"
  "sys_step load \<sigma> (FinishScenario u) \<tau>"


section \<open>Holders of identifiers\<close>

datatype holder = FleetH string | ScenH string

definition holders :: "Sys \<Rightarrow> holder set" where
  "holders \<sigma> = {FleetH u | u. fpc \<sigma> u = Some Spawned \<or> fpc \<sigma> u = Some Launching} \<union>
    {ScenH u | u. pending \<sigma> u \<noteq> None \<or> sjobs \<sigma> u \<noteq> None}"

definition scen_held :: "(scenario_request \<times> int list) option \<Rightarrow> int list option \<Rightarrow> int list" where
  "scen_held waiting running =
    (case waiting of
       Some (req, ids) \<Rightarrow> ids
     | None \<Rightarrow> (case running of Some ids \<Rightarrow> ids | None \<Rightarrow> []))"

definition held :: "Sys \<Rightarrow> holder \<Rightarrow> int list" where
  "held \<sigma> h =
    (case h of
       FleetH u \<Rightarrow> (case fmlookup (fleets (srv \<sigma>)) u of None \<Rightarrow> [] | Some e \<Rightarrow> fleet_vmIDs e)
     | ScenH u \<Rightarrow> scen_held (pending \<sigma> u) (sjobs \<sigma> u))"

text \<open>
  The bookkeeping that links the program counters with the entries: a fleet with a goroutine is
  registered, it is stopped once its goroutine is done, a request is either pending or running,
  and a scenario that is shown as running has a goroutine that holds the VMs it lists.
\<close>

definition consistent :: "Sys \<Rightarrow> bool" where
  "consistent \<sigma> \<longleftrightarrow>
    (\<forall>u. fpc \<sigma> u \<noteq> None \<longrightarrow> (\<exists>e. fmlookup (fleets (srv \<sigma>)) u = Some e \<and>
      (fpc \<sigma> u = Some Done \<longrightarrow> fleet_Status e = ''stopped''))) \<and>
    (\<forall>u. fpc \<sigma> u = None \<longrightarrow> fmlookup (fleets (srv \<sigma>)) u = None) \<and>
    (\<forall>u. pending \<sigma> u \<noteq> None \<longrightarrow> sjobs \<sigma> u = None \<and> fmlookup (scenarios (srv \<sigma>)) u = None) \<and>
    (\<forall>u e. fmlookup (scenarios (srv \<sigma>)) u = Some e \<and> scen_Status e = ''running'' \<longrightarrow>
      sjobs \<sigma> u = Some (map vs_ID (scen_VMs e)))"

lemma map_vs_ID_statuses [simp]: "map vs_ID (vm_statuses ids) = ids"
  by (simp add: vm_statuses_def comp_def)

text \<open>What the handlers that only touch scenario entries leave alone.\<close>

definition same_entries :: "Server \<Rightarrow> Server \<Rightarrow> bool" where
  "same_entries s t \<longleftrightarrow> fleets t = fleets s \<and> usedIDs t = usedIDs s \<and>
    (\<forall>u. rel_option (\<lambda>e e'. scen_VMs e' = scen_VMs e \<and>
        (scen_Status e' = scen_Status e \<or> scen_Status e' = ''aborted''))
      (fmlookup (scenarios s) u) (fmlookup (scenarios t) u))"

lemma same_entries_refl [simp]: "same_entries s s"
  by (auto simp: same_entries_def option.rel_refl)

lemma same_entries_upd:
  assumes "fmlookup (scenarios s) u = Some e" "scen_VMs e' = scen_VMs e"
    "scen_Status e' = scen_Status e \<or> scen_Status e' = ''aborted''"
  shows "same_entries s (s\<lparr>scenarios := fmupd u e' (scenarios s)\<rparr>)"
  using assms by (auto simp: same_entries_def option.rel_refl)

lemma same_entries_serve_hint:
  "fmlookup (scenarios s) u = Some e \<Longrightarrow> same_entries s (snd (serve_hint now u e s))"
  by (auto simp: serve_hint_def Let_def split: option.splits prod.splits intro!: same_entries_upd)

lemma same_entries_handlers:
  "same_entries s (snd (deleteScenario u s))"
  "same_entries s (snd (getScenario now u s))"
  "same_entries s (snd (hintScenario now u s))"
  "same_entries s (snd (handleVM order now meth path s))"
  by (auto simp: deleteScenario_def getScenario_def hintScenario_def handleVM_def Let_def
      split: option.splits prod.splits list.splits intro!: same_entries_upd same_entries_serve_hint
      dest: find_owner_Some)

lemma same_entries_sys:
  assumes "same_entries (srv \<sigma>) t"
  shows "consistent \<sigma> \<Longrightarrow> consistent (\<sigma>\<lparr>srv := t\<rparr>)" and "holders (\<sigma>\<lparr>srv := t\<rparr>) = holders \<sigma>"
    and "held (\<sigma>\<lparr>srv := t\<rparr>) = held \<sigma>" and "usedIDs t = usedIDs (srv \<sigma>)"
proof -
  have f: "fleets t = fleets (srv \<sigma>)" "usedIDs t = usedIDs (srv \<sigma>)"
    and sc: "rel_option (\<lambda>e e'. scen_VMs e' = scen_VMs e \<and>
        (scen_Status e' = scen_Status e \<or> scen_Status e' = ''aborted''))
      (fmlookup (scenarios (srv \<sigma>)) u) (fmlookup (scenarios t) u)" for u
    using assms by (auto simp: same_entries_def)
  show "holders (\<sigma>\<lparr>srv := t\<rparr>) = holders \<sigma>" "held (\<sigma>\<lparr>srv := t\<rparr>) = held \<sigma>"
    "usedIDs t = usedIDs (srv \<sigma>)"
    using f by (auto simp: holders_def held_def fun_eq_iff split: holder.splits option.splits)
  assume c: "consistent \<sigma>"
  have run: "sjobs \<sigma> u = Some (map vs_ID (scen_VMs e))"
    if "fmlookup (scenarios t) u = Some e" "scen_Status e = ''running''" for u e
    using sc[of u] that c by (auto simp: consistent_def option_rel_Some2)
  have none: "fmlookup (scenarios t) u = None" if "fmlookup (scenarios (srv \<sigma>)) u = None" for u
    using sc[of u] that by simp
  show "consistent (\<sigma>\<lparr>srv := t\<rparr>)"
    using c f run none unfolding consistent_def by simp
qed

lemma consistent_step:
  assumes "consistent \<sigma>" "sys_step load \<sigma> e \<tau>"
  shows "consistent \<tau>"
  using assms(2)
proof (cases rule: sys_step.cases)
  case (create_fleet u now req resp job s)
  then show ?thesis
    using assms(1) by (auto simp: consistent_def createFleet_def Let_def fresh_def split: prod.splits)
next
  case (start_fleet u)
  then show ?thesis
    using assms(1) by (auto simp: consistent_def fleet_started_def split: option.splits)
next
  case (finish_fleet u)
  then show ?thesis
    using assms(1) by (auto simp: consistent_def fleet_finished_def split: option.splits)
next
  case (delete_fleet u)
  then show ?thesis
    using assms(1)
    by (auto simp: consistent_def deleteFleet_def Let_def split: option.splits if_splits)
next
  case (alloc_scenario u body req ids s)
  then show ?thesis
    using assms(1)
    by (auto simp: consistent_def create_allocate_def fresh_def fmdom_notD split: prod.splits)
next
  case (register_scenario u req ids now resp job s)
  then show ?thesis
    using assms(1)
    by (auto simp: consistent_def create_register_def Let_def split: sum.splits prod.splits if_splits)
next
  case (finish_scenario u ids)
  then show ?thesis
    using assms(1)
    by (auto simp: consistent_def scenario_finished_def Let_def split: option.splits if_splits)
qed (use assms(1) same_entries_sys(1)[OF same_entries_handlers(1)] same_entries_sys(1)[OF same_entries_handlers(2)]
       same_entries_sys(1)[OF same_entries_handlers(3)] same_entries_sys(1)[OF same_entries_handlers(4)] in blast)+

section \<open>What a step does to the identifiers\<close>

text \<open>
  The abstract view: holders acquire, keep or release identifiers.  An \<^emph>\<open>early\<close> release frees the
  identifiers of a holder that goes on holding them.
\<close>

definition keeps :: "Sys \<Rightarrow> Sys \<Rightarrow> holder set \<Rightarrow> bool" where
  "keeps \<sigma> \<tau> H \<longleftrightarrow> (\<forall>k\<in>H. held \<tau> k = held \<sigma> k)"

inductive pool_effect :: "bool \<Rightarrow> Sys \<Rightarrow> Sys \<Rightarrow> bool" where
  acquire:
    "h \<notin> holders \<sigma> \<Longrightarrow> allocateVMIDs (usedIDs (srv \<sigma>)) n = (held \<tau> h, usedIDs (srv \<tau>)) \<Longrightarrow>
     holders \<tau> = insert h (holders \<sigma>) \<Longrightarrow> keeps \<sigma> \<tau> (holders \<sigma>) \<Longrightarrow> pool_effect False \<sigma> \<tau>"
| keep:
    "usedIDs (srv \<tau>) = usedIDs (srv \<sigma>) \<Longrightarrow> holders \<tau> = holders \<sigma> \<Longrightarrow> keeps \<sigma> \<tau> (holders \<sigma>) \<Longrightarrow>
     pool_effect False \<sigma> \<tau>"
| release:
    "h \<in> holders \<sigma> \<Longrightarrow> usedIDs (srv \<tau>) = releaseVMIDs (usedIDs (srv \<sigma>)) (held \<sigma> h) \<Longrightarrow>
     holders \<tau> = holders \<sigma> - {h} \<Longrightarrow> keeps \<sigma> \<tau> (holders \<tau>) \<Longrightarrow> pool_effect False \<sigma> \<tau>"
| early:
    "usedIDs (srv \<tau>) = releaseVMIDs (usedIDs (srv \<sigma>)) ids \<Longrightarrow> holders \<tau> = holders \<sigma> \<Longrightarrow>
     keeps \<sigma> \<tau> (holders \<sigma>) \<Longrightarrow> pool_effect True \<sigma> \<tau>"

text \<open>Deleting a fleet whose goroutine has not ended.\<close>

definition deletes_live :: "Sys \<Rightarrow> event \<Rightarrow> bool" where
  "deletes_live \<sigma> e = (case e of DeleteFleet u \<Rightarrow> FleetH u \<in> holders \<sigma> | _ \<Rightarrow> False)"

lemma held_FleetH:
  "held \<sigma> (FleetH u) = (case fmlookup (fleets (srv \<sigma>)) u of None \<Rightarrow> [] | Some e \<Rightarrow> fleet_vmIDs e)"
  by (simp add: held_def)

lemma held_ScenH:
  "held \<sigma> (ScenH u) = scen_held (pending \<sigma> u) (sjobs \<sigma> u)"
  by (simp add: held_def)

lemma scen_held_simps [simp]:
  "scen_held (Some (req, ids)) j = ids" "scen_held None (Some ids) = ids" "scen_held None None = []"
  by (simp_all add: scen_held_def)

lemma in_holders [simp]:
  "FleetH u \<in> holders \<sigma> \<longleftrightarrow> fpc \<sigma> u = Some Spawned \<or> fpc \<sigma> u = Some Launching"
  "ScenH u \<in> holders \<sigma> \<longleftrightarrow> pending \<sigma> u \<noteq> None \<or> sjobs \<sigma> u \<noteq> None"
  by (auto simp: holders_def)

lemma holder_set_eqI:
  assumes "\<And>u. FleetH u \<in> A \<longleftrightarrow> FleetH u \<in> B" "\<And>u. ScenH u \<in> A \<longleftrightarrow> ScenH u \<in> B"
  shows "A = B"
  using assms holder.exhaust by (metis set_eqI)

lemma keepsI:
  assumes "\<And>u. FleetH u \<in> H \<Longrightarrow> held \<tau> (FleetH u) = held \<sigma> (FleetH u)"
    and "\<And>u. ScenH u \<in> H \<Longrightarrow> held \<tau> (ScenH u) = held \<sigma> (ScenH u)"
  shows "keeps \<sigma> \<tau> H"
  using assms holder.exhaust unfolding keeps_def by metis

lemma same_entries_effect:
  assumes "same_entries (srv \<sigma>) t"
  shows "pool_effect False \<sigma> (\<sigma>\<lparr>srv := t\<rparr>)"
  using same_entries_sys[OF assms] by (intro pool_effect.keep) (simp_all add: keeps_def)

lemma effect_create_fleet:
  assumes "sys_step load \<sigma> (CreateFleet u now req) \<tau>"
  shows "pool_effect False \<sigma> \<tau>"
proof -
  obtain resp job s where fr: "fresh \<sigma> u" and cr: "createFleet u now (Some req) (srv \<sigma>) = (resp, Some job, s)"
    and \<tau>: "\<tau> = \<sigma>\<lparr>srv := s, fpc := (fpc \<sigma>)(u \<mapsto> Spawned)\<rparr>"
    using assms by (auto simp: sys_step_simps)
  let ?n = "nat (max 1 (fcr_Count req))"
  obtain ids used where al: "allocateVMIDs (usedIDs (srv \<sigma>)) ?n = (ids, used)" by fastforce
  have "nat (fcr_Count (if fcr_Count req < 1 then req\<lparr>fcr_Count := 1\<rparr> else req)) = ?n" by simp
  then obtain en where s: "s = (srv \<sigma>)\<lparr>usedIDs := used, fleets := fmupd u en (fleets (srv \<sigma>))\<rparr>" "fleet_vmIDs en = ids"
    using cr al by (auto simp: createFleet_def Let_def split: prod.splits)
  show ?thesis
  proof (rule pool_effect.acquire[where h = "FleetH u" and n = ?n])
    show "holders \<tau> = insert (FleetH u) (holders \<sigma>)" unfolding \<tau> by (rule holder_set_eqI) auto
  qed (use fr al s in \<open>auto intro!: keepsI simp: \<tau> held_FleetH held_ScenH fresh_def\<close>)
qed

lemma effect_start_fleet:
  assumes "sys_step load \<sigma> (StartFleet u) \<tau>"
  shows "pool_effect False \<sigma> \<tau>"
proof -
  have sp: "fpc \<sigma> u = Some Spawned" and \<tau>: "\<tau> = \<sigma>\<lparr>srv := fleet_started u (srv \<sigma>), fpc := (fpc \<sigma>)(u \<mapsto> Launching)\<rparr>"
    using assms by (auto simp: sys_step_simps)
  show ?thesis
  proof (rule pool_effect.keep)
    show "holders \<tau> = holders \<sigma>" unfolding \<tau> using sp by (intro holder_set_eqI) auto
  qed (auto intro!: keepsI simp: \<tau> held_FleetH held_ScenH fleet_started_def split: option.splits)
qed

lemma effect_finish_fleet:
  assumes "consistent \<sigma>" "sys_step load \<sigma> (FinishFleet u) \<tau>"
  shows "pool_effect False \<sigma> \<tau>"
proof -
  have la: "fpc \<sigma> u = Some Launching" and \<tau>: "\<tau> = \<sigma>\<lparr>srv := fleet_finished u (srv \<sigma>), fpc := (fpc \<sigma>)(u \<mapsto> Done)\<rparr>"
    using assms(2) by (auto simp: sys_step_simps)
  obtain en where en: "fmlookup (fleets (srv \<sigma>)) u = Some en"
    using assms(1) la by (fastforce simp: consistent_def)
  show ?thesis
  proof (rule pool_effect.release[where h = "FleetH u"])
    show "holders \<tau> = holders \<sigma> - {FleetH u}" unfolding \<tau> using la by (intro holder_set_eqI) auto
  qed (use la en in \<open>auto intro!: keepsI simp: \<tau> held_FleetH held_ScenH fleet_finished_def\<close>)
qed

lemma effect_delete_fleet:
  assumes "consistent \<sigma>" "sys_step load \<sigma> (DeleteFleet u) \<tau>"
  shows "pool_effect False \<sigma> \<tau> \<or> FleetH u \<in> holders \<sigma> \<and> pool_effect True \<sigma> \<tau>"
proof -
  have \<tau>: "\<tau> = \<sigma>\<lparr>srv := snd (deleteFleet u (srv \<sigma>))\<rparr>" using assms(2) by (simp add: sys_step_simps)
  have h: "holders \<tau> = holders \<sigma>" unfolding \<tau> by (rule holder_set_eqI) auto
  have k: "keeps \<sigma> \<tau> (holders \<sigma>)"
    by (auto intro!: keepsI simp: \<tau> held_FleetH held_ScenH deleteFleet_def Let_def split: option.splits)
  have "usedIDs (srv \<tau>) = usedIDs (srv \<sigma>) \<or> (\<exists>en. fmlookup (fleets (srv \<sigma>)) u = Some en \<and>
      fleet_Status en \<noteq> ''stopped'' \<and> usedIDs (srv \<tau>) = releaseVMIDs (usedIDs (srv \<sigma>)) (fleet_vmIDs en))"
    by (cases "fmlookup (fleets (srv \<sigma>)) u") (auto simp: \<tau> deleteFleet_def Let_def)
  then consider "usedIDs (srv \<tau>) = usedIDs (srv \<sigma>)"
    | en where "fmlookup (fleets (srv \<sigma>)) u = Some en" "fleet_Status en \<noteq> ''stopped''"
      "usedIDs (srv \<tau>) = releaseVMIDs (usedIDs (srv \<sigma>)) (fleet_vmIDs en)" by blast
  then show ?thesis
  proof cases
    case 1
    then show ?thesis using pool_effect.keep h k by blast
  next
    case (2 en)
    then have "FleetH u \<in> holders \<sigma>"
      using assms(1) by (cases "fpc \<sigma> u"; cases "the (fpc \<sigma> u)") (fastforce simp: consistent_def)+
    then show ?thesis using pool_effect.early[OF 2(3) h k] by blast
  qed
qed

lemma effect_alloc_scenario:
  assumes "sys_step load \<sigma> (AllocScenario u body) \<tau>"
  shows "pool_effect False \<sigma> \<tau>"
proof -
  obtain req ids s where fr: "fresh \<sigma> u" and al: "create_allocate req (srv \<sigma>) = (ids, s)"
    and \<tau>: "\<tau> = \<sigma>\<lparr>srv := s, pending := (pending \<sigma>)(u \<mapsto> (req, ids))\<rparr>"
    using assms by (auto simp: sys_step_simps)
  obtain used where s: "s = (srv \<sigma>)\<lparr>usedIDs := used\<rparr>"
    and ids: "allocateVMIDs (usedIDs (srv \<sigma>)) (nat (sr_total req)) = (ids, used)"
    using al by (auto simp: create_allocate_def split: prod.splits)
  show ?thesis
  proof (rule pool_effect.acquire[where h = "ScenH u" and n = "nat (sr_total req)"])
    show "holders \<tau> = insert (ScenH u) (holders \<sigma>)" unfolding \<tau> by (rule holder_set_eqI) auto
  qed (use fr s ids in \<open>auto intro!: keepsI simp: \<tau> held_FleetH held_ScenH fresh_def\<close>)
qed

lemma effect_register_scenario:
  assumes "consistent \<sigma>" "sys_step load \<sigma> (RegisterScenario u now) \<tau>"
  shows "pool_effect False \<sigma> \<tau>"
proof -
  obtain req ids resp job s where p: "pending \<sigma> u = Some (req, ids)" "sjobs \<sigma> u = None"
    and cr: "create_register u now req ids (srv \<sigma>) = (resp, job, s)"
    and \<tau>: "\<tau> = \<sigma>\<lparr>srv := s, pending := (pending \<sigma>)(u := None), sjobs := (sjobs \<sigma>)(u := map_option sjob_vmIDs job)\<rparr>"
    using assms by (auto simp: sys_step_simps consistent_def)
  show ?thesis
  proof (cases "NewRunner (sr_scenario req) (run_options req ids)")
    case (Inl err)
    then have s: "s = (srv \<sigma>)\<lparr>usedIDs := releaseVMIDs (usedIDs (srv \<sigma>)) ids\<rparr>" "job = None"
      using cr by (auto simp: create_register_def)
    show ?thesis
    proof (rule pool_effect.release[where h = "ScenH u"])
      show "holders \<tau> = holders \<sigma> - {ScenH u}" unfolding \<tau> using s(2) p by (intro holder_set_eqI) auto
    qed (use p s in \<open>auto intro!: keepsI simp: \<tau> held_FleetH held_ScenH\<close>)
  next
    case (Inr r)
    then have s: "usedIDs s = usedIDs (srv \<sigma>)" "fleets s = fleets (srv \<sigma>)" "map_option sjob_vmIDs job = Some ids"
      using cr by (auto simp: create_register_def Let_def)
    show ?thesis
    proof (rule pool_effect.keep)
      show "holders \<tau> = holders \<sigma>" unfolding \<tau> using s(3) p by (intro holder_set_eqI) auto
    qed (use p s in \<open>auto intro!: keepsI simp: \<tau> held_FleetH held_ScenH\<close>)
  qed
qed

lemma effect_finish_scenario:
  assumes "consistent \<sigma>" "sys_step load \<sigma> (FinishScenario u) \<tau>"
  shows "pool_effect False \<sigma> \<tau>"
proof -
  obtain ids where j: "sjobs \<sigma> u = Some ids"
    and \<tau>: "\<tau> = \<sigma>\<lparr>srv := scenario_finished u ids (srv \<sigma>), sjobs := (sjobs \<sigma>)(u := None)\<rparr>"
    using assms(2) by (auto simp: sys_step_simps)
  have "pending \<sigma> u \<noteq> None \<Longrightarrow> sjobs \<sigma> u = None" using assms(1) unfolding consistent_def by blast
  with j have p: "pending \<sigma> u = None" by (metis option.distinct(1))
  have s: "usedIDs (srv \<tau>) = releaseVMIDs (usedIDs (srv \<sigma>)) ids" "fleets (srv \<tau>) = fleets (srv \<sigma>)"
    by (auto simp: \<tau> scenario_finished_def Let_def split: option.splits)
  show ?thesis
  proof (rule pool_effect.release[where h = "ScenH u"])
    show "holders \<tau> = holders \<sigma> - {ScenH u}" unfolding \<tau> using p by (intro holder_set_eqI) auto
    show "keeps \<sigma> \<tau> (holders \<tau>)"
      using s(2) by (intro keepsI) (simp_all add: held_FleetH, auto simp: held_ScenH \<tau> p)
  qed (use p s j in \<open>auto simp: held_ScenH\<close>)
qed

text \<open>
  The refinement: every step of the system is one of the abstract steps, and early releases come
  from deleting live fleets only.
\<close>

lemma sys_step_effect:
  assumes "consistent \<sigma>" "sys_step load \<sigma> e \<tau>"
  shows "pool_effect False \<sigma> \<tau> \<or> deletes_live \<sigma> e \<and> pool_effect True \<sigma> \<tau>"
proof (cases e)
  case (DeleteFleet u)
  then show ?thesis using effect_delete_fleet assms by (auto simp: deletes_live_def)
next
  case (GetScenario now u)
  then show ?thesis
    using assms(2) same_entries_effect[OF same_entries_handlers(2)] by (auto elim: sys_step.cases)
next
  case (HintScenario now u)
  then show ?thesis
    using assms(2) same_entries_effect[OF same_entries_handlers(3)] by (auto elim: sys_step.cases)
next
  case (HintVM order now path)
  then show ?thesis
    using assms(2) same_entries_effect[OF same_entries_handlers(4)] by (auto elim: sys_step.cases)
next
  case (DeleteScenario u)
  then show ?thesis
    using assms(2) same_entries_effect[OF same_entries_handlers(1)] by (auto elim: sys_step.cases)
next
  case (CreateFleet u now req)
  with assms show ?thesis by (simp add: effect_create_fleet)
next
  case (StartFleet u)
  with assms show ?thesis by (simp add: effect_start_fleet)
next
  case (FinishFleet u)
  with assms show ?thesis by (simp add: effect_finish_fleet)
next
  case (AllocScenario u body)
  with assms show ?thesis by (simp add: effect_alloc_scenario)
next
  case (RegisterScenario u now)
  with assms show ?thesis by (simp add: effect_register_scenario)
next
  case (FinishScenario u)
  with assms show ?thesis by (simp add: effect_finish_scenario)
qed

section \<open>Invariants\<close>

definition no_leak :: "Sys \<Rightarrow> bool" where
  "no_leak \<sigma> \<longleftrightarrow> consistent \<sigma> \<and> pool.covered (usedIDs (srv \<sigma>)) (holders \<sigma>) (held \<sigma>)"

definition exclusive :: "Sys \<Rightarrow> bool" where
  "exclusive \<sigma> \<longleftrightarrow> consistent \<sigma> \<and> pool.owned (usedIDs (srv \<sigma>)) (holders \<sigma>) (held \<sigma>)"

text \<open>The steps that delete no live fleet.\<close>

definition gentle_step :: "(string \<Rightarrow> plan_error + Scenario) \<Rightarrow> Sys \<Rightarrow> event \<Rightarrow> Sys \<Rightarrow> bool" where
  "gentle_step load \<sigma> e \<tau> \<longleftrightarrow> sys_step load \<sigma> e \<tau> \<and> \<not> deletes_live \<sigma> e"

lemma covered_effect:
  assumes "pool_effect b \<sigma> \<tau>" "pool.covered (usedIDs (srv \<sigma>)) (holders \<sigma>) (held \<sigma>)"
  shows "pool.covered (usedIDs (srv \<tau>)) (holders \<tau>) (held \<tau>)"
  using assms(1)
proof cases
  case (acquire h n)
  show ?thesis
    unfolding acquire(4)
    by (rule pool.covered_alloc[OF assms(2) acquire(3)]) (use acquire(5) in \<open>auto simp: keeps_def\<close>)
next
  case keep
  then show ?thesis
    using assms(2) pool.covered_cong[of "holders \<sigma>" "held \<tau>" "held \<sigma>"] by (simp add: keeps_def)
next
  case (release h)
  have "pool.covered (usedIDs (srv \<tau>)) (holders \<sigma> - {h}) (held \<sigma>)"
    unfolding release(3) by (rule pool.covered_release[OF assms(2)])
  then show ?thesis
    using release(4,5) pool.covered_cong[of "holders \<tau>" "held \<tau>" "held \<sigma>"] by (simp add: keeps_def)
next
  case (early ids)
  then show ?thesis
    using pool.covered_release_keep[OF assms(2)] pool.covered_cong[of "holders \<sigma>" "held \<tau>" "held \<sigma>"]
    by (simp add: keeps_def)
qed

lemma owned_effect:
  assumes "pool_effect False \<sigma> \<tau>" "pool.owned (usedIDs (srv \<sigma>)) (holders \<sigma>) (held \<sigma>)"
  shows "pool.owned (usedIDs (srv \<tau>)) (holders \<tau>) (held \<tau>)"
  using assms(1)
proof cases
  case (acquire h n)
  show ?thesis
    unfolding acquire(3)
    by (rule pool.owned_alloc[OF assms(2) acquire(2) acquire(1)]) (use acquire(4) in \<open>auto simp: keeps_def\<close>)
next
  case keep
  then show ?thesis
    using assms(2) pool.owned_cong[of "holders \<sigma>" "held \<tau>" "held \<sigma>"] by (simp add: keeps_def)
next
  case (release h)
  have "pool.owned (usedIDs (srv \<tau>)) (holders \<sigma> - {h}) (held \<sigma>)"
    unfolding release(2) by (rule pool.owned_release[OF assms(2) release(1)])
  then show ?thesis
    using release(3,4) pool.owned_cong[of "holders \<tau>" "held \<tau>" "held \<sigma>"] by (simp add: keeps_def)
qed simp

interpretation leak_free: step_invariant "sys_step load" no_leak for load
  by unfold_locales (use consistent_step sys_step_effect covered_effect in \<open>unfold no_leak_def, blast\<close>)

interpretation gentle: step_invariant "gentle_step load" exclusive for load
proof
  fix \<sigma> e \<tau> assume ex: "exclusive \<sigma>" and st: "gentle_step load \<sigma> e \<tau>"
  then have "consistent \<tau>" "pool_effect False \<sigma> \<tau>"
    using consistent_step sys_step_effect unfolding exclusive_def gentle_step_def by blast+
  with ex show "exclusive \<tau>" using owned_effect unfolding exclusive_def by blast
qed

lemma initial_holders: "holders (initial cfg) = {}"
  by (auto simp: holders_def initial_def)

lemma initial_consistent: "consistent (initial cfg)"
  by (simp add: consistent_def initial_def NewServer_def)

lemma initial_no_leak: "no_leak (initial cfg)"
  using initial_consistent
  by (simp add: no_leak_def pool.covered_def initial_holders used_set_def is_used_def)
     (simp add: initial_def NewServer_def)

lemma initial_exclusive: "exclusive (initial cfg)"
  using initial_consistent by (simp add: exclusive_def pool.owned_def initial_holders)

text \<open>
  C3. Identifiers are never leaked.  In every interleaving of requests and goroutines, deletions
  included, every identifier marked as used is among those held by a fleet whose goroutine has
  not ended, or by a scenario request or run in progress; so when all of them are over, every
  identifier is free again.
\<close>

theorem ids_never_leak:
  assumes "steps (sys_step load) (initial cfg) es \<sigma>"
  shows "used_set (usedIDs (srv \<sigma>)) \<subseteq> (\<Union>h\<in>holders \<sigma>. set (held \<sigma> h)) \<and>
    (holders \<sigma> = {} \<longrightarrow> used_set (usedIDs (srv \<sigma>)) = {})"
proof -
  have "no_leak \<sigma>" using leak_free.steps_inv[OF assms initial_no_leak] .
  then show ?thesis by (auto simp: no_leak_def pool.covered_def)
qed

text \<open>
  C2. Exclusive use.  In every interleaving in which no fleet is deleted while its goroutine
  is alive, two different holders (fleets, scenarios being created, running scenarios) never
  hold the same identifier, each holds different identifiers, and all of them are marked as used,
  so the next allocation avoids them.
\<close>

theorem ids_exclusive:
  assumes "steps (gentle_step load) (initial cfg) es \<sigma>" "h \<in> holders \<sigma>" "k \<in> holders \<sigma>" "h \<noteq> k"
  shows "set (held \<sigma> h) \<inter> set (held \<sigma> k) = {} \<and> distinct (held \<sigma> h) \<and>
    set (held \<sigma> h) \<subseteq> used_set (usedIDs (srv \<sigma>))"
proof -
  have "exclusive \<sigma>" using gentle.steps_inv[OF assms(1) initial_exclusive] .
  with assms(2-) show ?thesis by (auto simp: exclusive_def pool.owned_def)
qed

text \<open>
  A VM belongs to one scenario.  In the same interleavings no two scenarios that are
  shown as running list the same VM, which is what the hint endpoint for VMs needs.
\<close>

theorem running_scenarios_disjoint:
  assumes "steps (gentle_step load) (initial cfg) es \<sigma>"
    and "owns (srv \<sigma>) vmID k" "owns (srv \<sigma>) vmID k'"
  shows "k = k'"
proof -
  have ex: "exclusive \<sigma>" using gentle.steps_inv[OF assms(1) initial_exclusive] .
  have own: "ScenH u \<in> holders \<sigma> \<and> vmID \<in> set (held \<sigma> (ScenH u))" if o: "owns (srv \<sigma>) vmID u" for u
  proof -
    obtain e where e: "fmlookup (scenarios (srv \<sigma>)) u = Some e" "scen_Status e = ''running''"
      "vmID \<in> vs_ID ` set (scen_VMs e)" using o unfolding owns_def by blast
    have c: "consistent \<sigma>" using ex by (simp add: exclusive_def)
    then have j: "sjobs \<sigma> u = Some (map vs_ID (scen_VMs e))" using e unfolding consistent_def by blast
    have "pending \<sigma> u = None" using c e(1) unfolding consistent_def by (metis option.distinct(1))
    with j e(3) show ?thesis by (simp add: held_ScenH)
  qed
  show ?thesis
  proof (rule ccontr)
    assume "k \<noteq> k'"
    then have "set (held \<sigma> (ScenH k)) \<inter> set (held \<sigma> (ScenH k')) = {}"
      using ex own[OF assms(2)] own[OF assms(3)] unfolding exclusive_def pool.owned_def by blast
    with own[OF assms(2)] own[OF assms(3)] show False by blast
  qed
qed

section \<open>Deleting a live fleet\<close>

text \<open>One-VM fleets, and the steps of their life as functions.\<close>

definition one_vm :: fleetCreateRequest where
  "one_vm = \<lparr>fcr_Count = 1, fcr_Kernel = '''', fcr_RootFS = '''', fcr_CloudInitISO = '''',
    fcr_MemMB = 0, fcr_VCPUs = 0, fcr_DiskMB = 0\<rparr>"

definition after_create :: "string \<Rightarrow> Sys \<Rightarrow> Sys" where
  "after_create u \<sigma> = \<sigma>\<lparr>srv := snd (snd (createFleet u 0 (Some one_vm) (srv \<sigma>))),
    fpc := (fpc \<sigma>)(u \<mapsto> Spawned)\<rparr>"

definition after_start :: "string \<Rightarrow> Sys \<Rightarrow> Sys" where
  "after_start u \<sigma> = \<sigma>\<lparr>srv := fleet_started u (srv \<sigma>), fpc := (fpc \<sigma>)(u \<mapsto> Launching)\<rparr>"

definition after_finish :: "string \<Rightarrow> Sys \<Rightarrow> Sys" where
  "after_finish u \<sigma> = \<sigma>\<lparr>srv := fleet_finished u (srv \<sigma>), fpc := (fpc \<sigma>)(u \<mapsto> Done)\<rparr>"

definition after_delete :: "string \<Rightarrow> Sys \<Rightarrow> Sys" where
  "after_delete u \<sigma> = \<sigma>\<lparr>srv := snd (deleteFleet u (srv \<sigma>))\<rparr>"

lemma allocate_one:
  assumes "\<not> is_used m 0"
  shows "allocateVMIDs m (Suc 0) = ([0], fmupd 0 True m)"
proof -
  have "alloc_loop m (Suc 0) [] 0 = alloc_loop m (Suc 0) [0] 1"
    using assms by (subst alloc_loop.simps) simp
  also have "\<dots> = [0]" by (subst alloc_loop.simps) simp
  finally show ?thesis by (simp add: allocateVMIDs_def)
qed

lemma createFleet_one:
  assumes "\<not> is_used (usedIDs s) 0"
  shows "\<exists>resp job. createFleet u 0 (Some one_vm) s = (resp, Some job,
    s\<lparr>usedIDs := fmupd 0 True (usedIDs s), fleets := fmupd u
      \<lparr>fleet_ID = u, fleet_Count = 1, fleet_Status = ''starting'', fleet_VMs = vm_statuses [0],
       fleet_WebPort = 0, fleet_CreatedAt = 0, fleet_vmIDs = [0], fleet_cancelled = False\<rparr> (fleets s)\<rparr>)"
  using allocate_one[OF assms] by (simp add: createFleet_def one_vm_def Let_def)

lemma after_create_one:
  assumes "\<not> is_used (usedIDs (srv \<sigma>)) 0"
  shows "srv (after_create u \<sigma>) = (srv \<sigma>)\<lparr>usedIDs := fmupd 0 True (usedIDs (srv \<sigma>)), fleets := fmupd u
      \<lparr>fleet_ID = u, fleet_Count = 1, fleet_Status = ''starting'', fleet_VMs = vm_statuses [0],
       fleet_WebPort = 0, fleet_CreatedAt = 0, fleet_vmIDs = [0], fleet_cancelled = False\<rparr> (fleets (srv \<sigma>))\<rparr>"
    and "fpc (after_create u \<sigma>) = (fpc \<sigma>)(u \<mapsto> Spawned)"
    and "fresh \<sigma> u \<Longrightarrow> sys_step load \<sigma> (CreateFleet u 0 one_vm) (after_create u \<sigma>)"
  using createFleet_one[OF assms, of u] by (auto simp: after_create_def intro: sys_step.create_fleet)

lemma after_steps:
  "fpc \<sigma> u = Some Spawned \<Longrightarrow> sys_step load \<sigma> (StartFleet u) (after_start u \<sigma>)"
  "fpc \<sigma> u = Some Launching \<Longrightarrow> sys_step load \<sigma> (FinishFleet u) (after_finish u \<sigma>)"
  "sys_step load \<sigma> (DeleteFleet u) (after_delete u \<sigma>)"
  by (auto simp: after_start_def after_finish_def after_delete_def intro: sys_step.intros)

text \<open>The run: fleet A is deleted while it runs, B gets its identifier, A ends, C gets it too.\<close>

definition sysA1 :: Sys where "sysA1 = after_start ''A'' (after_create ''A'' (initial DefaultConfig))"
definition sysA2 :: Sys where "sysA2 = after_delete ''A'' sysA1"
definition sysB1 :: Sys where "sysB1 = after_start ''B'' (after_create ''B'' sysA2)"
definition sysB2 :: Sys where "sysB2 = after_finish ''A'' sysB1"
definition sysC1 :: Sys where "sysC1 = after_start ''C'' (after_create ''C'' sysB2)"

definition entry_of :: "string \<Rightarrow> string \<Rightarrow> bool \<Rightarrow> FleetEntry" where
  "entry_of u status c =
    \<lparr>fleet_ID = u, fleet_Count = 1, fleet_Status = status, fleet_VMs = vm_statuses [0],
     fleet_WebPort = 0, fleet_CreatedAt = 0, fleet_vmIDs = [0], fleet_cancelled = c\<rparr>"

lemma fleets_one:
  assumes "\<not> is_used (usedIDs (srv \<sigma>)) 0"
  shows "fleets (srv (after_start u (after_create u \<sigma>))) = fmupd u (entry_of u ''running'' False) (fleets (srv \<sigma>))"
    and "usedIDs (srv (after_start u (after_create u \<sigma>))) = fmupd 0 True (usedIDs (srv \<sigma>))"
    and "fpc (after_start u (after_create u \<sigma>)) = (fpc \<sigma>)(u \<mapsto> Launching)"
    and "scenarios (srv (after_start u (after_create u \<sigma>))) = scenarios (srv \<sigma>)"
    and "pending (after_start u (after_create u \<sigma>)) = pending \<sigma>"
    and "sjobs (after_start u (after_create u \<sigma>)) = sjobs \<sigma>"
    and "fresh \<sigma> u \<Longrightarrow> steps (sys_step load) \<sigma> [CreateFleet u 0 one_vm, StartFleet u] (after_start u (after_create u \<sigma>))"
proof -
  note ac = after_create_one[OF assms, of u]
  show "fresh \<sigma> u \<Longrightarrow> steps (sys_step load) \<sigma> [CreateFleet u 0 one_vm, StartFleet u] (after_start u (after_create u \<sigma>))"
    using ac(2,3) after_steps(1) by (auto intro!: steps_Cons)
  show "pending (after_start u (after_create u \<sigma>)) = pending \<sigma>"
    "sjobs (after_start u (after_create u \<sigma>)) = sjobs \<sigma>"
    by (simp_all add: after_start_def after_create_def)
  show "fleets (srv (after_start u (after_create u \<sigma>))) = fmupd u (entry_of u ''running'' False) (fleets (srv \<sigma>))"
    by (rule fmap_ext) (simp add: after_start_def fleet_started_def ac entry_of_def)
qed (simp_all add: after_start_def fleet_started_def after_create_one[OF assms])

lemma fleets_delete:
  assumes "fmlookup (fleets (srv \<sigma>)) u = Some (entry_of u ''running'' False)"
  shows "fleets (srv (after_delete u \<sigma>)) = fmupd u (entry_of u ''stopped'' True) (fleets (srv \<sigma>))"
    and "usedIDs (srv (after_delete u \<sigma>)) = fmdrop 0 (usedIDs (srv \<sigma>))"
    and "fpc (after_delete u \<sigma>) = fpc \<sigma>" "scenarios (srv (after_delete u \<sigma>)) = scenarios (srv \<sigma>)"
    and "pending (after_delete u \<sigma>) = pending \<sigma>" "sjobs (after_delete u \<sigma>) = sjobs \<sigma>"
  using assms by (simp_all add: after_delete_def deleteFleet_def Let_def entry_of_def releaseVMIDs_def)

lemma fleets_finish:
  assumes "fmlookup (fleets (srv \<sigma>)) u = Some (entry_of u st c)"
  shows "fleets (srv (after_finish u \<sigma>)) = fmupd u (entry_of u ''stopped'' c) (fleets (srv \<sigma>))"
    and "usedIDs (srv (after_finish u \<sigma>)) = fmdrop 0 (usedIDs (srv \<sigma>))"
    and "fpc (after_finish u \<sigma>) = (fpc \<sigma>)(u \<mapsto> Done)" "scenarios (srv (after_finish u \<sigma>)) = scenarios (srv \<sigma>)"
    and "pending (after_finish u \<sigma>) = pending \<sigma>" "sjobs (after_finish u \<sigma>) = sjobs \<sigma>"
  using assms by (simp_all add: after_finish_def fleet_finished_def entry_of_def releaseVMIDs_def)

lemma initial_simps:
  "fleets (srv (initial cfg)) = fmempty" "scenarios (srv (initial cfg)) = fmempty"
  "usedIDs (srv (initial cfg)) = fmempty" "fpc (initial cfg) = Map.empty"
  "pending (initial cfg) = Map.empty" "sjobs (initial cfg) = Map.empty"
  by (simp_all add: initial_def NewServer_def)

lemma sys_one: "sys_step load \<sigma> e \<tau> \<Longrightarrow> steps (sys_step load) \<sigma> [e] \<tau>"
  by auto

lemma run_A:
  "steps (sys_step load) (initial DefaultConfig) [CreateFleet ''A'' 0 one_vm, StartFleet ''A'', DeleteFleet ''A''] sysA2"
  "fleets (srv sysA2) = fmupd ''A'' (entry_of ''A'' ''stopped'' True) fmempty" "scenarios (srv sysA2) = fmempty"
  "usedIDs (srv sysA2) = fmempty" "fpc sysA2 = [''A'' \<mapsto> Launching]" "pending sysA2 = Map.empty" "sjobs sysA2 = Map.empty"
proof -
  have u: "\<not> is_used (usedIDs (srv (initial DefaultConfig))) 0" by (simp add: is_used_def initial_simps)
  note one = fleets_one[OF u, of "''A''", folded sysA1_def, unfolded initial_simps]
  have la: "fmlookup (fleets (srv sysA1)) ''A'' = Some (entry_of ''A'' ''running'' False)" by (simp add: one)
  note del = fleets_delete[OF la, folded sysA2_def]
  have "fresh (initial DefaultConfig) ''A''" by (simp add: fresh_def initial_simps)
  from one(7)[OF this, of load] sys_one[OF after_steps(3)[of load sysA1 "''A''"]]
  show "steps (sys_step load) (initial DefaultConfig) [CreateFleet ''A'' 0 one_vm, StartFleet ''A'', DeleteFleet ''A''] sysA2"
    using steps_append by (fastforce simp: sysA2_def)
  show "usedIDs (srv sysA2) = fmempty" "fleets (srv sysA2) = fmupd ''A'' (entry_of ''A'' ''stopped'' True) fmempty"
    by (rule fmap_ext, simp add: del one)+
  show "scenarios (srv sysA2) = fmempty" "fpc sysA2 = [''A'' \<mapsto> Launching]" "pending sysA2 = Map.empty"
    "sjobs sysA2 = Map.empty" by (simp_all add: del one)
qed

lemma run_B:
  "steps (sys_step load) sysA2 [CreateFleet ''B'' 0 one_vm, StartFleet ''B'', FinishFleet ''A''] sysB2"
  "fmlookup (fleets (srv sysB2)) ''B'' = Some (entry_of ''B'' ''running'' False)"
  "fmlookup (fleets (srv sysB2)) ''C'' = None" "scenarios (srv sysB2) = fmempty"
  "usedIDs (srv sysB2) = fmempty" "fpc sysB2 = [''A'' \<mapsto> Done, ''B'' \<mapsto> Launching]" "pending sysB2 = Map.empty" "sjobs sysB2 = Map.empty"
proof -
  have u: "\<not> is_used (usedIDs (srv sysA2)) 0" by (simp add: is_used_def run_A)
  note one = fleets_one[OF u, of "''B''", folded sysB1_def, unfolded run_A(2-)]
  have la: "fmlookup (fleets (srv sysB1)) ''A'' = Some (entry_of ''A'' ''stopped'' True)" by (simp add: one)
  note fin = fleets_finish[OF la, folded sysB2_def]
  have fr: "fresh sysA2 ''B''" by (simp add: fresh_def run_A)
  have "fpc sysB1 ''A'' = Some Launching" by (simp add: one)
  from one(7)[OF fr, of load] sys_one[OF after_steps(2)[OF this, of load]]
  show "steps (sys_step load) sysA2 [CreateFleet ''B'' 0 one_vm, StartFleet ''B'', FinishFleet ''A''] sysB2"
    using steps_append by (fastforce simp: sysB2_def)
  show "usedIDs (srv sysB2) = fmempty" by (rule fmap_ext) (simp add: fin one)
  show "fmlookup (fleets (srv sysB2)) ''B'' = Some (entry_of ''B'' ''running'' False)"
    "fmlookup (fleets (srv sysB2)) ''C'' = None" "scenarios (srv sysB2) = fmempty"
    "fpc sysB2 = [''A'' \<mapsto> Done, ''B'' \<mapsto> Launching]" "pending sysB2 = Map.empty" "sjobs sysB2 = Map.empty"
    by (auto simp: fin one)
qed

lemma run_C:
  "steps (sys_step load) sysB2 [CreateFleet ''C'' 0 one_vm, StartFleet ''C''] sysC1"
  "fmlookup (fleets (srv sysC1)) ''B'' = Some (entry_of ''B'' ''running'' False)"
  "fmlookup (fleets (srv sysC1)) ''C'' = Some (entry_of ''C'' ''running'' False)"
  "fpc sysC1 = [''A'' \<mapsto> Done, ''B'' \<mapsto> Launching, ''C'' \<mapsto> Launching]"
proof -
  have u: "\<not> is_used (usedIDs (srv sysB2)) 0" by (simp add: is_used_def run_B)
  note one = fleets_one[OF u, of "''C''", folded sysC1_def]
  have "fresh sysB2 ''C''" by (simp add: fresh_def run_B fmdom_notI)
  then show "steps (sys_step load) sysB2 [CreateFleet ''C'' 0 one_vm, StartFleet ''C''] sysC1" by (rule one(7))
qed (use fleets_one[of sysB2 "''C''", folded sysC1_def] run_B in \<open>simp_all add: is_used_def\<close>)

text \<open>
  C6. Deleting a live fleet breaks exclusive use.  There is a run, from a new server, after which two
  fleets that were never deleted and whose goroutines are both launching VMs hold the same
  identifier: a fleet deleted while it runs gives its identifiers back twice, once
  in the handler and once when its goroutine ends, and the second time they belong to another
  fleet.
\<close>

theorem delete_double_release:
  "\<exists>es \<sigma>. steps (sys_step load) (initial DefaultConfig) es \<sigma> \<and>
    DeleteFleet ''B'' \<notin> set es \<and> DeleteFleet ''C'' \<notin> set es \<and>
    fpc \<sigma> ''B'' = Some Launching \<and> fpc \<sigma> ''C'' = Some Launching \<and>
    held \<sigma> (FleetH ''B'') = [0] \<and> held \<sigma> (FleetH ''C'') = [0]"
proof (intro exI conjI)
  show "steps (sys_step load) (initial DefaultConfig)
      ([CreateFleet ''A'' 0 one_vm, StartFleet ''A'', DeleteFleet ''A''] @
       [CreateFleet ''B'' 0 one_vm, StartFleet ''B'', FinishFleet ''A''] @
       [CreateFleet ''C'' 0 one_vm, StartFleet ''C'']) sysC1"
    by (intro steps_append[OF run_A(1)] steps_append[OF run_B(1)] run_C(1))
qed (simp_all add: run_C held_FleetH entry_of_def)

text \<open>
  A deleted fleet can come back.  There is a run in which a fleet is deleted before its
  goroutine has started; the deletion is answered with 204 and marks it stopped, yet afterwards
  the fleet is shown as running.
\<close>

theorem deleted_fleet_running_again:
  "\<exists>\<sigma> \<tau>. steps (sys_step load) (initial DefaultConfig) [CreateFleet ''A'' 0 one_vm] \<sigma> \<and>
    fst (deleteFleet ''A'' (srv \<sigma>)) = Resp 204 NoBody \<and>
    steps (sys_step load) \<sigma> [DeleteFleet ''A'', StartFleet ''A''] \<tau> \<and>
    (\<exists>e. fmlookup (fleets (srv \<tau>)) ''A'' = Some e \<and> fleet_Status e = ''running'' \<and> fleet_cancelled e)"
proof (intro exI conjI)
  have u: "\<not> is_used (usedIDs (srv (initial DefaultConfig))) 0" by (simp add: is_used_def initial_simps)
  note ac = after_create_one[OF u, of "''A''"]
  have "fresh (initial DefaultConfig) ''A''" by (simp add: fresh_def initial_simps)
  then show "steps (sys_step load) (initial DefaultConfig) [CreateFleet ''A'' 0 one_vm]
      (after_create ''A'' (initial DefaultConfig))" by (intro sys_one ac(3))
  let ?\<sigma> = "after_create ''A'' (initial DefaultConfig)"
  have "fpc (after_delete ''A'' ?\<sigma>) ''A'' = Some Spawned" by (simp add: after_delete_def ac(2))
  then show "steps (sys_step load) ?\<sigma> [DeleteFleet ''A'', StartFleet ''A''] (after_start ''A'' (after_delete ''A'' ?\<sigma>))"
    using after_steps(1,3) by (auto intro!: steps_Cons)
qed (auto simp: after_start_def after_delete_def deleteFleet_def fleet_started_def
  after_create_one is_used_def initial_simps Let_def)


section \<open>Hints and statuses\<close>

text \<open>The number of hints shown for a scenario is the number its runner counts.\<close>

definition hints_agree :: "Sys \<Rightarrow> bool" where
  "hints_agree \<sigma> \<longleftrightarrow> (\<forall>u e r. fmlookup (scenarios (srv \<sigma>)) u = Some e \<and> scen_runner e = Some r \<longrightarrow>
    scen_HintsUsed e = hintsUsed r)"

lemma scenarios_fleet_handlers [simp]:
  "scenarios (snd (snd (createFleet u now req s))) = scenarios s"
  "scenarios (fleet_started u s) = scenarios s"
  "scenarios (fleet_finished u s) = scenarios s"
  "scenarios (snd (deleteFleet u s)) = scenarios s"
  "scenarios (snd (create_allocate sreq s)) = scenarios s"
  by (auto simp: createFleet_def fleet_started_def fleet_finished_def deleteFleet_def create_allocate_def
      Let_def split: option.splits prod.splits)

lemma hints_agree_upd:
  assumes "hints_agree \<sigma>" "\<And>r. scen_runner e = Some r \<Longrightarrow> scen_HintsUsed e = hintsUsed r"
  shows "hints_agree (\<sigma>\<lparr>srv := (srv \<sigma>)\<lparr>scenarios := fmupd u e (scenarios (srv \<sigma>))\<rparr>\<rparr>)"
  using assms by (auto simp: hints_agree_def)

lemma hintsUsed_CurrentScore [simp]: "hintsUsed (snd (CurrentScore now r)) = hintsUsed r"
  by (simp add: CurrentScore_def Let_def)

lemma hintsUsed_RequestHintText [simp]: "hintsUsed (snd (RequestHintText r)) = wrap64 (hintsUsed r + 1)"
  by (simp add: RequestHintText_def Let_def)

lemma hints_agree_serve:
  assumes "hints_agree \<sigma>" "fmlookup (scenarios (srv \<sigma>)) u = Some e"
  shows "hints_agree (\<sigma>\<lparr>srv := snd (serve_hint now u e (srv \<sigma>))\<rparr>)"
proof (cases "scen_runner e")
  case None
  then show ?thesis using assms(1) by (simp add: serve_hint_def)
next
  case (Some r)
  let ?r = "snd (CurrentScore now (snd (RequestHintText r)))"
  let ?e = "e\<lparr>scen_runner := Some ?r, scen_HintsUsed := wrap64 (scen_HintsUsed e + 1),
    scen_Score := fst (CurrentScore now (snd (RequestHintText r)))\<rparr>"
  have "scen_HintsUsed e = hintsUsed r" using assms Some by (auto simp: hints_agree_def)
  moreover have "snd (serve_hint now u e (srv \<sigma>)) = (srv \<sigma>)\<lparr>scenarios := fmupd u ?e (scenarios (srv \<sigma>))\<rparr>"
    using Some by (simp add: serve_hint_def Let_def split_beta)
  ultimately show ?thesis using hints_agree_upd[OF assms(1), of ?e u] by simp
qed

lemma hints_agree_cong: "hints_agree \<sigma> \<Longrightarrow> scenarios (srv \<tau>) = scenarios (srv \<sigma>) \<Longrightarrow> hints_agree \<tau>"
  by (simp add: hints_agree_def)

lemma hints_agree_get:
  assumes "hints_agree \<sigma>"
  shows "hints_agree (\<sigma>\<lparr>srv := snd (getScenario now u (srv \<sigma>))\<rparr>)"
proof (cases "fmlookup (scenarios (srv \<sigma>)) u")
  case None
  then show ?thesis using assms by (simp add: getScenario_def)
next
  case (Some e)
  have e: "scen_HintsUsed e = hintsUsed r" if "scen_runner e = Some r" for r
    using assms Some that by (auto simp: hints_agree_def)
  obtain e' where "snd (getScenario now u (srv \<sigma>)) = (srv \<sigma>)\<lparr>scenarios := fmupd u e' (scenarios (srv \<sigma>))\<rparr>"
    "\<And>r. scen_runner e' = Some r \<Longrightarrow> scen_HintsUsed e' = hintsUsed r"
  proof (cases "scen_runner e")
    case None
    then show ?thesis using that[of e] Some by (simp add: getScenario_def)
  next
    case (Some r)
    let ?e = "e\<lparr>scen_Score := fst (CurrentScore now r), scen_runner := Some (snd (CurrentScore now r)),
      scen_Elapsed := duration_string (Round Second (Since now (Some (scen_startAt e))))\<rparr>"
    show ?thesis
      using that[of ?e] Some e \<open>fmlookup (scenarios (srv \<sigma>)) u = Some e\<close>
      by (simp add: getScenario_def Let_def split_beta)
  qed
  then show ?thesis using hints_agree_upd[OF assms, of e' u] by simp
qed

lemma hints_agree_step:
  assumes "hints_agree \<sigma>" "sys_step load \<sigma> e \<tau>"
  shows "hints_agree \<tau>"
  using assms(2)
proof (cases rule: sys_step.cases)
  case (create_fleet u now req resp job s)
  then have "scenarios s = scenarios (srv \<sigma>)" using scenarios_fleet_handlers(1)[of u now "Some req" "srv \<sigma>"] by simp
  then show ?thesis using hints_agree_cong[OF assms(1)] create_fleet by simp
next
  case (alloc_scenario u body req ids s)
  then have "scenarios s = scenarios (srv \<sigma>)" using scenarios_fleet_handlers(5)[of req "srv \<sigma>"] by simp
  then show ?thesis using hints_agree_cong[OF assms(1)] alloc_scenario by simp
next
  case (register_scenario u req ids now resp job s)
  then show ?thesis
    using assms(1)
    by (auto simp: hints_agree_def create_register_def NewRunner_Inr(3) Let_def split: sum.splits if_splits)
next
  case (finish_scenario u ids)
  then show ?thesis
    using assms(1)
    by (auto simp: hints_agree_def scenario_finished_def Let_def split: option.splits if_splits)
next
  case (delete_scenario u)
  then show ?thesis
    using assms(1) by (auto simp: hints_agree_def deleteScenario_def split: option.splits if_splits)
next
  case (get_scenario now u)
  then show ?thesis using hints_agree_get[OF assms(1)] by simp
next
  case (hint_scenario now u)
  then show ?thesis
    using assms(1) hints_agree_serve[OF assms(1)] by (auto simp: hintScenario_def split: option.splits)
next
  case (hint_vm order now path)
  have "snd (handleVM order now ''POST'' path (srv \<sigma>)) = srv \<sigma> \<or>
      (\<exists>u en. fmlookup (scenarios (srv \<sigma>)) u = Some en \<and>
        snd (handleVM order now ''POST'' path (srv \<sigma>)) = snd (serve_hint now u en (srv \<sigma>)))"
    by (auto simp: handleVM_def split: list.splits option.splits dest: find_owner_Some)
  then show ?thesis using assms(1) hints_agree_serve[OF assms(1)] hint_vm by auto
qed (use hints_agree_cong[OF assms(1)] in auto)

interpretation hints: step_invariant "sys_step load" hints_agree for load
  by unfold_locales (rule hints_agree_step)

text \<open>
  Hint counts agree.  In every run, the number of hints used that a scenario's entry shows is the
  number its runner has counted, and so the one its score is computed from.
\<close>

theorem hint_counts_agree:
  assumes "steps (sys_step load) (initial cfg) es \<sigma>"
    and "fmlookup (scenarios (srv \<sigma>)) u = Some e" "scen_runner e = Some r"
  shows "scen_HintsUsed e = hintsUsed r"
proof -
  have "hints_agree (initial cfg)" by (simp add: hints_agree_def initial_simps)
  from hints.steps_inv[OF assms(1) this] assms(2,3) show ?thesis by (auto simp: hints_agree_def)
qed

definition ended :: "string \<Rightarrow> Sys \<Rightarrow> bool" where
  "ended u \<sigma> \<longleftrightarrow> consistent \<sigma> \<and>
    (\<exists>e. fmlookup (scenarios (srv \<sigma>)) u = Some e \<and> scen_Status e \<noteq> ''running'')"

lemma same_entries_ended:
  assumes "same_entries (srv \<sigma>) t" "ended u \<sigma>"
  shows "ended u (\<sigma>\<lparr>srv := t\<rparr>)"
proof -
  obtain e where e: "fmlookup (scenarios (srv \<sigma>)) u = Some e" "scen_Status e \<noteq> ''running''"
    using assms(2) by (auto simp: ended_def)
  have "rel_option (\<lambda>e e'. scen_VMs e' = scen_VMs e \<and>
      (scen_Status e' = scen_Status e \<or> scen_Status e' = ''aborted''))
    (fmlookup (scenarios (srv \<sigma>)) u) (fmlookup (scenarios t) u)"
    using assms(1) unfolding same_entries_def by blast
  with e same_entries_sys(1)[OF assms(1)] assms(2) show ?thesis
    by (auto simp: ended_def option_rel_Some1)
qed

lemma ended_step:
  assumes "ended u \<sigma>" "sys_step load \<sigma> ev \<tau>"
  shows "ended u \<tau>"
proof -
  have c: "consistent \<sigma>" and c': "consistent \<tau>"
    using assms consistent_step unfolding ended_def by blast+
  obtain e where e: "fmlookup (scenarios (srv \<sigma>)) u = Some e" "scen_Status e \<noteq> ''running''"
    using assms(1) by (auto simp: ended_def)
  from assms(2) show ?thesis
  proof (cases rule: sys_step.cases)
    case (create_fleet v now req resp job s)
    then have "scenarios s = scenarios (srv \<sigma>)" using scenarios_fleet_handlers(1)[of v now "Some req" "srv \<sigma>"] by simp
    then show ?thesis using create_fleet c' e by (simp add: ended_def)
  next
    case (alloc_scenario v body req ids s)
    then have "scenarios s = scenarios (srv \<sigma>)" using scenarios_fleet_handlers(5)[of req "srv \<sigma>"] by simp
    then show ?thesis using alloc_scenario c' e by (simp add: ended_def)
  next
    case (register_scenario v req ids now resp job s)
    have "pending \<sigma> v \<noteq> None \<Longrightarrow> fmlookup (scenarios (srv \<sigma>)) v = None"
      using c unfolding consistent_def by blast
    then have "v \<noteq> u" using e(1) register_scenario(3) by auto
    then have "fmlookup (scenarios s) u = Some e"
      using register_scenario(4) e by (auto simp: create_register_def Let_def split: sum.splits)
    then show ?thesis using register_scenario c' e by (simp add: ended_def)
  next
    case (finish_scenario v ids)
    have "fmlookup (scenarios (scenario_finished v ids (srv \<sigma>))) u = Some e"
      using e by (auto simp: scenario_finished_def Let_def split: option.splits)
    then show ?thesis using finish_scenario c' e by (simp add: ended_def)
  next
    case (delete_scenario v)
    then show ?thesis using same_entries_ended[OF same_entries_handlers(1) assms(1)] by simp
  next
    case (get_scenario now v)
    then show ?thesis using same_entries_ended[OF same_entries_handlers(2) assms(1)] by simp
  next
    case (hint_scenario now v)
    then show ?thesis using same_entries_ended[OF same_entries_handlers(3) assms(1)] by simp
  next
    case (hint_vm order now path)
    then show ?thesis using same_entries_ended[OF same_entries_handlers(4) assms(1)] by simp
  qed (use c' e in \<open>auto simp: ended_def\<close>)
qed

interpretation scenario_end: step_invariant "sys_step load" "ended u" for load u
  by unfold_locales (rule ended_step)

text \<open>
  Scenarios do not restart.  Once a scenario of a run is complete or aborted, it stays listed and
  is never shown as running again, whatever happens next.
\<close>

theorem scenario_never_restarts:
  assumes "steps (sys_step load) (initial cfg) es \<sigma>" "steps (sys_step load) \<sigma> fs \<tau>"
    and "fmlookup (scenarios (srv \<sigma>)) u = Some e" "scen_Status e \<noteq> ''running''"
  shows "\<exists>e'. fmlookup (scenarios (srv \<tau>)) u = Some e' \<and> scen_Status e' \<noteq> ''running''"
proof -
  have "no_leak \<sigma>" using leak_free.steps_inv[OF assms(1) initial_no_leak] .
  then have "ended u \<sigma>" using assms(3,4) by (auto simp: no_leak_def ended_def)
  from scenario_end.steps_inv[OF assms(2) this] show ?thesis by (simp add: ended_def)
qed


section \<open>Concrete runs\<close>

lemma after_create_step:
  assumes "fresh \<sigma> u"
  shows "gentle_step load \<sigma> (CreateFleet u 0 one_vm) (after_create u \<sigma>)"
proof -
  obtain resp job s where "createFleet u 0 (Some one_vm) (srv \<sigma>) = (resp, Some job, s)"
    by (cases "allocateVMIDs (usedIDs (srv \<sigma>)) (Suc 0)")
       (simp add: createFleet_def Let_def one_vm_def)
  then show ?thesis
    using sys_step.create_fleet[OF assms, of 0 one_vm resp job s load]
    by (simp add: gentle_step_def deletes_live_def after_create_def)
qed

theorem ids_never_leak_witness:
  "used_set (usedIDs (srv sysC1)) \<subseteq> (\<Union>h\<in>holders sysC1. set (held sysC1 h))"
proof -
  have "steps (sys_step sample_load) (initial DefaultConfig)
      ([CreateFleet ''A'' 0 one_vm, StartFleet ''A'', DeleteFleet ''A''] @
       [CreateFleet ''B'' 0 one_vm, StartFleet ''B'', FinishFleet ''A''] @
       [CreateFleet ''C'' 0 one_vm, StartFleet ''C'']) sysC1"
    by (intro steps_append[OF run_A(1)] steps_append[OF run_B(1)] run_C(1))
  from ids_never_leak[OF this] show ?thesis by blast
qed

theorem ids_exclusive_witness:
  "let \<sigma> = after_create ''B'' (after_create ''A'' (initial DefaultConfig)) in
    set (held \<sigma> (FleetH ''A'')) \<inter> set (held \<sigma> (FleetH ''B'')) = {}"
proof -
  let ?\<sigma> = "after_create ''A'' (initial DefaultConfig)"
  have fr: "fresh (initial DefaultConfig) ''A''" by (simp add: fresh_def initial_simps)
  have u: "\<not> is_used (usedIDs (srv (initial DefaultConfig))) 0" by (simp add: is_used_def initial_simps)
  have "pending ?\<sigma> = Map.empty" "sjobs ?\<sigma> = Map.empty" by (simp_all add: after_create_def initial_simps)
  then have "fresh ?\<sigma> ''B''" using after_create_one(1,2)[OF u, of "''A''"] by (simp add: fresh_def initial_simps)
  with fr have run: "steps (gentle_step sample_load) (initial DefaultConfig)
      [CreateFleet ''A'' 0 one_vm, CreateFleet ''B'' 0 one_vm] (after_create ''B'' ?\<sigma>)"
    using after_create_step by blast
  have "FleetH ''A'' \<in> holders (after_create ''B'' ?\<sigma>)" "FleetH ''B'' \<in> holders (after_create ''B'' ?\<sigma>)"
    by (simp_all add: after_create_def)
  from ids_exclusive[OF run this] show ?thesis by simp
qed

text \<open>A scenario is created, runs, and is deleted.\<close>

definition sample_ids :: "int list" where
  "sample_ids = fst (create_allocate sample_prepared (NewServer DefaultConfig))"

definition scen_run :: Sys where
  "scen_run =
    (let s = snd (create_allocate sample_prepared (NewServer DefaultConfig)) in
     (initial DefaultConfig)\<lparr>srv := snd (snd (create_register ''u'' 5 sample_prepared sample_ids s)),
       sjobs := [''u'' \<mapsto> sample_ids]\<rparr>)"

lemma sample_register:
  "\<exists>resp en r. create_register ''u'' 5 sample_prepared sample_ids s =
    (resp, Some \<lparr>sjob_entry = ''u'', sjob_vmIDs = sample_ids\<rparr>, s\<lparr>scenarios := fmupd ''u'' en (scenarios s)\<rparr>) \<and>
    scen_Status en = ''running'' \<and> scen_VMs en = vm_statuses sample_ids \<and> scen_HintsUsed en = 0 \<and>
    scen_runner en = Some r"
proof -
  have "\<exists>r. NewRunner sample_scenario (run_options sample_prepared sample_ids) = Inr r"
    using sample_plan[of sample_ids] by (simp add: NewRunner_def run_options_def sample_prepared_def)
  then obtain r where "NewRunner sample_scenario (run_options sample_prepared sample_ids) = Inr r" by blast
  then show ?thesis
    by (simp add: create_register_def Let_def sample_prepared_def) (rule exI, rule conjI, rule refl, simp)
qed

lemma scen_run_steps:
  "steps (gentle_step sample_load) (initial DefaultConfig)
    [AllocScenario ''u'' sample_request, RegisterScenario ''u'' 5] scen_run"
proof -
  let ?s = "snd (create_allocate sample_prepared (NewServer DefaultConfig))"
  let ?\<sigma> = "(initial DefaultConfig)\<lparr>srv := ?s, pending := [''u'' \<mapsto> (sample_prepared, sample_ids)]\<rparr>"
  have "create_allocate sample_prepared (NewServer DefaultConfig) = (sample_ids, ?s)" by (simp add: sample_ids_def)
  then have "sys_step sample_load (initial DefaultConfig) (AllocScenario ''u'' sample_request) ?\<sigma>"
    using sys_step.alloc_scenario[of "initial DefaultConfig" "''u''" sample_load sample_request sample_prepared sample_ids ?s]
      sample_prepare by (simp add: fresh_def initial_def NewServer_def)
  moreover have "sys_step sample_load ?\<sigma> (RegisterScenario ''u'' 5) scen_run"
  proof -
    obtain resp en r where cr: "create_register ''u'' 5 sample_prepared sample_ids ?s =
      (resp, Some \<lparr>sjob_entry = ''u'', sjob_vmIDs = sample_ids\<rparr>, ?s\<lparr>scenarios := fmupd ''u'' en (scenarios ?s)\<rparr>)"
      using sample_register by blast
    then show ?thesis
      using sys_step.register_scenario[of ?\<sigma> "''u''" sample_prepared sample_ids 5 resp _ _ sample_load]
      by (simp add: scen_run_def Let_def initial_def)
  qed
  ultimately have "gentle_step sample_load (initial DefaultConfig) (AllocScenario ''u'' sample_request) ?\<sigma>"
    "gentle_step sample_load ?\<sigma> (RegisterScenario ''u'' 5) scen_run"
    by (simp_all add: gentle_step_def deletes_live_def)
  then show ?thesis by blast
qed

lemma gentle_steps_sys: "steps (gentle_step load) \<sigma> es \<tau> \<Longrightarrow> steps (sys_step load) \<sigma> es \<tau>"
  by (induction rule: steps.induct) (auto simp: gentle_step_def)

lemma scen_run_entry:
  "\<exists>en r. fmlookup (scenarios (srv scen_run)) ''u'' = Some en \<and> scen_Status en = ''running'' \<and>
    map vs_ID (scen_VMs en) = sample_ids \<and> scen_runner en = Some r"
  using sample_register[of "snd (create_allocate sample_prepared (NewServer DefaultConfig))"]
  by (auto simp: scen_run_def Let_def)

lemma sample_ids_length: "length sample_ids = 3"
  using allocate_pair(3)[of "usedIDs (NewServer DefaultConfig)" 3]
  by (auto simp: sample_ids_def create_allocate_def sample_prepared_def split: prod.splits)

theorem running_scenarios_disjoint_witness:
  "{k. owns (srv scen_run) (sample_ids ! 0) k} = {''u''}"
proof -
  obtain en r where en: "fmlookup (scenarios (srv scen_run)) ''u'' = Some en" "scen_Status en = ''running''"
    "map vs_ID (scen_VMs en) = sample_ids" using scen_run_entry by blast
  have "sample_ids ! 0 \<in> set (map vs_ID (scen_VMs en))" unfolding en(3) using sample_ids_length by simp
  with en(1,2) have "owns (srv scen_run) (sample_ids ! 0) ''u''" unfolding owns_def set_map by blast
  with running_scenarios_disjoint[OF scen_run_steps] show ?thesis by blast
qed

theorem hint_counts_agree_witness:
  "\<exists>e r. fmlookup (scenarios (srv scen_run)) ''u'' = Some e \<and> scen_runner e = Some r \<and>
    scen_HintsUsed e = hintsUsed r"
  using scen_run_entry hint_counts_agree[OF gentle_steps_sys[OF scen_run_steps]] by blast

theorem scenario_never_restarts_witness:
  "let \<sigma> = scen_run\<lparr>srv := snd (deleteScenario ''u'' (srv scen_run))\<rparr>;
       \<tau> = \<sigma>\<lparr>srv := scenario_finished ''u'' sample_ids (srv \<sigma>), sjobs := (sjobs \<sigma>)(''u'' := None)\<rparr>
   in \<exists>e. fmlookup (scenarios (srv \<tau>)) ''u'' = Some e \<and> scen_Status e \<noteq> ''running''"
proof -
  let ?\<sigma> = "scen_run\<lparr>srv := snd (deleteScenario ''u'' (srv scen_run))\<rparr>"
  let ?\<tau> = "?\<sigma>\<lparr>srv := scenario_finished ''u'' sample_ids (srv ?\<sigma>), sjobs := (sjobs ?\<sigma>)(''u'' := None)\<rparr>"
  have "steps (sys_step sample_load) scen_run [DeleteScenario ''u''] ?\<sigma>"
    by (intro sys_one sys_step.delete_scenario)
  from steps_append[OF gentle_steps_sys[OF scen_run_steps] this]
  have run: "steps (sys_step sample_load) (initial DefaultConfig)
    ([AllocScenario ''u'' sample_request, RegisterScenario ''u'' 5] @ [DeleteScenario ''u'']) ?\<sigma>" .
  have "sjobs ?\<sigma> ''u'' = Some sample_ids" by (simp add: scen_run_def Let_def)
  then have fin: "steps (sys_step sample_load) ?\<sigma> [FinishScenario ''u''] ?\<tau>"
    by (intro sys_one sys_step.finish_scenario)
  obtain en where "fmlookup (scenarios (srv ?\<sigma>)) ''u'' = Some en" "scen_Status en = ''aborted''"
    using scen_run_entry by (auto simp: deleteScenario_def)
  then show ?thesis using scenario_never_restarts[OF run fin] by (simp add: Let_def)
qed

end
