(* ===== verification/GoPath.thy ===== *)
theory GoPath
  imports GoLib
begin

text \<open>
  Slash-separated paths and the routing of HTTP requests: \<open>path.Clean\<close> (which \<open>filepath.Clean\<close> and
  \<open>filepath.Join\<close> are on Linux) and the choice \<open>http.ServeMux\<close> makes among patterns without a
  method or a host: the longest pattern that is the path or, ending in a slash, a prefix of it;
  a path that is not clean, or lacks the final slash of a pattern, is redirected.
\<close>

section \<open>Paths\<close>

text \<open>Empty and \<open>.\<close> components go, \<open>..\<close> takes back what it can.\<close>

definition clean_step :: "bool \<Rightarrow> string \<Rightarrow> string list \<Rightarrow> string list" where
  "clean_step rooted c out =
    (if c = '''' \<or> c = ''.'' then out
     else if c = ''..'' then
       (if out \<noteq> [] \<and> last out \<noteq> ''..'' then butlast out else if rooted then out else out @ [c])
     else out @ [c])"

definition path_Clean :: "string \<Rightarrow> string" where
  "path_Clean p =
    (let rooted = (p \<noteq> [] \<and> hd p = CHR ''/'');
         out = fold (clean_step rooted) (Split (CHR ''/'') p) []
     in if rooted then CHR ''/'' # Join out ''/'' else if out = [] then ''.'' else Join out ''/'')"

text \<open>\<open>filepath.Join\<close> of two elements, the second not empty.\<close>

definition path_Join2 :: "string \<Rightarrow> string \<Rightarrow> string" where
  "path_Join2 a b = path_Clean (if a = '''' then b else a @ ''/'' @ b)"

text \<open>A component that cleaning keeps.\<close>

definition plain_component :: "string \<Rightarrow> bool" where
  "plain_component c \<longleftrightarrow> c \<noteq> '''' \<and> c \<noteq> ''.'' \<and> c \<noteq> ''..'' \<and> CHR ''/'' \<notin> set c"

lemma fold_clean_plain:
  "list_all plain_component cs \<Longrightarrow> fold (clean_step rooted) cs out = out @ cs"
  by (induction cs arbitrary: out) (auto simp: clean_step_def plain_component_def)

lemma Split_slashes:
  "list_all plain_component cs \<Longrightarrow> cs \<noteq> [] \<Longrightarrow> Split (CHR ''/'') (Join cs ''/'') = cs"
  by (induction cs "''/''" rule: Join.induct)
     (auto simp: plain_component_def Split_no_sep Split_append_sep)

lemma path_Clean_plain:
  assumes "list_all plain_component cs"
  shows "path_Clean (CHR ''/'' # Join cs ''/'') = CHR ''/'' # Join cs ''/''"
proof (cases "cs = []")
  case False
  then have "fold (clean_step True) (Split (CHR ''/'') (CHR ''/'' # Join cs ''/'')) [] = cs"
    using fold_clean_plain[OF assms] by (simp add: Split_slashes[OF assms] clean_step_def)
  then show ?thesis by (simp only: path_Clean_def Let_def list.sel list.distinct simp_thms if_True)
qed (simp add: path_Clean_def clean_step_def)


section \<open>Routing\<close>

text \<open>The server's \<open>cleanPath\<close> keeps a final slash.\<close>

definition cleanPath :: "string \<Rightarrow> string" where
  "cleanPath p =
    (if p = '''' then ''/''
     else let p = (if hd p \<noteq> CHR ''/'' then CHR ''/'' # p else p); np = path_Clean p
          in if last p = CHR ''/'' \<and> np \<noteq> ''/'' then np @ ''/'' else np)"

datatype 'h routed = Routed 'h | Redirect string | NotFound

definition mux_match :: "string \<Rightarrow> string \<Rightarrow> bool" where
  "mux_match pat path = (if HasSuffix pat ''/'' then HasPrefix path pat else path = pat)"

definition longer :: "string \<times> 'h \<Rightarrow> string \<times> 'h \<Rightarrow> string \<times> 'h" where
  "longer x best = (if length (fst best) < length (fst x) then x else best)"

definition mux_find :: "(string \<times> 'h) list \<Rightarrow> string \<Rightarrow> (string \<times> 'h) option" where
  "mux_find routes path =
    (case filter (\<lambda>r. mux_match (fst r) path) routes of [] \<Rightarrow> None | m # ms \<Rightarrow> Some (fold longer ms m))"

definition mux_route :: "(string \<times> 'h) list \<Rightarrow> string \<Rightarrow> 'h routed" where
  "mux_route routes path =
    (let p = cleanPath path; found = mux_find routes p in
     if (case found of None \<Rightarrow> False | Some (pat, _) \<Rightarrow> pat = p) \<or> HasSuffix p ''/''
        \<or> p @ ''/'' \<notin> set (map fst routes)
     then if p \<noteq> path then Redirect p
          else case found of None \<Rightarrow> NotFound | Some (_, h) \<Rightarrow> Routed h
     else Redirect (p @ ''/''))"

lemma Join_last:
  assumes "list_all plain_component cs" "cs \<noteq> []"
  shows "Join cs ''/'' \<noteq> [] \<and> last (Join cs ''/'') \<noteq> CHR ''/''"
  using assms
proof (induction cs "''/''" rule: Join.induct)
  case (2 w)
  have w: "w \<noteq> []" "CHR ''/'' \<notin> set w" using 2 by (simp_all add: plain_component_def)
  then have "last w \<noteq> CHR ''/''" using last_in_set[OF w(1)] by metis
  with w show ?case by simp
qed (auto simp: plain_component_def)

lemma cleanPath_plain:
  assumes "list_all plain_component cs" "cs \<noteq> []"
  shows "cleanPath (CHR ''/'' # Join cs ''/'') = CHR ''/'' # Join cs ''/''"
proof -
  let ?p = "CHR ''/'' # Join cs ''/''"
  have "last ?p \<noteq> CHR ''/''" using Join_last[OF assms] by simp
  then show ?thesis
    unfolding cleanPath_def Let_def list.sel
    by (simp only: list.distinct if_False simp_thms path_Clean_plain[OF assms(1)])
qed

lemma HasSuffix_slash: "HasSuffix p ''/'' \<longleftrightarrow> p \<noteq> [] \<and> last p = CHR ''/''"
  by (cases p rule: rev_cases) (auto simp: HasSuffix_def)

text \<open>The handler of a clean path that no other pattern matches.\<close>

lemma mux_route_unique:
  assumes "cleanPath p = p" "last p \<noteq> CHR ''/''" "p @ ''/'' \<notin> set (map fst routes)"
    and "filter (\<lambda>r. mux_match (fst r) p) routes = [(pat, h)]"
  shows "mux_route routes p = Routed h"
  using assms by (simp add: mux_route_def mux_find_def)

text \<open>Among two patterns that match, the longer one.\<close>

lemma mux_route_longer:
  assumes "cleanPath p = p" "last p \<noteq> CHR ''/''" "p @ ''/'' \<notin> set (map fst routes)"
    and "filter (\<lambda>r. mux_match (fst r) p) routes = [(pat, h), (pat', h')]" "length pat' \<le> length pat"
  shows "mux_route routes p = Routed h"
  using assms by (simp add: mux_route_def mux_find_def longer_def)

end
