(* ===== verification/GoWire.thy ===== *)
theory GoWire
  imports GoPath GoParseFloat
begin

text \<open>
  What goes over the wire: the host and the path of a URL as \<open>net/url\<close> reads them, and strings in JSON.

  A URL \<open>http://user@host:port/path?query#fragment\<close>: the authority ends at the first slash, question
  mark or hash; the host is what follows the last at-sign in it, without the port.  A URL that
  \<open>url.Parse\<close> rejects (a bad port, a bad escape) is never requested, so nothing is said of it here.

  \<open>encoding/json\<close> writes every byte that is not part of a valid UTF-8 sequence as the replacement
  character; all other strings arrive as they were.
\<close>

section \<open>URLs\<close>

text \<open>The part between the scheme and the query or fragment.\<close>

definition url_body :: "string \<Rightarrow> string" where
  "url_body u = takeWhile (\<lambda>c. c \<noteq> CHR ''?'' \<and> c \<noteq> CHR ''#'') (TrimPrefix u ''http://'')"

definition strip_userinfo :: "string \<Rightarrow> string" where
  "strip_userinfo a = rev (takeWhile (\<lambda>c. c \<noteq> CHR ''@'') (rev a))"

definition strip_port :: "string \<Rightarrow> string" where
  "strip_port h =
    (let port = takeWhile (\<lambda>c. c \<noteq> CHR '':'') (rev h)
     in if CHR '':'' \<in> set h \<and> list_all is_digit port then take (length h - Suc (length port)) h else h)"

definition url_host :: "string \<Rightarrow> string" where
  "url_host u = strip_port (strip_userinfo (takeWhile (\<lambda>c. c \<noteq> CHR ''/'') (url_body u)))"

text \<open>The characters that need no escaping in a path, slashes aside.\<close>

definition unreserved :: "char \<Rightarrow> bool" where
  "unreserved c \<longleftrightarrow>
    (let n = of_char c :: nat in 48 \<le> n \<and> n \<le> 57 \<or> 65 \<le> n \<and> n \<le> 90 \<or> 97 \<le> n \<and> n \<le> 122) \<or>
    c \<in> {CHR ''-'', CHR ''.'', CHR ''_'', CHR ''~''}"

text \<open>
  The path a server sees for a URL.  Paths with other characters, which are escaped on the way or
  decoded on arrival, are outside the model: \<open>None\<close>.
\<close>

definition request_path :: "string \<Rightarrow> string option" where
  "request_path u =
    (let p = dropWhile (\<lambda>c. c \<noteq> CHR ''/'') (url_body u)
     in if list_all (\<lambda>c. unreserved c \<or> c = CHR ''/'') p then Some (if p = '''' then ''/'' else p) else None)"

text \<open>
  The URL of a server: a host name or IPv4 address, perhaps a port, and nothing more, in particular no
  slash at the end.
\<close>

definition server_url :: "string \<Rightarrow> bool" where
  "server_url u \<longleftrightarrow> HasPrefix u ''http://'' \<and>
    (let h = strip_port (drop 7 u) in h \<noteq> '''' \<and> list_all unreserved h)"

definition host_char :: "char \<Rightarrow> bool" where
  "host_char c \<longleftrightarrow> c \<noteq> CHR ''/'' \<and> c \<noteq> CHR ''?'' \<and> c \<noteq> CHR ''#''"

lemma unreserved_plain:
  "unreserved c \<Longrightarrow> c \<noteq> CHR ''/'' \<and> c \<noteq> CHR ''?'' \<and> c \<noteq> CHR ''#'' \<and> c \<noteq> CHR ''%''"
  by (auto simp: unreserved_def Let_def)

lemma HasPrefix_split: "HasPrefix u p \<Longrightarrow> u = p @ drop (length p) u"
  unfolding HasPrefix_def by (metis append_take_drop_id)

lemma takeWhile_boundary:
  "list_all P xs \<Longrightarrow> takeWhile P (xs @ ys) = xs @ takeWhile P ys"
  "list_all P xs \<Longrightarrow> dropWhile P (xs @ ys) = dropWhile P ys"
  by (induction xs) auto

lemma strip_port_split: "strip_port a = a \<or> (\<exists>port. a = strip_port a @ CHR '':'' # port \<and> list_all is_digit port)"
proof (cases "CHR '':'' \<in> set a")
  case True
  then obtain xs ys where a: "rev a = xs @ CHR '':'' # ys" and xs: "CHR '':'' \<notin> set xs"
    by (metis set_rev split_list_first)
  have "list_all (\<lambda>c. c \<noteq> CHR '':'') xs" using xs by (auto simp: list_all_iff)
  from takeWhile_boundary(1)[OF this, of "CHR '':'' # ys"]
  have tw: "takeWhile (\<lambda>c. c \<noteq> CHR '':'') (rev a) = xs" unfolding a by (simp del: takeWhile_append2)
  from arg_cong[OF a, of rev] have a': "a = rev ys @ CHR '':'' # rev xs" by simp
  then have "take (length a - Suc (length xs)) a = rev ys" by simp
  with a' show ?thesis unfolding strip_port_def Let_def tw by (auto simp: list_all_iff)
qed (simp add: strip_port_def)

lemma server_url_chars:
  assumes "server_url u"
  shows "list_all host_char (drop 7 u)"
proof -
  have h: "list_all host_char (strip_port (drop 7 u))"
    using assms unreserved_plain by (auto simp: server_url_def host_char_def Let_def list_all_iff)
  have "host_char c" if "is_digit c" for c using that by (auto simp: is_digit_def host_char_def)
  then have d: "list_all host_char (CHR '':'' # port)" if "list_all is_digit port" for port
    using that by (auto simp: list_all_iff host_char_def)
  from strip_port_split[of "drop 7 u"] show ?thesis
  proof (elim disjE exE conjE)
    fix port assume "drop 7 u = strip_port (drop 7 u) @ CHR '':'' # port" "list_all is_digit port"
    with h d show ?thesis by (metis list_all_append)
  qed (use h in simp)
qed

text \<open>What is appended to the URL of a server is the path of the request.\<close>

lemma request_path_server:
  assumes "server_url u" "list_all (\<lambda>c. unreserved c \<or> c = CHR ''/'') p" "p \<noteq> []" "hd p = CHR ''/''"
  shows "request_path (u @ p) = Some p"
proof -
  let ?a = "drop 7 u" and ?q = "\<lambda>c. c \<noteq> CHR ''?'' \<and> c \<noteq> CHR ''#''"
  have seven: "length ''http://'' = 7" by simp
  have u: "u = ''http://'' @ ?a"
    using HasPrefix_split[of u "''http://''"] assms(1) unfolding server_url_def seven by blast
  have a: "list_all ?q ?a" "list_all (\<lambda>c. c \<noteq> CHR ''/'') ?a"
    using server_url_chars[OF assms(1)] by (auto simp: host_char_def list_all_iff)
  have p: "list_all ?q p" using assms(2) unreserved_plain by (fastforce simp: list_all_iff)
  have "TrimPrefix (u @ p) ''http://'' = ?a @ p"
    by (subst u) (simp add: TrimPrefix_def HasPrefix_def)
  then have "url_body (u @ p) = ?a @ p"
    using takeWhile_boundary(1)[OF a(1)] p by (simp add: url_body_def list_all_iff)
  moreover have "dropWhile (\<lambda>c. c \<noteq> CHR ''/'') p = p" using assms(3,4) by (cases p) auto
  ultimately show ?thesis
    using takeWhile_boundary(2)[OF a(2), of p] assms(2,3) by (simp add: request_path_def)
qed

text \<open>The host of a URL whose authority ends before the path begins.\<close>

lemma url_host_rooted:
  assumes "list_all (\<lambda>c. host_char c \<and> c \<noteq> CHR ''@'' \<and> c \<noteq> CHR '':'') h" "list_all is_digit port"
    and "p = [] \<or> hd p = CHR ''/''"
  shows "url_host (''http://'' @ h @ p) = h" "url_host (''http://'' @ h @ CHR '':'' # port @ p) = h"
proof -
  let ?q = "\<lambda>c. c \<noteq> CHR ''?'' \<and> c \<noteq> CHR ''#''" and ?s = "\<lambda>c. c \<noteq> CHR ''/''"
  have h: "list_all ?q h" "list_all ?s h" "CHR ''@'' \<notin> set h" "CHR '':'' \<notin> set h"
    using assms(1) by (auto simp: host_char_def list_all_iff)
  have d: "c \<noteq> CHR ''?'' \<and> c \<noteq> CHR ''#'' \<and> c \<noteq> CHR ''/'' \<and> c \<noteq> CHR ''@'' \<and> c \<noteq> CHR '':''" if "is_digit c" for c
    using that by (auto simp: is_digit_def)
  have port: "list_all ?q (CHR '':'' # port)" "list_all ?s (CHR '':'' # port)" "CHR ''@'' \<notin> set port"
    "CHR '':'' \<notin> set port"
    using assms(2) d by (auto simp: list_all_iff)
  have none: "takeWhile ?s (takeWhile ?q p) = []" using assms(3) by (cases p) auto
  have auth: "takeWhile ?s (url_body (''http://'' @ a @ p)) = a"
    if "list_all ?q a" "list_all ?s a" for a
    using takeWhile_boundary(1)[OF that(1), of p] takeWhile_boundary(1)[OF that(2), of "takeWhile ?q p"] none
    by (simp add: url_body_def TrimPrefix_def HasPrefix_def)
  have info: "strip_userinfo a = a" if "CHR ''@'' \<notin> set a" for a
  proof -
    have "list_all (\<lambda>c. c \<noteq> CHR ''@'') (rev a)" using that by (auto simp: list_all_iff)
    from takeWhile_boundary(1)[OF this, of "[]"] show ?thesis
      by (simp only: strip_userinfo_def append_Nil2 takeWhile.simps rev_rev_ident)
  qed
  show "url_host (''http://'' @ h @ p) = h"
    unfolding url_host_def auth[OF h(1,2)] info[OF h(3)] using h(4) by (simp add: strip_port_def)
  have a: "list_all ?q (h @ CHR '':'' # port)" "list_all ?s (h @ CHR '':'' # port)"
    "CHR ''@'' \<notin> set (h @ CHR '':'' # port)"
    using h port by simp_all
  have "list_all (\<lambda>c. c \<noteq> CHR '':'') (rev port)" using port(4) by (auto simp: list_all_iff)
  from takeWhile_boundary(1)[OF this, of "CHR '':'' # rev h"]
  have "takeWhile (\<lambda>c. c \<noteq> CHR '':'') (rev (h @ CHR '':'' # port)) = rev port"
    by (simp del: takeWhile_append2)
  then have "strip_port (h @ CHR '':'' # port) = h"
    using assms(2) unfolding strip_port_def Let_def by (simp add: list_all_iff)
  then show "url_host (''http://'' @ h @ CHR '':'' # port @ p) = h"
    using auth[OF a(1,2)] info[OF a(3)] unfolding url_host_def by (simp only: append.assoc append_Cons)
qed


section \<open>Strings in JSON\<close>

definition in_bytes :: "nat \<Rightarrow> nat \<Rightarrow> char \<Rightarrow> bool" where
  "in_bytes lo hi c \<longleftrightarrow> (let n = of_char c in lo \<le> n \<and> n \<le> hi)"

text \<open>The length of the UTF-8 sequence at the start of a string; 0 if there is none.\<close>

definition rune_len :: "string \<Rightarrow> nat" where
  "rune_len s =
    (case s of
       [] \<Rightarrow> 0
     | a # t \<Rightarrow>
        let cont = in_bytes 128 191; n = (of_char a :: nat) in
        if n < 128 then 1
        else if in_bytes 194 223 a then
          (case t of b # _ \<Rightarrow> if cont b then 2 else 0 | _ \<Rightarrow> 0)
        else if in_bytes 224 239 a then
          (case t of
             b # c # _ \<Rightarrow>
               if in_bytes (if n = 224 then 160 else 128) (if n = 237 then 159 else 191) b \<and> cont c
               then 3 else 0
           | _ \<Rightarrow> 0)
        else if in_bytes 240 244 a then
          (case t of
             b # c # d # _ \<Rightarrow>
               if in_bytes (if n = 240 then 144 else 128) (if n = 244 then 143 else 191) b \<and> cont c \<and> cont d
               then 4 else 0
           | _ \<Rightarrow> 0)
        else 0)"

definition replacement :: string where
  "replacement = [CHR 0xEF, CHR 0xBF, CHR 0xBD]"

text \<open>A string after it was encoded as JSON and decoded again.\<close>

function json_string :: "string \<Rightarrow> string" where
  "json_string s =
    (if s = [] then []
     else if rune_len s = 0 then replacement @ json_string (drop 1 s)
     else take (rune_len s) s @ json_string (drop (rune_len s) s))"
  by pat_completeness auto
termination json_string
  by (relation "measure length") auto

declare json_string.simps [simp del]

lemma rune_len_shorter: "0 < rune_len s \<Longrightarrow> length s - rune_len s < length s"
  by (cases s) (auto simp: rune_len_def)

function valid_utf8 :: "string \<Rightarrow> bool" where
  "valid_utf8 s \<longleftrightarrow> s = [] \<or> 0 < rune_len s \<and> (if rune_len s = 0 then False else valid_utf8 (drop (rune_len s) s))"
  by pat_completeness auto
termination valid_utf8
  by (relation "measure length") (simp_all add: rune_len_shorter)

declare valid_utf8.simps [simp del]

lemma json_string_valid: "valid_utf8 s \<Longrightarrow> json_string s = s"
proof (induction s rule: valid_utf8.induct)
  case (1 s)
  show ?case
  proof (cases "s = []")
    case False
    with 1 show ?thesis by (subst json_string.simps) (auto simp: valid_utf8.simps[of s])
  qed (simp add: json_string.simps)
qed

lemma rune_len_ascii: "(of_char c :: nat) < 128 \<Longrightarrow> rune_len (c # s) = 1"
  by (simp add: rune_len_def Let_def)

lemma valid_utf8_ascii: "list_all (\<lambda>c. (of_char c :: nat) < 128) s \<Longrightarrow> valid_utf8 s"
  by (induction s) (simp_all add: valid_utf8.simps rune_len_ascii)

text \<open>A name in an old encoding changes on the way.\<close>

lemma json_string_latin1: "json_string (''caf'' @ [CHR 0xE9]) = ''caf'' @ replacement"
  by (simp add: json_string.simps rune_len_def in_bytes_def)

end
