(* ===== verification/ApiRuns.thy ===== *)
theory ApiRuns
  imports RunLoop ApiSystem GoWire
begin

text \<open>
  The runners behind the entries of the server: what a scenario run does to the VMs of the
  others.

  A create request counts the VMs of a plan it then throws away, takes that many identifiers, and the
  runner builds the plan again with them (\<open>createScenario\<close> in \<open>src/api/scenario.go\<close>).  So the VMs of
  a runner's plan are the ones its entry lists, whatever happens to the server in between.

  Shown: in every interleaving the plan of a scenario's runner has exactly the VMs its entry lists;
  as long as no live fleet is deleted, what the runner of a running scenario requests is addressed to
  no VM of another scenario or fleet, provided the pages of its objectives begin with a slash; a scenario that has completed has no such bounds: its
  identifiers are given to the next scenario while its faults may still be pending.
\<close>


section \<open>Plans and entries\<close>

text \<open>A pending request holds as many identifiers as its plan will have VMs.\<close>

definition enough_ids :: "scenario_request \<Rightarrow> int list \<Rightarrow> bool" where
  "enough_ids req ids \<longleftrightarrow>
    (\<exists>plan. BuildVMPlan (sr_scenario req) (sr_scale req) (sr_disk req) [] = Inr plan \<and>
      TotalVMs plan = int (length ids))"

definition runs_on :: "Runner \<Rightarrow> int list \<Rightarrow> bool" where
  "runs_on r ids \<longleftrightarrow>
    (\<exists>s ov disk. BuildVMPlan s ov disk ids = Inr (Plan r)) \<and> map vm_Index (VMs (Plan r)) = ids"

definition plans_agree :: "Sys \<Rightarrow> bool" where
  "plans_agree \<sigma> \<longleftrightarrow>
    (\<forall>u req ids. pending \<sigma> u = Some (req, ids) \<longrightarrow> enough_ids req ids) \<and>
    (\<forall>u e r. fmlookup (scenarios (srv \<sigma>)) u = Some e \<and> scen_runner e = Some r \<longrightarrow>
      runs_on r (map vs_ID (scen_VMs e)))"

text \<open>Building the plan with identifiers gives the VMs these identifiers and changes nothing else.\<close>

lemma plan_size: "BuildVMPlan s ov disk ids = Inr plan \<Longrightarrow>
    TotalVMs plan = int (length (requested ov (env_Tiers (Environment s)))) \<and>
    length (VMs plan) = length (requested ov (env_Tiers (Environment s)))"
  using BuildVMPlan_Inr[of s ov disk ids plan] by simp

lemma enough_ids_runs_on:
  assumes "enough_ids req ids" "NewRunner (sr_scenario req) (run_options req ids) = Inr r"
  shows "runs_on r ids"
proof -
  have b: "BuildVMPlan (sr_scenario req) (sr_scale req) (sr_disk req) ids = Inr (Plan r)"
    using NewRunner_Inr(1)[OF assms(2)] by (simp add: run_options_def)
  have "length (VMs (Plan r)) = length ids"
    using assms(1) plan_size plan_size[OF b] by (auto simp: enough_ids_def)
  with plan_indices[OF b] have "map vm_Index (VMs (Plan r)) = ids" by simp
  with b show ?thesis unfolding runs_on_def by blast
qed

lemma prepared_enough:
  assumes "create_prepare load (Some body) s = Inr req" "create_allocate req s = (ids, t)"
  shows "enough_ids req ids"
proof -
  obtain plan where p: "BuildVMPlan (sr_scenario req) (sr_scale req) (sr_disk req) [] = Inr plan"
    "sr_total req = TotalVMs plan"
    using assms(1) by (auto simp: create_prepare_def Let_def split: if_splits sum.splits)
  have "length ids = nat (sr_total req)"
    using assms(2) allocate_pair(3) by (auto simp: create_allocate_def split: prod.splits)
  then show ?thesis using p plan_size[OF p(1)] by (auto simp: enough_ids_def)
qed

text \<open>What the handlers of existing entries leave alone.\<close>

definition same_runs :: "Server \<Rightarrow> Server \<Rightarrow> bool" where
  "same_runs s t \<longleftrightarrow> (\<forall>u. rel_option (\<lambda>e e'. scen_VMs e' = scen_VMs e \<and>
      map_option Plan (scen_runner e') = map_option Plan (scen_runner e))
    (fmlookup (scenarios s) u) (fmlookup (scenarios t) u))"

lemma same_runs_eq: "scenarios t = scenarios s \<Longrightarrow> same_runs s t"
  by (auto simp: same_runs_def option.rel_refl)

lemma same_runs_upd:
  assumes "fmlookup (scenarios s) u = Some e" "scen_VMs e' = scen_VMs e"
    "map_option Plan (scen_runner e') = map_option Plan (scen_runner e)"
  shows "same_runs s (s\<lparr>scenarios := fmupd u e' (scenarios s)\<rparr>)"
  using assms by (auto simp: same_runs_def option.rel_refl)

lemma Plan_operations [simp]:
  "Plan (snd (CurrentScore now r)) = Plan r" "Plan (snd (RequestHintText r)) = Plan r"
  by (simp_all add: CurrentScore_def RequestHintText_def Let_def)

lemma same_runs_serve_hint:
  "fmlookup (scenarios s) u = Some e \<Longrightarrow> same_runs s (snd (serve_hint now u e s))"
  by (auto simp: serve_hint_def Let_def split_beta same_runs_eq split: option.splits intro!: same_runs_upd)

lemma same_runs_finished: "same_runs s (scenario_finished u ids s)"
proof (cases "fmlookup (scenarios s) u")
  case None
  then show ?thesis by (simp add: scenario_finished_def same_runs_eq)
next
  case (Some e)
  then show ?thesis
    by (auto simp: scenario_finished_def Let_def same_runs_def option.rel_refl)
qed

lemma same_runs_handlers:
  "same_runs s (snd (deleteScenario u s))"
  "same_runs s (snd (getScenario now u s))"
  "same_runs s (snd (hintScenario now u s))"
  "same_runs s (snd (handleVM order now meth path s))"
  by (auto simp: deleteScenario_def getScenario_def hintScenario_def handleVM_def Let_def split_beta same_runs_eq
      split: option.splits list.splits intro!: same_runs_upd same_runs_serve_hint dest: find_owner_Some)

lemma plans_agree_same:
  assumes "plans_agree \<sigma>" "same_runs (srv \<sigma>) (srv \<tau>)" "\<And>u. pending \<tau> u = pending \<sigma> u \<or> pending \<tau> u = None"
  shows "plans_agree \<tau>"
proof -
  have "runs_on r (map vs_ID (scen_VMs e))"
    if e: "fmlookup (scenarios (srv \<tau>)) u = Some e" "scen_runner e = Some r" for u e r
  proof -
    have "rel_option (\<lambda>e e'. scen_VMs e' = scen_VMs e \<and>
        map_option Plan (scen_runner e') = map_option Plan (scen_runner e))
      (fmlookup (scenarios (srv \<sigma>)) u) (fmlookup (scenarios (srv \<tau>)) u)"
      using assms(2) unfolding same_runs_def by blast
    with e obtain e0 r0 where "fmlookup (scenarios (srv \<sigma>)) u = Some e0" "scen_runner e0 = Some r0"
      "scen_VMs e0 = scen_VMs e" "Plan r0 = Plan r"
      by (auto simp: option_rel_Some2 map_option_eq_Some dest!: sym[of "Some _"])
    with assms(1) show ?thesis unfolding plans_agree_def runs_on_def by metis
  qed
  moreover have "enough_ids req ids" if "pending \<tau> u = Some (req, ids)" for u req ids
    using assms(1) assms(3)[of u] that unfolding plans_agree_def by (metis option.distinct(1))
  ultimately show ?thesis unfolding plans_agree_def by blast
qed

lemma plans_agree_step:
  assumes "plans_agree \<sigma>" "sys_step load \<sigma> ev \<tau>"
  shows "plans_agree \<tau>"
  using assms(2)
proof (cases rule: sys_step.cases)
  case (create_fleet u now req resp job s)
  then have "scenarios s = scenarios (srv \<sigma>)"
    using scenarios_fleet_handlers(1)[of u now "Some req" "srv \<sigma>"] by simp
  then show ?thesis using plans_agree_same[OF assms(1) same_runs_eq] create_fleet by simp
next
  case (alloc_scenario u body req ids s)
  then have "scenarios s = scenarios (srv \<sigma>)" using scenarios_fleet_handlers(5)[of req "srv \<sigma>"] by simp
  then show ?thesis
    using assms(1) prepared_enough[OF alloc_scenario(4,5)] alloc_scenario by (auto simp: plans_agree_def)
next
  case (register_scenario u req ids now resp job s)
  then have "enough_ids req ids" using assms(1) by (auto simp: plans_agree_def)
  then show ?thesis
    using assms(1) register_scenario enough_ids_runs_on[of req ids]
    by (auto simp: plans_agree_def create_register_def Let_def split: sum.splits if_splits)
next
  case (finish_scenario u ids)
  then show ?thesis using plans_agree_same[OF assms(1), of \<tau>] same_runs_finished by simp
qed (use plans_agree_same[OF assms(1), of \<tau>] same_runs_handlers same_runs_eq in auto)

interpretation plans: step_invariant "sys_step load" plans_agree for load
  by unfold_locales (rule plans_agree_step)

lemma plans_agree_initial: "plans_agree (initial cfg)"
  by (simp add: plans_agree_def initial_simps)

text \<open>
  The plan of a runner has the VMs of its entry.  In every interleaving the VMs a scenario's entry
  lists are, in order, those its runner's plan has.
\<close>

lemma runner_matches_entry:
  assumes "steps (sys_step load) (initial cfg) es \<sigma>"
    and "fmlookup (scenarios (srv \<sigma>)) u = Some e" "scen_runner e = Some r"
  shows "map vm_Index (VMs (Plan r)) = map vs_ID (scen_VMs e)"
  using plans.steps_inv[OF assms(1) plans_agree_initial] assms(2,3) unfolding plans_agree_def runs_on_def by blast

section \<open>Where a run's requests go\<close>

text \<open>The address of a VM, and the requests whose URL names it as the host.\<close>

definition vm_host :: "int \<Rightarrow> string" where
  "vm_host i = ''172.16.'' @ fmt_d i @ ''.2''"

fun url_of :: "http_call \<Rightarrow> string" where
  "url_of (Get u) = u"
| "url_of (PostStart u req) = u"
| "url_of (PostStop u fid) = u"

definition at_vm :: "int \<Rightarrow> http_call \<Rightarrow> bool" where
  "at_vm i c \<longleftrightarrow> url_host (url_of c) = vm_host i"

text \<open>A request goes to one VM at most.\<close>

lemma at_vm_unique: "at_vm i c \<Longrightarrow> at_vm j c \<Longrightarrow> i = j"
  by (simp add: at_vm_def vm_host_def fmt_d_inj)

lemma vm_host_plain: "list_all (\<lambda>c. host_char c \<and> c \<noteq> CHR ''@'' \<and> c \<noteq> CHR '':'') (vm_host i)"
proof -
  have "list_all (\<lambda>c. is_digit c \<or> c = CHR ''-'') (fmt_d i)"
    using show_dec_digits by (auto simp: fmt_d_def list_all_iff)
  moreover have "host_char c \<and> c \<noteq> CHR ''@'' \<and> c \<noteq> CHR '':''" if "is_digit c \<or> c = CHR ''-''" for c
    using that by (auto simp: is_digit_def host_char_def)
  ultimately show ?thesis by (auto simp: vm_host_def list_all_iff host_char_def)
qed

text \<open>
  The page an objective asks for is appended to the address as it stands in the scenario file.  It is
  a page of that VM if it begins with a slash (or is empty).
\<close>

definition rooted :: "string \<Rightarrow> bool" where
  "rooted p \<longleftrightarrow> p = [] \<or> hd p = CHR ''/''"

definition paths_rooted :: "Scenario \<Rightarrow> bool" where
  "paths_rooted s \<longleftrightarrow> list_all (\<lambda>obj.
    check_Type (objective_Check obj) = CheckHTTP \<longrightarrow> rooted (check_Path (objective_Check obj))) (Objectives s)"

lemma at_vm_page: "rooted p \<Longrightarrow> url_host (''http://'' @ vm_host i @ p) = vm_host i"
  using url_host_rooted(1)[OF vm_host_plain, of "[]" p] by (simp add: rooted_def)

lemma at_vm_agent:
  assumes "p \<noteq> []" "hd p = CHR ''/''"
  shows "url_host (AgentURL en @ p) = vm_host (vm_Index en)"
proof -
  have "list_all is_digit ''7777''" by (simp add: is_digit_def)
  from url_host_rooted(2)[OF vm_host_plain this, of p] assms show ?thesis
    by (simp add: AgentURL_def vm_host_def)
qed

definition to_plan :: "VMPlan \<Rightarrow> http_call \<times> http_reply \<Rightarrow> bool" where
  "to_plan p ev \<longleftrightarrow> (\<exists>en\<in>set (VMs p). at_vm (vm_Index en) (fst ev))"

lemma to_plan_agent [simp]:
  "en \<in> set (VMs p) \<Longrightarrow> path \<noteq> [] \<Longrightarrow> hd path = CHR ''/'' \<Longrightarrow> to_plan p (Get (AgentURL en @ path), x)"
  "en \<in> set (VMs p) \<Longrightarrow> path \<noteq> [] \<Longrightarrow> hd path = CHR ''/'' \<Longrightarrow> to_plan p (PostStart (AgentURL en @ path) req, x)"
  by (auto simp: to_plan_def at_vm_def at_vm_agent)

lemma to_plan_http:
  assumes "en \<in> set (VMs p)" "rooted path"
  shows "to_plan p (Get (''http://'' @ ''172.16.'' @ fmt_d (vm_Index en) @ ''.2'' @ path), x)"
proof -
  have "''http://'' @ ''172.16.'' @ fmt_d (vm_Index en) @ ''.2'' @ path = ''http://'' @ vm_host (vm_Index en) @ path"
    by (simp add: vm_host_def)
  with at_vm_page[OF assms(2), of "vm_Index en"] assms(1) show ?thesis
    unfolding to_plan_def at_vm_def by (metis fst_conv url_of.simps(1))
qed

text \<open>
  A page that does not begin with a slash takes the request elsewhere: after an at-sign the rest is
  another host, and digits extend the address.
\<close>

lemma page_leaves_home:
  assumes "check_Type check = CheckHTTP" "check_Path check = ''@172.16.7.2:7777/metrics''" "vm_Index en = 5"
  shows "\<exists>c x. snd (run_state (check_vm e d check en) []) = [(c, x)] \<and> at_vm 7 c \<and> \<not> at_vm 5 c"
  using assms
  by (simp add: check_vm_def run_state_bind run_state_return at_vm_def vm_host_def fmt_d_def show_base.simps
      digit_table_def url_host_def url_body_def TrimPrefix_def HasPrefix_def strip_userinfo_def strip_port_def
      is_digit_def Let_def)

lemma emits_check_vm:
  assumes "en \<in> set (VMs p)" "check_Type check = CheckHTTP \<longrightarrow> rooted (check_Path check)"
  shows "emits (to_plan p) (check_vm e d check en)"
  unfolding check_vm_def fetchMetrics_def fetchServices_def
  using assms by (auto intro!: emits_bind emits_return emits_perform to_plan_http simp del: append.simps)

lemma emits_check_vms:
  "set ens \<subseteq> set (VMs p) \<Longrightarrow> (check_Type check = CheckHTTP \<longrightarrow> rooted (check_Path check)) \<Longrightarrow>
   emits (to_plan p) (check_vms e d check ens)"
  by (induction ens) (auto intro!: emits_bind emits_return emits_check_vm)

lemma emits_inject_all: "set ens \<subseteq> set (VMs p) \<Longrightarrow> emits (to_plan p) (inject_all e req ens err)"
  by (induction ens arbitrary: err) (auto intro!: emits_bind emits_return emits_perform simp del: append.simps)

lemmas resolved_subset = conjunct2[OF plan.resolved_entries]

lemma emits_injectFault:
  assumes "BuildVMPlan s ov disk ids = Inr (Plan r)"
  shows "emits (to_plan (Plan r)) (injectFault e r f)"
  unfolding injectFault_def
  using resolved_subset[OF assms] by (auto intro!: emits_return emits_inject_all simp del: set_map split: sum.split)

lemma emits_checkAllObjectives:
  assumes "BuildVMPlan s ov disk ids = Inr (Plan r)" "paths_rooted (Scenario r)"
  shows "emits (to_plan (Plan r)) (checkAllObjectives e d r)"
proof -
  have "emits (to_plan (Plan r)) (checkObjective e d r obj)"
    if "check_Type (objective_Check obj) = CheckHTTP \<longrightarrow> rooted (check_Path (objective_Check obj))" for obj
    unfolding checkObjective_def using that
    using resolved_subset[OF assms(1)] by (auto intro!: emits_return emits_check_vms simp del: set_map split: sum.split)
  then have "set objs \<subseteq> set (Objectives (Scenario r)) \<Longrightarrow> emits (to_plan (Plan r)) (check_objectives e d r objs)" for objs
    using assms(2) by (induction objs) (auto simp: paths_rooted_def list_all_iff intro!: emits_bind emits_return)
  then show ?thesis by (simp add: checkAllObjectives_def)
qed

lemma emits_set: "emits Q p \<Longrightarrow> set (snd (run_state p tr)) \<subseteq> set tr \<union> Collect Q"
  by (simp add: emits_def)

definition traffic_home :: "Runner \<Rightarrow> int list \<Rightarrow> run_state_t \<Rightarrow> bool" where
  "traffic_home r ids s \<longleftrightarrow> runs_on r ids \<and> Plan (rs_runner s) = Plan r \<and>
    paths_rooted (Scenario (rs_runner s)) \<and>
    set (rs_http s) \<subseteq> Collect (to_plan (Plan r))"

lemma traffic_home_step:
  assumes h: "traffic_home r ids s" and st: "run_step e d s ev s'"
  shows "traffic_home r ids s'"
proof -
  obtain sc ov disk where b: "BuildVMPlan sc ov disk ids = Inr (Plan r)"
    using h by (auto simp: traffic_home_def runs_on_def)
  have "emits (to_plan (Plan r)) (injectFault e (rs_runner s) f)" for f
    using emits_injectFault[of sc ov disk ids "rs_runner s"] b h by (simp add: traffic_home_def)
  note i = emits_set[OF this, of _ "rs_http s"]
  have "emits (to_plan (Plan r)) (checkAllObjectives e d (set_elapsed now (rs_runner s)))" for now
    using emits_checkAllObjectives[of sc ov disk ids "set_elapsed now (rs_runner s)"] b h
    by (simp add: traffic_home_def set_elapsed_def)
  note c = emits_set[OF this, of _ "rs_http s"]
  have "set (rs_http s') \<subseteq> set (rs_http s) \<union> Collect (to_plan (Plan r))"
    using st
  proof (cases rule: run_step.cases)
    case (step_fault f atDur t0 now)
    then show ?thesis using i[of f] by (simp add: fire_fault_def Let_def split_beta)
  next
    case (step_tick now)
    then show ?thesis using c[of now] by (simp add: poll_def Let_def split_beta)
  qed auto
  with h step_keeps(1,2)[OF st] show ?thesis by (auto simp: traffic_home_def)
qed

interpretation traffic: step_invariant "run_step e d" "traffic_home r ids" for e d r ids
  by unfold_locales (rule traffic_home_step)

lemma run_traffic_home:
  assumes "runs_on r ids" "paths_rooted (Scenario r)" "steps (run_step e d) (run_begin r t0) evs s" "c \<in> set (map fst (rs_http s))"
  shows "\<exists>i\<in>set ids. at_vm i c"
proof -
  have "traffic_home r ids (run_begin r t0)" using assms(1,2) by (simp add: traffic_home_def run_begin_def)
  from traffic.steps_inv[OF assms(3) this] assms(4)
  obtain en where "en \<in> set (VMs (Plan r))" "at_vm (vm_Index en) c"
    by (fastforce simp: traffic_home_def to_plan_def)
  moreover have "map vm_Index (VMs (Plan r)) = ids" using assms(1) by (simp add: runs_on_def)
  ultimately show ?thesis by (metis image_eqI list.set_map)
qed


section \<open>What a running scenario reaches\<close>

lemma running_holds:
  assumes "exclusive \<sigma>" "fmlookup (scenarios (srv \<sigma>)) u = Some e" "scen_Status e = ''running''"
  shows "ScenH u \<in> holders \<sigma>" "held \<sigma> (ScenH u) = map vs_ID (scen_VMs e)"
proof -
  have c: "consistent \<sigma>" using assms(1) by (simp add: exclusive_def)
  then have "sjobs \<sigma> u = Some (map vs_ID (scen_VMs e))" using assms(2,3) unfolding consistent_def by blast
  moreover have "pending \<sigma> u = None" using c assms(2) unfolding consistent_def by (metis option.distinct(1))
  ultimately show "ScenH u \<in> holders \<sigma>" "held \<sigma> (ScenH u) = map vs_ID (scen_VMs e)"
    by (simp_all add: held_ScenH)
qed

text \<open>
  C9. A run's requests stay at home.  In every interleaving of the server in which no fleet is deleted
  while its goroutine is alive, for a scenario that is shown as running and whose HTTP objectives ask
  for pages beginning with a slash: every URL its runner requests in a run (to start a fault, or to poll
  metrics, services and pages), under every schedule and with every reply, has as its host the address
  of a VM the scenario's entry lists, and of no VM held by another scenario or by a fleet.  Where a
  redirect in a reply leads is up to the HTTP library and not followed here.
\<close>

theorem runs_stay_home:
  assumes "steps (gentle_step load) (initial cfg) es \<sigma>"
    and "fmlookup (scenarios (srv \<sigma>)) u = Some e" "scen_Status e = ''running''" "scen_runner e = Some r"
    and "paths_rooted (Scenario r)"
    and "steps (run_step env dec) (run_begin r t0) evs s" "c \<in> set (map fst (rs_http s))"
  shows "(\<exists>i\<in>set (map vs_ID (scen_VMs e)). at_vm i c) \<and>
    (\<forall>h\<in>holders \<sigma> - {ScenH u}. \<forall>i\<in>set (held \<sigma> h). \<not> at_vm i c)"
proof -
  have ex: "exclusive \<sigma>" using gentle.steps_inv[OF assms(1) initial_exclusive] .
  have "plans_agree \<sigma>" using plans.steps_inv[OF gentle_steps_sys[OF assms(1)] plans_agree_initial] .
  then have "runs_on r (map vs_ID (scen_VMs e))" using assms(2,4) unfolding plans_agree_def by blast
  from run_traffic_home[OF this assms(5-7)] obtain i where
    i: "i \<in> set (map vs_ID (scen_VMs e))" "at_vm i c" by blast
  note own = running_holds[OF ex assms(2,3)]
  have "\<not> at_vm j c" if h: "h \<in> holders \<sigma> - {ScenH u}" and j: "j \<in> set (held \<sigma> h)" for h j
  proof
    assume "at_vm j c"
    with i(2) have "j = i" using at_vm_unique by blast
    with i(1) j own(2) have "i \<in> set (held \<sigma> h) \<inter> set (held \<sigma> (ScenH u))" by simp
    moreover have "set (held \<sigma> h) \<inter> set (held \<sigma> (ScenH u)) = {}"
      using ex own(1) h unfolding exclusive_def pool.owned_def by blast
    ultimately show False by blast
  qed
  with i show ?thesis by blast
qed

section \<open>A concrete run\<close>

lemma scen_run_runner:
  obtains en r where "fmlookup (scenarios (srv scen_run)) ''u'' = Some en" "scen_Status en = ''running''"
    "map vs_ID (scen_VMs en) = sample_ids" "scen_runner en = Some r"
    "NewRunner sample_scenario (run_options sample_prepared sample_ids) = Inr r"
proof -
  obtain r where r: "NewRunner sample_scenario (run_options sample_prepared sample_ids) = Inr r"
    using sample_plan[of sample_ids] by (auto simp: NewRunner_def run_options_def sample_prepared_def)
  then have "\<exists>en. fmlookup (scenarios (srv scen_run)) ''u'' = Some en \<and> scen_Status en = ''running'' \<and>
      map vs_ID (scen_VMs en) = sample_ids \<and> scen_runner en = Some r"
    by (simp add: scen_run_def Let_def create_register_def sample_prepared_def)
  with r that show ?thesis by blast
qed

theorem runs_stay_home_witness:
  "\<exists>env dec r evs s c i. steps (run_step env dec) (run_begin r 0) evs s \<and>
    c \<in> set (map fst (rs_http s)) \<and> i \<in> set sample_ids \<and> at_vm i c"
proof -
  obtain en r where en: "fmlookup (scenarios (srv scen_run)) ''u'' = Some en" "scen_Status en = ''running''"
    "map vs_ID (scen_VMs en) = sample_ids" "scen_runner en = Some r"
    and nr: "NewRunner sample_scenario (run_options sample_prepared sample_ids) = Inr r"
    by (rule scen_run_runner)
  have plan: "Plan r = sample_plan sample_ids"
    using NewRunner_Inr(1)[OF nr] sample_plan[of sample_ids] by (simp add: run_options_def sample_prepared_def)
  have "AtDuration sample_fault = Some (5 * Second)"
    using ParseDuration_whole[of "''s''" 1000000000 5]
    by (simp add: sample_fault_def AtDuration_def show_base.simps digit_table_def unit_of_def)
  then have "(sample_fault, 5 * Second) \<in> set (rs_pending (run_begin r 0))"
    by (simp add: run_begin_def NewRunner_Inr(2)[OF nr] sample_scenario_def sample_fault_def)
  then have run: "steps (run_step always_ok \<lparr>decodeMetrics = \<lambda>_. None, decodeServices = \<lambda>_. None\<rparr>) (run_begin r 0)
      [FaultDue sample_fault (5 * Second) (5 * Second)]
      (fire_fault always_ok sample_fault (5 * Second) (5 * Second) (run_begin r 0))"
    by (intro steps_one step_fault[where ?t0.0 = 0]) (simp_all add: run_begin_def)
  let ?c = "PostStart (AgentURL (VMs (Plan r) ! 0) @ ''/fault/start'') (fault_request sample_fault)"
  have "?c \<in> set (map fst (rs_http (fire_fault always_ok sample_fault (5 * Second) (5 * Second) (run_begin r 0))))"
    by (simp add: fire_fault_def split_beta injectFault_def run_begin_def ResolveTargets_def plan sample_ByTier
        sample_fault_def sample_target_def run_state_bind run_state_return)
  moreover have "paths_rooted (Scenario r)"
    using NewRunner_Inr(2)[OF nr] by (simp add: paths_rooted_def sample_scenario_def)
  ultimately show ?thesis using runs_stay_home[OF scen_run_steps en(1,2,4) _ run] run unfolding en(3) by blast
qed

end
