(* ===== verification/ApiWorld.thy ===== *)
theory ApiWorld
  imports RunLife ApiRuns
begin

text \<open>
  The server with all it runs: the handlers of \<open>src/api\<close>, the goroutines of its fleets
  (\<open>launchFleet\<close> in \<open>src/api/fleet.go\<close>) stepped call by call, and the runs of its scenarios (\<open>Run\<close> in
  \<open>src/scenario/runner.go\<close>) as theory \<open>RunLife\<close> has them.

  The parts meet where the code lets them: a fleet's goroutine launches its VMs once it has set
  its status, with the context the entry's deletion cancels, and ends when all VMs have; a
  scenario's goroutine calls \<open>Run\<close> on the runner of its entry, and releases the identifiers when \<open>Run\<close>
  has returned; hints, score queries and deletions reach the run that is in progress.  The runner
  is one object in the code; here the entry and the run each hold a copy, and every step changes both.

  Shown: both copies of a runner are always the same; as long as no live fleet is deleted, a
  goroutine that still has something to give back is the only one that uses its VM identifier,
  and that identifier is not free; when a live fleet is deleted, another fleet can boot a machine
  with the identifier of one that is still running.
\<close>

record world =
  w_sys :: Sys
  w_fleets :: "string \<Rightarrow> (fleet_job \<times> pool) option"
  w_runs :: "string \<Rightarrow> (life_world \<times> life) option"

definition world_begin :: "config \<Rightarrow> world" where
  "world_begin cfg = \<lparr>w_sys = initial cfg, w_fleets = Map.empty, w_runs = Map.empty\<rparr>"

text \<open>
  What the world cannot choose: how scenario files load, what every VM goroutine of a fleet is
  answered, and what the preparation of a run is answered.
\<close>

record outer_world =
  ow_load :: "string \<Rightarrow> plan_error + Scenario"
  ow_vm :: "string \<Rightarrow> nat \<Rightarrow> launch_env"
  ow_host :: "string \<Rightarrow> host_env"
  ow_upper :: "string \<Rightarrow> string"

datatype world_event =
    Serve event
  | FleetCall string pool_event
  | Launch string life_world
  | RunStep string life_event

definition fleet_calls :: "outer_world \<Rightarrow> string \<Rightarrow> fleet_job \<Rightarrow> nat \<Rightarrow> launch_trace" where
  "fleet_calls ow u job i = snd (run_state (launch_vm (ow_vm ow u i) (job_cfg job) (job_vmIDs job ! i)) [])"

abbreviation fleet_size :: "fleet_job \<Rightarrow> nat" where
  "fleet_size job \<equiv> length (job_vmIDs job)"

definition fleet_ctx :: "Sys \<Rightarrow> string \<Rightarrow> bool" where
  "fleet_ctx \<sigma> u =
    (case fmlookup (fleets (srv \<sigma>)) u of None \<Rightarrow> False | Some e \<Rightarrow> FleetEntry.fleet_cancelled e)"

definition prepared :: "outer_world \<Rightarrow> string \<Rightarrow> Runner \<Rightarrow> prologue" where
  "prepared ow u r = result (Run_prologue (ow_host ow u) (ow_upper ow) r)"

text \<open>Whose run an event of the server reaches, and what it does there.\<close>

definition touched :: "Server \<Rightarrow> event \<Rightarrow> (string \<times> run_event list) option" where
  "touched s ev =
    (case ev of
       DeleteScenario u \<Rightarrow> Some (u, [CtxCancelled])
     | GetScenario now u \<Rightarrow> Some (u, [ScoreAsked now])
     | HintScenario now u \<Rightarrow> Some (u, [HintAsked, ScoreAsked now])
     | HintVM order now path \<Rightarrow>
        (case SplitN2 (CHR ''/'') (TrimPrefix path ''/api/v1/vms/'') of
           [i, sub] \<Rightarrow>
             if sub \<noteq> ''hint'' then None
             else (case Atoi i of
                 None \<Rightarrow> None
               | Some vmID \<Rightarrow> map_option (\<lambda>(u, en). (u, [HintAsked, ScoreAsked now])) (find_owner order vmID s))
         | _ \<Rightarrow> None)
     | _ \<Rightarrow> None)"

definition set_runner :: "string \<Rightarrow> Runner \<Rightarrow> Sys \<Rightarrow> Sys" where
  "set_runner u r \<sigma> =
    (case fmlookup (scenarios (srv \<sigma>)) u of
       None \<Rightarrow> \<sigma>
     | Some e \<Rightarrow> \<sigma>\<lparr>srv := (srv \<sigma>)\<lparr>scenarios := fmupd u (e\<lparr>scen_runner := Some r\<rparr>) (scenarios (srv \<sigma>))\<rparr>\<rparr>)"

definition plain_event :: "event \<Rightarrow> bool" where
  "plain_event ev = (case ev of CreateFleet _ _ _ \<Rightarrow> False | FinishFleet _ \<Rightarrow> False | FinishScenario _ \<Rightarrow> False | _ \<Rightarrow> True)"

text \<open>
  Hints, scores and the cancellation come from the server, not from the run itself.  A preparation
  that fails makes \<open>Run\<close> return at once; one that panics ends the process, and so every run of the
  world; a dry run is never asked for (\<open>run_options\<close>).
\<close>

definition own_event :: "life_event \<Rightarrow> bool" where
  "own_event ev = (case ev of During inner \<Rightarrow> \<not> from_outside inner | _ \<Rightarrow> True)"

inductive world_step :: "outer_world \<Rightarrow> world \<Rightarrow> world_event \<Rightarrow> world \<Rightarrow> bool" for ow where
  world_create_fleet:
    "sys_step (ow_load ow) (w_sys W) (CreateFleet u now req) \<tau> \<Longrightarrow>
     createFleet u now (Some req) (srv (w_sys W)) = (resp, Some job, s) \<Longrightarrow>
     world_step ow W (Serve (CreateFleet u now req))
       (W\<lparr>w_sys := \<tau>, w_fleets := (w_fleets W)(u \<mapsto> (job, \<lambda>_. 0))\<rparr>)"
| world_fleet_call:
    "w_fleets W u = Some (job, pc) \<Longrightarrow> fpc (w_sys W) u = Some ApiSystem.Launching \<Longrightarrow>
     pool_step (fleet_size job) (fleet_calls ow u job) (fleet_ctx (w_sys W) u) pc ev pc' \<Longrightarrow>
     world_step ow W (FleetCall u ev) (W\<lparr>w_fleets := (w_fleets W)(u \<mapsto> (job, pc'))\<rparr>)"
| world_finish_fleet:
    "w_fleets W u = Some (job, pc) \<Longrightarrow> pool_done (fleet_size job) (fleet_calls ow u job) pc \<Longrightarrow>
     sys_step (ow_load ow) (w_sys W) (FinishFleet u) \<tau> \<Longrightarrow>
     world_step ow W (Serve (FinishFleet u)) (W\<lparr>w_sys := \<tau>\<rparr>)"
| world_launch:
    "sjobs (w_sys W) u \<noteq> None \<Longrightarrow> w_runs W u = None \<Longrightarrow>
     fmlookup (scenarios (srv (w_sys W))) u = Some e \<Longrightarrow> scen_runner e = Some r \<Longrightarrow>
     prepared ow u r = RunLoop.Launching (lw_base w) (lw_motd w) \<Longrightarrow> \<not> lw_terminal w \<Longrightarrow>
     steps (life_step w) (life_begin r) (if scen_cancelled e then [During CtxCancelled] else []) l \<Longrightarrow>
     world_step ow W (Launch u w) (W\<lparr>w_runs := (w_runs W)(u \<mapsto> (w, l))\<rparr>)"
| world_run:
    "w_runs W u = Some (w, l) \<Longrightarrow> own_event ev \<Longrightarrow> life_step w l ev l' \<Longrightarrow>
     world_step ow W (RunStep u ev)
       (W\<lparr>w_sys := set_runner u (rs_runner (lf_run l')) (w_sys W), w_runs := (w_runs W)(u \<mapsto> (w, l'))\<rparr>)"
| world_run_returned:
    "w_runs W u = Some (w, l) \<Longrightarrow> lf_phase l = Returned \<Longrightarrow>
     sys_step (ow_load ow) (w_sys W) (FinishScenario u) \<tau> \<Longrightarrow>
     world_step ow W (Serve (FinishScenario u)) (W\<lparr>w_sys := \<tau>\<rparr>)"
| world_run_failed:
    "w_runs W u = None \<Longrightarrow> fmlookup (scenarios (srv (w_sys W))) u = Some e \<Longrightarrow> scen_runner e = Some r \<Longrightarrow>
     prepared ow u r = ISOFailed name err \<Longrightarrow>
     sys_step (ow_load ow) (w_sys W) (FinishScenario u) \<tau> \<Longrightarrow>
     world_step ow W (Serve (FinishScenario u)) (W\<lparr>w_sys := \<tau>\<rparr>)"
| world_touch:
    "touched (srv (w_sys W)) ev = Some (u, evs) \<Longrightarrow> w_runs W u = Some (w, l) \<Longrightarrow>
     sys_step (ow_load ow) (w_sys W) ev \<tau> \<Longrightarrow> steps (life_step w) l (map During evs) l' \<Longrightarrow>
     world_step ow W (Serve ev) (W\<lparr>w_sys := \<tau>, w_runs := (w_runs W)(u \<mapsto> (w, l'))\<rparr>)"
| world_serve:
    "plain_event ev \<Longrightarrow> (\<And>u evs. touched (srv (w_sys W)) ev = Some (u, evs) \<Longrightarrow> w_runs W u = None) \<Longrightarrow>
     sys_step (ow_load ow) (w_sys W) ev \<tau> \<Longrightarrow>
     world_step ow W (Serve ev) (W\<lparr>w_sys := \<tau>\<rparr>)"

inductive_cases world_step_cases: "world_step ow W ev W'"

definition gentle_world :: "outer_world \<Rightarrow> world \<Rightarrow> world_event \<Rightarrow> world \<Rightarrow> bool" where
  "gentle_world ow W ev W' \<longleftrightarrow> world_step ow W ev W' \<and>
    (case ev of Serve e \<Rightarrow> \<not> deletes_live (w_sys W) e | _ \<Rightarrow> True)"

text \<open>
  VM number \<open>k\<close> of a holder, with identifier \<open>i\<close>, has taken something on the host and not given it
  back: its image, a machine and, in a fleet, a TAP device.  The TAP devices of scenario VMs are not
  counted: the runner never gives them back, and the next VM with the identifier replaces them.
\<close>

definition vm_busy :: "outer_world \<Rightarrow> world \<Rightarrow> holder \<Rightarrow> nat \<Rightarrow> int \<Rightarrow> bool" where
  "vm_busy ow W h k i =
    (case h of
       FleetH u \<Rightarrow>
        (case w_fleets W u of
           None \<Rightarrow> False
         | Some (job, pc) \<Rightarrow> k < fleet_size job \<and> job_vmIDs job ! k = i \<and>
             owed cleanup is_release [] (made (fleet_calls ow u job) pc k) \<noteq> Some [])
     | ScenH u \<Rightarrow>
        (case w_runs W u of
           None \<Rightarrow> False
         | Some (w, l) \<Rightarrow>
             let vms = VMs (Plan (rs_runner (lf_run l))) in
             k < length vms \<and> vm_Index (vms ! k) = i \<and>
             owed cleanup_vm is_release [] (vm_made w l k) \<noteq> Some []))"

section \<open>What a step of the server does to a run and to a fleet\<close>

fun touch :: "run_event \<Rightarrow> Runner \<Rightarrow> Runner" where
  "touch HintAsked r = snd (RequestHintText r)"
| "touch (ScoreAsked now) r = snd (CurrentScore now r)"
| "touch ev r = r"

lemma touch_cancel [simp]: "touch CtxCancelled = id"
  by (rule ext) simp

definition touches :: "(string \<times> run_event list) option \<Rightarrow> string \<Rightarrow> Runner \<Rightarrow> Runner" where
  "touches t u = (case t of None \<Rightarrow> id | Some (v, evs) \<Rightarrow> if v = u then fold touch evs else id)"

lemma touches_simps [simp]:
  "touches None u = id" "touches (Some (u, evs)) u = fold touch evs" "v \<noteq> u \<Longrightarrow> touches (Some (v, evs)) u = id"
  by (simp_all add: touches_def)

definition entry_follows :: "Server \<Rightarrow> event \<Rightarrow> Server \<Rightarrow> bool" where
  "entry_follows s ev t \<longleftrightarrow> (\<forall>u e. fmlookup (scenarios s) u = Some e \<longrightarrow>
    (\<exists>e'. fmlookup (scenarios t) u = Some e' \<and> scen_VMs e' = scen_VMs e \<and>
      scen_runner e' = map_option (touches (touched s ev) u) (scen_runner e)))"

lemma entry_follows_none:
  assumes "\<And>u e. fmlookup (scenarios s) u = Some e \<Longrightarrow> \<exists>e'. fmlookup (scenarios t) u = Some e' \<and>
    scen_VMs e' = scen_VMs e \<and> scen_runner e' = scen_runner e"
    and "touched s ev = None"
  shows "entry_follows s ev t"
  using assms(1) unfolding entry_follows_def assms(2) by (simp add: option.map_id)

lemma entry_follows_same: "scenarios t = scenarios s \<Longrightarrow> touched s ev = None \<Longrightarrow> entry_follows s ev t"
  by (rule entry_follows_none) auto

lemma entry_follows_upd:
  assumes "fmlookup (scenarios s) u = Some e" "touched s ev = Some (u, evs)" "scen_VMs e' = scen_VMs e"
    and "scen_runner e' = map_option (fold touch evs) (scen_runner e)"
  shows "entry_follows s ev (s\<lparr>scenarios := fmupd u e' (scenarios s)\<rparr>)"
  unfolding entry_follows_def
proof (intro allI impI)
  fix v en assume v: "fmlookup (scenarios s) v = Some en"
  show "\<exists>e''. fmlookup (scenarios (s\<lparr>scenarios := fmupd u e' (scenarios s)\<rparr>)) v = Some e'' \<and>
      scen_VMs e'' = scen_VMs en \<and> scen_runner e'' = map_option (touches (touched s ev) v) (scen_runner en)"
    using assms v by (cases "v = u") (simp_all add: option.map_id)
qed

lemma entry_follows_absent:
  assumes "fmlookup (scenarios s) u = None" "touched s ev = Some (u, evs)"
  shows "entry_follows s ev s"
  unfolding entry_follows_def
proof (intro allI impI)
  fix v e assume v: "fmlookup (scenarios s) v = Some e"
  then have "u \<noteq> v" using assms(1) by auto
  then show "\<exists>e'. fmlookup (scenarios s) v = Some e' \<and> scen_VMs e' = scen_VMs e \<and>
      scen_runner e' = map_option (touches (touched s ev) v) (scen_runner e)"
    using v assms(2) by (simp add: option.map_id)
qed

lemma entry_follows_hint:
  assumes "fmlookup (scenarios s) u = Some e" "touched s ev = Some (u, [HintAsked, ScoreAsked now])"
  shows "entry_follows s ev (snd (serve_hint now u e s))"
proof (cases "scen_runner e")
  case None
  have "fmupd u e (scenarios s) = scenarios s" using assms(1) by (intro fmap_ext) auto
  then have "entry_follows s ev (s\<lparr>scenarios := scenarios s\<rparr>)"
    using entry_follows_upd[OF assms, of e] None by simp
  then show ?thesis using None by (simp add: serve_hint_def)
next
  case (Some r)
  then show ?thesis by (auto simp: serve_hint_def Let_def split_beta intro!: entry_follows_upd[OF assms])
qed

lemma touched_None [simp]:
  "touched s (CreateFleet u now req) = None" "touched s (StartFleet u) = None" "touched s (FinishFleet u) = None"
  "touched s (DeleteFleet u) = None" "touched s (AllocScenario u body) = None"
  "touched s (RegisterScenario u now) = None" "touched s (FinishScenario u) = None"
  by (simp_all add: touched_def)

lemma touched_Some [simp]:
  "touched s (DeleteScenario u) = Some (u, [CtxCancelled])"
  "touched s (GetScenario now u) = Some (u, [ScoreAsked now])"
  "touched s (HintScenario now u) = Some (u, [HintAsked, ScoreAsked now])"
  by (simp_all add: touched_def)

lemma entry_follows_handleVM:
  "entry_follows s (HintVM order now path) (snd (handleVM order now ''POST'' path s))"
proof (cases "touched s (HintVM order now path)")
  case None
  then have "snd (handleVM order now ''POST'' path s) = s"
    by (auto simp: touched_def handleVM_def split: list.splits option.splits if_splits)
  then show ?thesis using None by (simp add: entry_follows_same)
next
  case (Some t)
  then obtain u en where "touched s (HintVM order now path) = Some (u, [HintAsked, ScoreAsked now])"
    "fmlookup (scenarios s) u = Some en" "snd (handleVM order now ''POST'' path s) = snd (serve_hint now u en s)"
    by (auto simp: touched_def handleVM_def split: list.splits option.splits if_splits)
       (use find_owner_Some in metis)
  then show ?thesis using entry_follows_hint by simp
qed

lemma step_follows:
  assumes "consistent \<sigma>" "sys_step load \<sigma> ev \<tau>"
  shows "entry_follows (srv \<sigma>) ev (srv \<tau>)"
  using assms(2)
proof (cases rule: sys_step.cases)
  case (create_fleet u now req resp job s)
  then have "scenarios s = scenarios (srv \<sigma>)"
    using scenarios_fleet_handlers(1)[of u now "Some req" "srv \<sigma>"] by simp
  then show ?thesis using create_fleet by (simp add: entry_follows_same)
next
  case (alloc_scenario u body req ids s)
  then have "scenarios s = scenarios (srv \<sigma>)" using scenarios_fleet_handlers(5)[of req "srv \<sigma>"] by simp
  then show ?thesis using alloc_scenario by (simp add: entry_follows_same)
next
  case (register_scenario u req ids now resp job s)
  have new: "fmlookup (scenarios (srv \<sigma>)) u = None"
    using assms(1) register_scenario(3) unfolding consistent_def by blast
  show ?thesis
  proof (rule entry_follows_none)
    fix v e assume "fmlookup (scenarios (srv \<sigma>)) v = Some e"
    then show "\<exists>e'. fmlookup (scenarios (srv \<tau>)) v = Some e' \<and> scen_VMs e' = scen_VMs e \<and>
        scen_runner e' = scen_runner e"
      using new register_scenario by (auto simp: create_register_def Let_def split: sum.splits)
  qed (use register_scenario in simp)
next
  case (finish_scenario u ids)
  then show ?thesis
    by (intro entry_follows_none) (auto simp: scenario_finished_def Let_def split: option.splits)
next
  case (delete_scenario u)
  then show ?thesis
    by (auto simp: deleteScenario_def option.map_id intro!: entry_follows_upd entry_follows_absent
        split: option.splits)
next
  case (get_scenario now u)
  show ?thesis
  proof (cases "fmlookup (scenarios (srv \<sigma>)) u")
    case None
    then show ?thesis using get_scenario by (simp add: getScenario_def entry_follows_absent)
  next
    case (Some e)
    then show ?thesis
      using get_scenario
      by (auto simp: getScenario_def Let_def split_beta intro!: entry_follows_upd split: option.split)
  qed
next
  case (hint_scenario now u)
  then show ?thesis
    by (cases "fmlookup (scenarios (srv \<sigma>)) u")
       (simp_all add: hintScenario_def entry_follows_hint entry_follows_absent)
next
  case (hint_vm order now path)
  then show ?thesis using entry_follows_handleVM by simp
qed (simp_all add: entry_follows_same)

text \<open>The goroutine of a scenario holds the VMs its entry lists, also when the scenario is aborted.\<close>

definition jobs_match :: "Sys \<Rightarrow> bool" where
  "jobs_match \<sigma> \<longleftrightarrow> (\<forall>u ids. sjobs \<sigma> u = Some ids \<longrightarrow>
    (\<exists>e. fmlookup (scenarios (srv \<sigma>)) u = Some e \<and> map vs_ID (scen_VMs e) = ids))"

lemma step_jobs:
  assumes "consistent \<sigma>" "sys_step load \<sigma> ev \<tau>" "fmlookup (scenarios (srv \<sigma>)) u = Some e" "ev \<noteq> FinishScenario u"
  shows "sjobs \<tau> u = sjobs \<sigma> u"
  using assms(2)
proof (cases rule: sys_step.cases)
  case (register_scenario v req ids now resp job s)
  then have "fmlookup (scenarios (srv \<sigma>)) v = None" using assms(1) unfolding consistent_def by blast
  then have "v \<noteq> u" using assms(3) by auto
  then show ?thesis using register_scenario by simp
qed (use assms(4) in auto)

lemma jobs_match_step:
  assumes "consistent \<sigma>" "jobs_match \<sigma>" "sys_step load \<sigma> ev \<tau>"
  shows "jobs_match \<tau>"
  unfolding jobs_match_def
proof (intro allI impI)
  fix u ids assume j: "sjobs \<tau> u = Some ids"
  show "\<exists>e. fmlookup (scenarios (srv \<tau>)) u = Some e \<and> map vs_ID (scen_VMs e) = ids"
  proof (cases "sjobs \<sigma> u = Some ids")
    case True
    then obtain e where "fmlookup (scenarios (srv \<sigma>)) u = Some e" "map vs_ID (scen_VMs e) = ids"
      using assms(2) unfolding jobs_match_def by blast
    with step_follows[OF assms(1,3)] show ?thesis unfolding entry_follows_def by metis
  next
    case False
    from assms(3) False j show ?thesis
    proof (cases rule: sys_step.cases)
      case (register_scenario v req ids' now resp job s)
      then show ?thesis
        using False j by (auto simp: create_register_def Let_def split: sum.splits if_splits)
    qed (auto split: if_splits)
  qed
qed

lemma step_fleets:
  assumes "sys_step load \<sigma> ev \<tau>" "fmlookup (fleets (srv \<sigma>)) u = Some e" "fpc \<sigma> u \<noteq> None"
  shows "(\<exists>e'. fmlookup (fleets (srv \<tau>)) u = Some e' \<and> fleet_vmIDs e' = fleet_vmIDs e) \<and>
    fpc \<tau> u = (if ev = StartFleet u then Some ApiSystem.Launching else if ev = FinishFleet u then Some Done else fpc \<sigma> u)"
  using assms(1)
proof (cases rule: sys_step.cases)
  case (create_fleet v now req resp job s)
  then have "v \<noteq> u" using assms(3) by (auto simp: fresh_def)
  then show ?thesis
    using create_fleet assms(2) by (auto simp: createFleet_def Let_def split: prod.splits)
next
  case (start_fleet v)
  then show ?thesis using assms(2) by (auto simp: fleet_started_def split: option.splits)
next
  case (finish_fleet v)
  then show ?thesis using assms(2) by (auto simp: fleet_finished_def split: option.splits)
next
  case (delete_fleet v)
  then show ?thesis using assms(2) by (auto simp: deleteFleet_def Let_def split: option.splits)
next
  case (alloc_scenario v body req ids s)
  then show ?thesis using assms(2) by (auto simp: create_allocate_def split: prod.splits)
next
  case (register_scenario v req ids now resp job s)
  then show ?thesis using assms(2) by (auto simp: create_register_def Let_def split: sum.splits)
next
  case (finish_scenario v ids)
  then show ?thesis using assms(2) by (auto simp: scenario_finished_def Let_def split: option.splits if_splits)
qed (use assms(2) same_entries_handlers in \<open>auto simp: same_entries_def\<close>)


section \<open>What an event of the server does to a run\<close>

lemma touched_outside: "touched s ev = Some (u, evs) \<Longrightarrow> list_all from_outside evs"
  by (cases ev) (auto simp: touched_def from_outside_def split: list.splits option.splits if_splits)

lemma run_step_outside:
  "run_step e d s ev s' \<Longrightarrow> from_outside ev \<Longrightarrow> rs_runner s' = touch ev (rs_runner s) \<and> \<not> ends_run ev"
  by (erule run_step_cases) (auto simp: from_outside_def ends_run_def)

lemma life_outside:
  "steps (life_step w) l es l' \<Longrightarrow> es = map During evs \<Longrightarrow> list_all from_outside evs \<Longrightarrow>
    rs_runner (lf_run l') = fold touch evs (rs_runner (lf_run l)) \<and> lf_phase l' = lf_phase l"
proof (induction arbitrary: evs rule: steps.induct)
  case (steps_Cons l ev m es l')
  then obtain r rest where evs: "evs = r # rest" "ev = During r" "es = map During rest" by auto
  then have "rs_runner (lf_run m) = touch r (rs_runner (lf_run l)) \<and> lf_phase m = lf_phase l"
    using steps_Cons(1,5) run_step_outside by (fastforce simp: life_step_simps)
  with steps_Cons.IH[OF evs(3)] steps_Cons(5) evs(1) show ?case by simp
qed simp

lemma Plan_touch [simp]: "Plan (touch ev r) = Plan r"
  by (cases ev) simp_all

lemma Plan_fold_touch [simp]: "Plan (fold touch evs r) = Plan r"
  by (induction evs arbitrary: r) simp_all


section \<open>The bookkeeping\<close>

text \<open>
  The run of a scenario works on the runner of its entry; until it has returned, its goroutine
  has not released its identifiers.
\<close>

definition run_ok :: "Sys \<Rightarrow> string \<Rightarrow> life_world \<times> life \<Rightarrow> bool" where
  "run_ok \<sigma> u x \<longleftrightarrow>
    (case x of (w, l) \<Rightarrow>
      (\<exists>e r. fmlookup (scenarios (srv \<sigma>)) u = Some e \<and> scen_runner e = Some (rs_runner (lf_run l)) \<and>
        life_inv w r l \<and> (lf_phase l \<noteq> Returned \<longrightarrow> sjobs \<sigma> u \<noteq> None)))"

definition fleet_ok :: "outer_world \<Rightarrow> Sys \<Rightarrow> string \<Rightarrow> fleet_job \<times> pool \<Rightarrow> bool" where
  "fleet_ok ow \<sigma> u x \<longleftrightarrow>
    (case x of (job, pc) \<Rightarrow>
      (\<exists>e. fmlookup (fleets (srv \<sigma>)) u = Some e \<and> fleet_vmIDs e = job_vmIDs job \<and>
        (case fpc \<sigma> u of
           None \<Rightarrow> False
         | Some Spawned \<Rightarrow> pc = (\<lambda>_. 0)
         | Some ApiSystem.Launching \<Rightarrow> True
         | Some Done \<Rightarrow> pool_done (fleet_size job) (fleet_calls ow u job) pc)))"

definition runs_ok :: "world \<Rightarrow> bool" where
  "runs_ok W \<longleftrightarrow> (\<forall>u x. w_runs W u = Some x \<longrightarrow> run_ok (w_sys W) u x)"

definition fleets_ok :: "outer_world \<Rightarrow> world \<Rightarrow> bool" where
  "fleets_ok ow W \<longleftrightarrow> (\<forall>u x. w_fleets W u = Some x \<longrightarrow> fleet_ok ow (w_sys W) u x)"

definition sys_ok :: "Sys \<Rightarrow> bool" where
  "sys_ok \<sigma> \<longleftrightarrow> consistent \<sigma> \<and> jobs_match \<sigma> \<and> plans_agree \<sigma>"

lemma sys_ok_step: "sys_ok \<sigma> \<Longrightarrow> sys_step load \<sigma> ev \<tau> \<Longrightarrow> sys_ok \<tau>"
  unfolding sys_ok_def using consistent_step jobs_match_step plans_agree_step by blast

lemma run_ok_step:
  assumes "sys_ok \<sigma>" "sys_step load \<sigma> ev \<tau>" "run_ok \<sigma> u (w, l)"
    and "\<And>evs. touched (srv \<sigma>) ev = Some (u, evs) \<Longrightarrow> steps (life_step w) l (map During evs) l'"
    and "\<nexists>evs. touched (srv \<sigma>) ev = Some (u, evs) \<Longrightarrow> l' = l"
    and "ev = FinishScenario u \<Longrightarrow> lf_phase l = Returned"
  shows "run_ok \<tau> u (w, l')"
proof -
  have c: "consistent \<sigma>" using assms(1) by (simp add: sys_ok_def)
  obtain e r where e: "fmlookup (scenarios (srv \<sigma>)) u = Some e" "scen_runner e = Some (rs_runner (lf_run l))"
    and l: "life_inv w r l" "lf_phase l \<noteq> Returned \<longrightarrow> sjobs \<sigma> u \<noteq> None"
    using assms(3) by (auto simp: run_ok_def)
  obtain e' where e': "fmlookup (scenarios (srv \<tau>)) u = Some e'"
    "scen_runner e' = map_option (touches (touched (srv \<sigma>) ev) u) (scen_runner e)"
    using step_follows[OF c assms(2)] e(1) unfolding entry_follows_def by blast
  have jobs: "lf_phase l \<noteq> Returned \<longrightarrow> sjobs \<tau> u \<noteq> None"
    using step_jobs[OF c assms(2) e(1)] l(2) assms(6) by metis
  show ?thesis
  proof (cases "\<exists>evs. touched (srv \<sigma>) ev = Some (u, evs)")
    case True
    then obtain evs' where t: "touched (srv \<sigma>) ev = Some (u, evs')" by blast
    note st = assms(4)[OF t]
    have "life_inv w r l'" by (rule lives.steps_inv[OF st l(1)])
    with life_outside[OF st refl touched_outside[OF t]] e e' jobs t show ?thesis
      by (auto simp: run_ok_def)
  next
    case False
    then have "l' = l" "touches (touched (srv \<sigma>) ev) u = id"
      using assms(5) by (auto simp: touches_def split: option.splits)
    with e e' l(1) jobs show ?thesis by (auto simp: run_ok_def option.map_id)
  qed
qed

lemma fleet_ok_step:
  assumes "sys_step load \<sigma> ev \<tau>" "fleet_ok ow \<sigma> u (job, pc)"
    and "ev = FinishFleet u \<Longrightarrow> pool_done (fleet_size job) (fleet_calls ow u job) pc"
  shows "fleet_ok ow \<tau> u (job, pc)"
proof -
  obtain e where e: "fmlookup (fleets (srv \<sigma>)) u = Some e" "fleet_vmIDs e = job_vmIDs job" "fpc \<sigma> u \<noteq> None"
    using assms(2) by (auto simp: fleet_ok_def split: option.splits)
  from step_fleets[OF assms(1) e(1,3)] e(2) assms(2,3) show ?thesis
    by (auto simp: fleet_ok_def split: option.splits phase.splits if_splits)
qed

lemma new_fleet_ok:
  assumes "sys_step load \<sigma> (CreateFleet u now req) \<tau>" "createFleet u now (Some req) (srv \<sigma>) = (resp, Some job, s)"
  shows "fleet_ok ow \<tau> u (job, \<lambda>_. 0)"
proof -
  have "\<tau> = \<sigma>\<lparr>srv := s, fpc := (fpc \<sigma>)(u \<mapsto> Spawned)\<rparr>" using assms by (auto simp: sys_step_simps)
  with assms(2) show ?thesis
    by (auto simp: fleet_ok_def createFleet_def Let_def split: prod.splits)
qed

lemma set_runner_same:
  assumes "fmlookup (scenarios (srv \<sigma>)) u = Some e" "scen_runner e = Some r" "Plan r' = Plan r"
  obtains t where "set_runner u r' \<sigma> = \<sigma>\<lparr>srv := t\<rparr>" "same_entries (srv \<sigma>) t" "same_runs (srv \<sigma>) t"
proof (rule that)
  let ?t = "(srv \<sigma>)\<lparr>scenarios := fmupd u (e\<lparr>scen_runner := Some r'\<rparr>) (scenarios (srv \<sigma>))\<rparr>"
  show "set_runner u r' \<sigma> = \<sigma>\<lparr>srv := ?t\<rparr>" using assms(1) by (simp add: set_runner_def)
  show "same_entries (srv \<sigma>) ?t" by (rule same_entries_upd[OF assms(1)]) simp_all
  show "same_runs (srv \<sigma>) ?t" by (rule same_runs_upd[OF assms(1)]) (simp_all add: assms)
qed

lemma set_runner_kept [simp]:
  "fpc (set_runner u r \<sigma>) = fpc \<sigma>" "sjobs (set_runner u r \<sigma>) = sjobs \<sigma>" "pending (set_runner u r \<sigma>) = pending \<sigma>"
  "fleets (srv (set_runner u r \<sigma>)) = fleets (srv \<sigma>)" "usedIDs (srv (set_runner u r \<sigma>)) = usedIDs (srv \<sigma>)"
  by (simp_all add: set_runner_def split: option.split)

lemma set_runner_entry:
  "fmlookup (scenarios (srv (set_runner u r \<sigma>))) v =
    (if v = u then map_option (scen_runner_update (\<lambda>_. Some r)) (fmlookup (scenarios (srv \<sigma>)) u)
     else fmlookup (scenarios (srv \<sigma>)) v)"
  by (simp add: set_runner_def split: option.split)

lemma sys_ok_set_runner:
  assumes "sys_ok \<sigma>" "fmlookup (scenarios (srv \<sigma>)) u = Some e" "scen_runner e = Some r" "Plan r' = Plan r"
  shows "sys_ok (set_runner u r' \<sigma>)"
proof -
  obtain t where t: "set_runner u r' \<sigma> = \<sigma>\<lparr>srv := t\<rparr>" "same_entries (srv \<sigma>) t" "same_runs (srv \<sigma>) t"
    by (rule set_runner_same[OF assms(2-4)])
  have "consistent (set_runner u r' \<sigma>)" using same_entries_sys(1)[OF t(2)] assms(1) t(1) by (simp add: sys_ok_def)
  moreover have "plans_agree (set_runner u r' \<sigma>)"
    using plans_agree_same[of \<sigma> "set_runner u r' \<sigma>"] assms(1) t(1,3) by (simp add: sys_ok_def)
  moreover have "jobs_match (set_runner u r' \<sigma>)"
    using assms(1,2) unfolding sys_ok_def jobs_match_def by (fastforce simp: set_runner_entry)
  ultimately show ?thesis by (simp add: sys_ok_def)
qed

definition world_ok :: "outer_world \<Rightarrow> world \<Rightarrow> bool" where
  "world_ok ow W \<longleftrightarrow> sys_ok (w_sys W) \<and> runs_ok W \<and> fleets_ok ow W"

text \<open>Steps of the server that create no fleet.\<close>

lemma world_ok_serve:
  assumes ok: "world_ok ow W" and st: "sys_step (ow_load ow) (w_sys W) ev \<tau>"
    and fin: "\<And>u w l. ev = FinishScenario u \<Longrightarrow> w_runs W u = Some (w, l) \<Longrightarrow> lf_phase l = Returned"
    and don: "\<And>u job pc. ev = FinishFleet u \<Longrightarrow> w_fleets W u = Some (job, pc) \<Longrightarrow>
      pool_done (fleet_size job) (fleet_calls ow u job) pc"
    and none: "\<And>u evs. touched (srv (w_sys W)) ev = Some (u, evs) \<Longrightarrow> w_runs W u = None"
  shows "world_ok ow (W\<lparr>w_sys := \<tau>\<rparr>)"
proof -
  have sys: "sys_ok (w_sys W)" and runs: "runs_ok W" and fl: "fleets_ok ow W" using ok by (simp_all add: world_ok_def)
  have "run_ok \<tau> u (w, l)" if r: "w_runs W u = Some (w, l)" for u w l
  proof (rule run_ok_step[OF sys st])
    show "run_ok (w_sys W) u (w, l)" using runs r by (simp add: runs_ok_def)
  qed (use r none fin in auto)
  moreover have "fleet_ok ow \<tau> u (job, pc)" if f: "w_fleets W u = Some (job, pc)" for u job pc
    using fleet_ok_step[OF st] fl f don unfolding fleets_ok_def by blast
  ultimately show ?thesis
    using sys_ok_step[OF sys st] by (auto simp: world_ok_def runs_ok_def fleets_ok_def)
qed

lemma world_ok_touch:
  assumes ok: "world_ok ow W" and st: "sys_step (ow_load ow) (w_sys W) ev \<tau>"
    and t: "touched (srv (w_sys W)) ev = Some (u, evs)" and r: "w_runs W u = Some (w, l)"
    and life: "steps (life_step w) l (map During evs) l'"
  shows "world_ok ow (W\<lparr>w_sys := \<tau>, w_runs := (w_runs W)(u \<mapsto> (w, l'))\<rparr>)"
proof -
  have sys: "sys_ok (w_sys W)" and runs: "runs_ok W" and fl: "fleets_ok ow W" using ok by (simp_all add: world_ok_def)
  have ev: "ev \<noteq> FinishScenario v" "ev \<noteq> FinishFleet v" for v using t by auto
  have "run_ok \<tau> v (wv, lv)" if v: "((w_runs W)(u \<mapsto> (w, l'))) v = Some (wv, lv)" for v wv lv
  proof (cases "v = u")
    case True
    have "run_ok (w_sys W) u (w, l)" using runs r by (simp add: runs_ok_def)
    then have "run_ok \<tau> u (w, l')" by (rule run_ok_step[OF sys st]) (use t life ev in auto)
    then show ?thesis using v True by simp
  next
    case False
    then have "run_ok (w_sys W) v (wv, lv)" using runs v by (simp add: runs_ok_def)
    then show ?thesis by (rule run_ok_step[OF sys st]) (use t False ev in auto)
  qed
  moreover have "fleet_ok ow \<tau> v (job, pc)" if f: "w_fleets W v = Some (job, pc)" for v job pc
    using fleet_ok_step[OF st] fl f ev unfolding fleets_ok_def by blast
  ultimately show ?thesis
    using sys_ok_step[OF sys st] by (auto simp: world_ok_def runs_ok_def fleets_ok_def)
qed

lemma world_ok_run:
  assumes ok: "world_ok ow W" and r: "w_runs W u = Some (w, l)" and st: "life_step w l ev l'"
    and own: "own_event ev"
  shows "world_ok ow (W\<lparr>w_sys := set_runner u (rs_runner (lf_run l')) (w_sys W), w_runs := (w_runs W)(u \<mapsto> (w, l'))\<rparr>)"
proof -
  let ?\<sigma> = "set_runner u (rs_runner (lf_run l')) (w_sys W)"
  have "run_ok (w_sys W) u (w, l)" using ok r by (simp add: world_ok_def runs_ok_def)
  then obtain e r0 where e: "fmlookup (scenarios (srv (w_sys W))) u = Some e" "scen_runner e = Some (rs_runner (lf_run l))"
    and l: "life_inv w r0 l" "lf_phase l \<noteq> Returned \<longrightarrow> sjobs (w_sys W) u \<noteq> None"
    by (auto simp: run_ok_def)
  have l': "life_inv w r0 l'" by (rule life_inv_step[OF l(1) st])
  then have plan: "Plan (rs_runner (lf_run l')) = Plan (rs_runner (lf_run l))"
    using life_inv_keeps(2) l(1) by metis
  have "lf_phase l = Returned \<Longrightarrow> lf_phase l' = Returned"
    by (rule life_step_cases[OF st]) (use l(1) in \<open>auto simp: life_inv_def dest: ends_result(1)\<close>)
  with e l l' have "run_ok ?\<sigma> u (w, l')" by (auto simp: run_ok_def set_runner_entry)
  moreover have "run_ok ?\<sigma> v x" if "w_runs W v = Some x" "v \<noteq> u" for v x
    using ok that by (auto simp: world_ok_def runs_ok_def run_ok_def set_runner_entry split: prod.splits)
  moreover have "fleet_ok ow ?\<sigma> v x" if "w_fleets W v = Some x" for v x
    using ok that by (auto simp: world_ok_def fleets_ok_def fleet_ok_def)
  ultimately show ?thesis
    using sys_ok_set_runner[OF _ e plan] ok by (auto simp: world_ok_def runs_ok_def fleets_ok_def)
qed

lemma world_ok_launch:
  assumes ok: "world_ok ow W" and j: "sjobs (w_sys W) u \<noteq> None"
    and e: "fmlookup (scenarios (srv (w_sys W))) u = Some e" "scen_runner e = Some r"
    and st: "steps (life_step w) (life_begin r) (if scen_cancelled e then [During CtxCancelled] else []) l"
  shows "world_ok ow (W\<lparr>w_runs := (w_runs W)(u \<mapsto> (w, l))\<rparr>)"
proof -
  let ?evs = "if scen_cancelled e then [CtxCancelled] else []"
  have st': "steps (life_step w) (life_begin r) (map During ?evs) l" using st by (simp split: if_splits)
  have "list_all from_outside ?evs" by (simp add: from_outside_def)
  from life_outside[OF st' refl this] have "rs_runner (lf_run l) = r" by (simp add: life_begin_def)
  with e j life_reaches[OF st] have "run_ok (w_sys W) u (w, l)" by (auto simp: run_ok_def)
  then show ?thesis using ok by (auto simp: world_ok_def runs_ok_def fleets_ok_def)
qed

lemma world_ok_create:
  assumes ok: "world_ok ow W" and st: "sys_step (ow_load ow) (w_sys W) (CreateFleet u now req) \<tau>"
    and cr: "createFleet u now (Some req) (srv (w_sys W)) = (resp, Some job, s)"
  shows "world_ok ow (W\<lparr>w_sys := \<tau>, w_fleets := (w_fleets W)(u \<mapsto> (job, \<lambda>_. 0))\<rparr>)"
proof -
  have "world_ok ow (W\<lparr>w_sys := \<tau>\<rparr>)" by (rule world_ok_serve[OF ok st]) auto
  then show ?thesis
    using new_fleet_ok[OF st cr, of ow] by (auto simp: world_ok_def runs_ok_def fleets_ok_def)
qed

lemma world_ok_step:
  assumes "world_ok ow W" "world_step ow W ev W'"
  shows "world_ok ow W'"
  using assms(2)
proof (cases rule: world_step.cases)
  case (world_create_fleet u now req \<tau> resp job s)
  then show ?thesis using world_ok_create[OF assms(1)] by simp
next
  case (world_fleet_call u job pc ev pc')
  then have "fleet_ok ow (w_sys W) u (job, pc)" using assms(1) by (simp add: world_ok_def fleets_ok_def)
  then have "fleet_ok ow (w_sys W) u (job, pc')" using world_fleet_call(4) by (simp add: fleet_ok_def)
  then show ?thesis
    using assms(1) world_fleet_call(2) by (auto simp: world_ok_def runs_ok_def fleets_ok_def)
next
  case (world_finish_fleet u job pc \<tau>)
  have "world_ok ow (W\<lparr>w_sys := \<tau>\<rparr>)"
    by (rule world_ok_serve[OF assms(1) world_finish_fleet(5)]) (use world_finish_fleet in \<open>auto simp: plain_event_def\<close>)
  then show ?thesis using world_finish_fleet by simp
next
  case (world_launch u e r w l)
  then show ?thesis using world_ok_launch[OF assms(1)] by simp
next
  case (world_run u w l ev l')
  then show ?thesis using world_ok_run[OF assms(1)] by simp
next
  case (world_run_returned u w l \<tau>)
  have "world_ok ow (W\<lparr>w_sys := \<tau>\<rparr>)"
    by (rule world_ok_serve[OF assms(1) world_run_returned(5)]) (use world_run_returned in \<open>auto simp: plain_event_def\<close>)
  then show ?thesis using world_run_returned by simp
next
  case (world_run_failed u e r name err \<tau>)
  have "world_ok ow (W\<lparr>w_sys := \<tau>\<rparr>)"
    by (rule world_ok_serve[OF assms(1) world_run_failed(7)]) (use world_run_failed in \<open>auto simp: plain_event_def\<close>)
  then show ?thesis using world_run_failed by simp
next
  case (world_touch ev u evs w l \<tau> l')
  then show ?thesis using world_ok_touch[OF assms(1)] by simp
next
  case (world_serve ev \<tau>)
  have "world_ok ow (W\<lparr>w_sys := \<tau>\<rparr>)"
    by (rule world_ok_serve[OF assms(1) world_serve(5)]) (use world_serve in \<open>auto simp: plain_event_def\<close>)
  then show ?thesis using world_serve by simp
qed

interpretation worlds: step_invariant "world_step ow" "world_ok ow" for ow
  by unfold_locales (rule world_ok_step)

lemma world_ok_begin: "world_ok ow (world_begin cfg)"
  using initial_consistent[of cfg] plans_agree_initial[of cfg]
  by (simp add: world_ok_def sys_ok_def runs_ok_def fleets_ok_def world_begin_def jobs_match_def)
     (simp add: initial_def)

section \<open>One machine per identifier\<close>

lemma exclusive_world_step:
  assumes ok: "world_ok ow W" and ex: "exclusive (w_sys W)" and st: "gentle_world ow W ev W'"
  shows "exclusive (w_sys W')"
proof -
  have serve: "exclusive \<tau>" if "ev = Serve e" "sys_step (ow_load ow) (w_sys W) e \<tau>" for e \<tau>
    using gentle.step_inv[OF ex, of "ow_load ow" e \<tau>] that st by (simp add: gentle_world_def gentle_step_def)
  have "world_step ow W ev W'" using st by (simp add: gentle_world_def)
  then show ?thesis
  proof (cases rule: world_step.cases)
    case (world_run u w l lev l')
    have "world_ok ow W'" using world_ok_run[OF ok] world_run by simp
    then have c: "consistent (w_sys W')" by (simp add: world_ok_def sys_ok_def)
    have "run_ok (w_sys W) u (w, l)" using ok world_run(3) by (simp add: world_ok_def runs_ok_def)
    then obtain e r0 where e: "fmlookup (scenarios (srv (w_sys W))) u = Some e" "scen_runner e = Some (rs_runner (lf_run l))"
      "life_inv w r0 l" by (auto simp: run_ok_def)
    then have "Plan (rs_runner (lf_run l')) = Plan (rs_runner (lf_run l))"
      using life_inv_keeps(2) life_inv_step[OF e(3) world_run(5)] by metis
    from set_runner_same[OF e(1,2) this] obtain t where
      t: "w_sys W' = (w_sys W)\<lparr>srv := t\<rparr>" "same_entries (srv (w_sys W)) t" using world_run(2) by auto
    show ?thesis
      using ex c same_entries_sys(2-4)[OF t(2)] by (simp add: exclusive_def t(1))
  qed (use serve ex in auto)
qed

lemma gentle_worlds:
  "steps (gentle_world ow) W es W' \<Longrightarrow> world_ok ow W \<Longrightarrow> exclusive (w_sys W) \<Longrightarrow>
    world_ok ow W' \<and> exclusive (w_sys W')"
  by (induction rule: steps.induct) (use exclusive_world_step world_ok_step gentle_world_def in blast)+

lemma busy_fleet:
  assumes "fleet_ok ow \<sigma> u (job, pc)" "owed cleanup is_release [] (made (fleet_calls ow u job) pc k) \<noteq> Some []"
    and "k < fleet_size job"
  shows "fpc \<sigma> u = Some ApiSystem.Launching \<and> held \<sigma> (FleetH u) = job_vmIDs job"
proof -
  have "owed cleanup is_release [] (fleet_calls ow u job k) = Some []"
    unfolding fleet_calls_def by (rule launch_vm_releases)
  then have "\<not> pool_done (fleet_size job) (fleet_calls ow u job) pc"
    using assms(2,3) by (auto simp: made_done)
  moreover have "pc \<noteq> (\<lambda>_. 0)" using assms(2) by (auto simp: made_def)
  ultimately show ?thesis
    using assms(1) by (auto simp: fleet_ok_def held_FleetH split: option.splits phase.splits)
qed

lemma busy_run:
  assumes "life_inv w r l" "k < vm_count r" "owed cleanup_vm is_release [] (vm_made w l k) \<noteq> Some []"
  shows "lf_phase l \<noteq> Returned"
proof
  assume "lf_phase l = Returned"
  then have "pool_done (vm_count r) (vm_calls w r) (lf_pc l)" using assms(1) by (simp add: life_inv_def)
  then have "vm_made w l k = vm_calls w r k"
    using made_done[of "vm_count r"] assms(2) by (simp add: vm_made_def life_inv_keeps(3)[OF assms(1)])
  then show False
    using assms(3) run_vm_releases[of "lw_vm w k" "lw_base w" "lw_motd w" "VMs (Plan r) ! k"]
    by (simp add: vm_calls_def vm_run_def)
qed

lemma busy_held:
  assumes ok: "world_ok ow W" and b: "vm_busy ow W h k i"
  shows "h \<in> holders (w_sys W) \<and> k < length (held (w_sys W) h) \<and> held (w_sys W) h ! k = i"
proof (cases h)
  case (FleetH u)
  then obtain job pc where f: "w_fleets W u = Some (job, pc)" "k < fleet_size job" "job_vmIDs job ! k = i"
    "owed cleanup is_release [] (made (fleet_calls ow u job) pc k) \<noteq> Some []"
    using b by (auto simp: vm_busy_def split: option.splits)
  have "fleet_ok ow (w_sys W) u (job, pc)" using ok f(1) by (simp add: world_ok_def fleets_ok_def)
  from busy_fleet[OF this f(4,2)] f FleetH show ?thesis by simp
next
  case (ScenH u)
  then obtain w l where l: "w_runs W u = Some (w, l)" "k < vm_count (rs_runner (lf_run l))"
    "vm_Index (VMs (Plan (rs_runner (lf_run l))) ! k) = i" "owed cleanup_vm is_release [] (vm_made w l k) \<noteq> Some []"
    using b by (auto simp: vm_busy_def Let_def split: option.splits)
  have s: "sys_ok (w_sys W)" and "run_ok (w_sys W) u (w, l)" using ok l(1) by (simp_all add: world_ok_def runs_ok_def)
  then obtain e r where e: "fmlookup (scenarios (srv (w_sys W))) u = Some e" "scen_runner e = Some (rs_runner (lf_run l))"
    and r: "life_inv w r l" "lf_phase l \<noteq> Returned \<longrightarrow> sjobs (w_sys W) u \<noteq> None" by (auto simp: run_ok_def)
  have "lf_phase l \<noteq> Returned" using busy_run[OF r(1) _ l(4)] l(2) life_inv_keeps(2)[OF r(1)] by simp
  then have j: "sjobs (w_sys W) u = Some (map vs_ID (scen_VMs e))"
    using r(2) s e(1) by (fastforce simp: sys_ok_def jobs_match_def)
  moreover have "pending (w_sys W) u = None"
    using s e(1) unfolding sys_ok_def consistent_def by (metis option.distinct(1))
  ultimately have h: "held (w_sys W) (ScenH u) = map vs_ID (scen_VMs e)" by (simp add: held_ScenH)
  have "map vm_Index (VMs (Plan (rs_runner (lf_run l)))) = map vs_ID (scen_VMs e)"
    using s e unfolding sys_ok_def plans_agree_def runs_on_def by blast
  then have "k < length (held (w_sys W) (ScenH u))" "held (w_sys W) (ScenH u) ! k = i"
    using l(2,3) unfolding h by (metis length_map, metis nth_map)
  then show ?thesis using j ScenH by simp
qed

text \<open>
  C1. One machine per identifier.  In every interleaving of the server, its goroutines and all they
  call, in which no fleet is deleted while its goroutine is alive, and whatever the host, the agents and
  the network answer: a VM goroutine that has set up an image or a machine (for a VM of a fleet also a
  TAP device) and not yet given it back is the only one that works with its identifier, among all VMs
  of all fleets and scenarios, and the identifier is marked as used, so no new VM can get it.
\<close>

theorem machines_exclusive:
  assumes "steps (gentle_world ow) (world_begin cfg) evs W" "vm_busy ow W h k i" "vm_busy ow W h' k' i"
  shows "h = h' \<and> k = k' \<and> i \<in> used_set (usedIDs (srv (w_sys W)))"
proof -
  have "world_ok ow W \<and> exclusive (w_sys W)"
    by (rule gentle_worlds[OF assms(1) world_ok_begin]) (simp add: world_begin_def initial_exclusive)
  then have ok: "world_ok ow W" and own: "pool.owned (usedIDs (srv (w_sys W))) (holders (w_sys W)) (held (w_sys W))"
    by (simp_all add: exclusive_def)
  note b = busy_held[OF ok assms(2)] and b' = busy_held[OF ok assms(3)]
  have "i \<in> set (held (w_sys W) h)" "i \<in> set (held (w_sys W) h')" using b b' nth_mem by metis+
  then have "h = h'" and "i \<in> used_set (usedIDs (srv (w_sys W)))"
    using own b b' unfolding pool.owned_def by blast+
  moreover have "distinct (held (w_sys W) h)" using own b unfolding pool.owned_def by blast
  ultimately show ?thesis using b b' nth_eq_iff_index_eq by metis
qed

text \<open>
  The runner is shared.  In every interleaving, deletions included, the runner behind a scenario's
  entry, which answers hints and score queries, is the one its run works on.
\<close>

lemma runner_shared:
  assumes "steps (world_step ow) (world_begin cfg) evs W" "w_runs W u = Some (w, l)"
  shows "\<exists>e. fmlookup (scenarios (srv (w_sys W))) u = Some e \<and> scen_runner e = Some (rs_runner (lf_run l))"
  using worlds.steps_inv[OF assms(1) world_ok_begin] assms(2)
  by (fastforce simp: world_ok_def runs_ok_def run_ok_def)


section \<open>Deleting a live fleet\<close>

definition calm_outside :: outer_world where
  "calm_outside = \<lparr>ow_load = sample_load, ow_vm = (\<lambda>_ _ _ _. Ok ''rootfs''), ow_host = (\<lambda>_ _ _. HOk ''''), ow_upper = id\<rparr>"

definition one_job :: "string \<Rightarrow> fleet_job" where
  "one_job u = \<lparr>job_entry = u, job_cfg = DefaultConfig, job_vmIDs = [0]\<rparr>"

text \<open>The first four calls set up the TAP device and the image, make the machine and start it.\<close>

definition booted :: pool where
  "booted = (\<lambda>_. 0)(0 := 4)"

lemma one_calls:
  "fleet_calls calm_outside u (one_job u) 0 = map (\<lambda>c. (c, Ok ''rootfs''))
    [DepEnsureTAP 0, DepPrepareRootFS '''' 0 1024, DepFactory ((ForVM DefaultConfig 0)\<lparr>RootFSPath := ''rootfs''\<rparr>),
     VMStart, VMWait, VMStop, OsRemove ''rootfs'', DepRemoveTAP 0]"
  by (simp add: fleet_calls_def one_job_def calm_outside_def launch_defs run_state_bind run_state_return DefaultConfig_def)

lemma one_size: "fleet_size (one_job u) = 1"
  by (simp add: one_job_def)

lemma create_one_job:
  assumes "\<not> is_used (usedIDs s) 0" "baseCfg s = DefaultConfig"
  shows "\<exists>resp t. createFleet u 0 (Some one_vm) s = (resp, Some (one_job u), t)"
  using allocate_one[OF assms(1)] assms(2)
  by (simp add: createFleet_def one_vm_def one_job_def fleet_config_def Let_def)

definition boot_fleet :: "string \<Rightarrow> world \<Rightarrow> world" where
  "boot_fleet u W = W\<lparr>w_sys := after_start u (after_create u (w_sys W)),
    w_fleets := (w_fleets W)(u \<mapsto> (one_job u, booted))\<rparr>"

lemma fleet_boots:
  assumes "\<not> is_used (usedIDs (srv (w_sys W))) 0" "fresh (w_sys W) u" "baseCfg (srv (w_sys W)) = DefaultConfig"
  shows "steps (gentle_world calm_outside) W
    ([Serve (CreateFleet u 0 one_vm), Serve (StartFleet u)] @ replicate 4 (FleetCall u (Call 0))) (boot_fleet u W)"
proof -
  define at_call where "at_call \<sigma> k = W\<lparr>w_sys := \<sigma>, w_fleets := (w_fleets W)(u \<mapsto> (one_job u, (\<lambda>_. 0)(0 := k)))\<rparr>"
    for \<sigma> and k :: nat
  let ?c = "after_create u (w_sys W)" and ?s = "after_start u (after_create u (w_sys W))"
  have zero: "(\<lambda>_. 0)(0 := 0) = (\<lambda>_::nat. 0::nat)" by auto
  obtain resp t where cr: "createFleet u 0 (Some one_vm) (srv (w_sys W)) = (resp, Some (one_job u), t)"
    using create_one_job[OF assms(1,3)] by blast
  have "world_step calm_outside W (Serve (CreateFleet u 0 one_vm)) (at_call ?c 0)"
    unfolding at_call_def zero by (rule world_create_fleet[OF after_create_one(3)[OF assms(1,2)] cr])
  then have e1: "gentle_world calm_outside W (Serve (CreateFleet u 0 one_vm)) (at_call ?c 0)"
    by (simp add: gentle_world_def deletes_live_def)
  have "fpc ?c u = Some Spawned" using after_create_one(2)[OF assms(1)] by simp
  then have "world_step calm_outside (at_call ?c 0) (Serve (StartFleet u)) ((at_call ?c 0)\<lparr>w_sys := ?s\<rparr>)"
    by (intro world_serve after_steps(1)[of "w_sys (at_call ?c 0)" u, simplified])
       (simp_all add: plain_event_def at_call_def after_steps(1))
  moreover have "(at_call ?c 0)\<lparr>w_sys := ?s\<rparr> = at_call ?s 0" by (cases W) (simp add: at_call_def)
  ultimately have e2: "gentle_world calm_outside (at_call ?c 0) (Serve (StartFleet u)) (at_call ?s 0)"
    by (simp add: gentle_world_def deletes_live_def)
  have la: "fpc ?s u = Some ApiSystem.Launching" by (simp add: after_start_def)
  have step: "gentle_world calm_outside (at_call ?s k) (FleetCall u (Call 0)) (at_call ?s (Suc k))" if "k < 4" for k
  proof -
    have "pool_step (fleet_size (one_job u)) (fleet_calls calm_outside u (one_job u)) c ((\<lambda>_. 0)(0 := k)) (Call 0)
        (((\<lambda>_. 0)(0 := k))(0 := Suc (((\<lambda>_. 0)(0 := k)) 0)))" for c
      unfolding pool_step_simps
      using that by (auto simp: one_calls call_at_def one_size less_Suc_eq numeral_eq_Suc)
    then have "world_step calm_outside (at_call ?s k) (FleetCall u (Call 0)) (at_call ?s (Suc k))"
      using world_fleet_call[of "at_call ?s k" u "one_job u" "(\<lambda>_. 0)(0 := k)" calm_outside "Call 0"
          "(\<lambda>_. 0)(0 := Suc k)"] la by (simp add: at_call_def)
    then show ?thesis by (simp add: gentle_world_def)
  qed
  have "steps (gentle_world calm_outside) (at_call ?s 0) (replicate 4 (FleetCall u (Call 0))) (at_call ?s 4)"
    using step[of 0] step[of 1] step[of 2] step[of 3]
    by (auto simp: numeral_eq_Suc intro!: steps_Cons)
  moreover have "at_call ?s 4 = boot_fleet u W" by (simp add: at_call_def boot_fleet_def booted_def)
  ultimately show ?thesis using e1 e2 by (auto intro!: steps_Cons)
qed

lemma boot_busy:
  "vm_busy calm_outside (boot_fleet u W) (FleetH u) 0 0"
  by (simp add: vm_busy_def boot_fleet_def made_def one_calls booted_def)
     (simp add: one_job_def)

lemma gentle_world_steps: "steps (gentle_world ow) W es W' \<Longrightarrow> steps (world_step ow) W es W'"
  by (induction rule: steps.induct) (auto simp: gentle_world_def)

definition world_A :: world where "world_A = boot_fleet ''A'' (world_begin DefaultConfig)"
definition world_AB :: world where "world_AB = boot_fleet ''B'' (world_A\<lparr>w_sys := sysA2\<rparr>)"

lemma world_A_steps:
  "steps (gentle_world calm_outside) (world_begin DefaultConfig)
    ([Serve (CreateFleet ''A'' 0 one_vm), Serve (StartFleet ''A'')] @ replicate 4 (FleetCall ''A'' (Call 0))) world_A"
  unfolding world_A_def
  by (rule fleet_boots) (simp_all add: world_begin_def is_used_def fresh_def initial_simps, simp add: initial_def NewServer_def)

lemma world_A_sys: "w_sys world_A = sysA1"
  by (simp add: world_A_def boot_fleet_def world_begin_def sysA1_def)

lemma base_kept:
  "baseCfg (srv (after_delete u \<sigma>)) = baseCfg (srv \<sigma>)" "baseCfg (srv (after_start u \<sigma>)) = baseCfg (srv \<sigma>)"
  by (simp_all add: after_delete_def after_start_def deleteFleet_def fleet_started_def Let_def split: option.split)

lemma world_AB_steps:
  "steps (world_step calm_outside) world_A
    ([Serve (DeleteFleet ''A''), Serve (CreateFleet ''B'' 0 one_vm), Serve (StartFleet ''B'')] @
     replicate 4 (FleetCall ''B'' (Call 0))) world_AB"
proof -
  have "sys_step (ow_load calm_outside) (w_sys world_A) (DeleteFleet ''A'') sysA2"
    unfolding world_A_sys sysA2_def by (rule after_steps(3))
  then have del: "world_step calm_outside world_A (Serve (DeleteFleet ''A'')) (world_A\<lparr>w_sys := sysA2\<rparr>)"
    by (intro world_serve) (simp_all add: plain_event_def)
  have "\<not> is_used (usedIDs (srv (initial DefaultConfig))) 0" by (simp add: is_used_def initial_simps)
  note ac = after_create_one(1)[OF this, of "''A''"]
  have "baseCfg (srv sysA2) = DefaultConfig"
    by (simp add: sysA2_def sysA1_def base_kept ac) (simp add: initial_def NewServer_def)
  then have "steps (gentle_world calm_outside) (world_A\<lparr>w_sys := sysA2\<rparr>)
      ([Serve (CreateFleet ''B'' 0 one_vm), Serve (StartFleet ''B'')] @ replicate 4 (FleetCall ''B'' (Call 0))) world_AB"
    unfolding world_AB_def by (intro fleet_boots) (simp_all add: is_used_def fresh_def run_A)
  from steps_Cons[OF del gentle_world_steps[OF this]] show ?thesis by simp
qed

text \<open>
  C7. Deleting a live fleet lets two machines share everything.  There is a run of the server in which
  fleet A has booted a machine, is deleted, and, before its goroutine has stopped that machine, fleet B
  is created and boots a machine with the same identifier, so with the same TAP device, MAC
  address and socket.  Both machines are running; no machine has been stopped.
\<close>

theorem deleted_fleet_shares_machine:
  "\<exists>evs W. steps (world_step calm_outside) (world_begin DefaultConfig) evs W \<and>
    vm_busy calm_outside W (FleetH ''A'') 0 0 \<and> vm_busy calm_outside W (FleetH ''B'') 0 0 \<and>
    list_all (\<lambda>u. \<exists>job pc. w_fleets W u = Some (job, pc) \<and>
      map fst (made (fleet_calls calm_outside u job) pc 0) =
        [DepEnsureTAP 0, DepPrepareRootFS '''' 0 1024, DepFactory ((ForVM DefaultConfig 0)\<lparr>RootFSPath := ''rootfs''\<rparr>),
         VMStart]) [''A'', ''B'']"
proof (intro exI conjI)
  show "steps (world_step calm_outside) (world_begin DefaultConfig)
      (([Serve (CreateFleet ''A'' 0 one_vm), Serve (StartFleet ''A'')] @ replicate 4 (FleetCall ''A'' (Call 0))) @
       [Serve (DeleteFleet ''A''), Serve (CreateFleet ''B'' 0 one_vm), Serve (StartFleet ''B'')] @
       replicate 4 (FleetCall ''B'' (Call 0))) world_AB"
    by (rule steps_append[OF gentle_world_steps[OF world_A_steps] world_AB_steps])
  have fl: "w_fleets world_AB ''A'' = Some (one_job ''A'', booted)" "w_fleets world_AB ''B'' = Some (one_job ''B'', booted)"
    by (simp_all add: world_AB_def world_A_def boot_fleet_def)
  then show "list_all (\<lambda>u. \<exists>job pc. w_fleets world_AB u = Some (job, pc) \<and>
      map fst (made (fleet_calls calm_outside u job) pc 0) =
        [DepEnsureTAP 0, DepPrepareRootFS '''' 0 1024, DepFactory ((ForVM DefaultConfig 0)\<lparr>RootFSPath := ''rootfs''\<rparr>),
         VMStart]) [''A'', ''B'']"
    by (simp add: made_def one_calls booted_def)
  show "vm_busy calm_outside world_AB (FleetH ''A'') 0 0" "vm_busy calm_outside world_AB (FleetH ''B'') 0 0"
    using fl by (simp_all add: vm_busy_def made_def one_calls booted_def, simp_all add: one_job_def)
qed

theorem machines_exclusive_witness:
  "vm_busy calm_outside world_A (FleetH ''A'') 0 0 \<and> 0 \<in> used_set (usedIDs (srv (w_sys world_A)))"
proof -
  have b: "vm_busy calm_outside world_A (FleetH ''A'') 0 0" unfolding world_A_def by (rule boot_busy)
  from b machines_exclusive[OF world_A_steps b b] show ?thesis by blast
qed

end
