(* ===== verification/HostSetup.thy ===== *)
theory HostSetup
  imports Host
begin

text \<open>
  \<open>src/vm/tap.go\<close>, \<open>src/vm/rootfs.go\<close> and \<open>src/vm/cloudinit.go\<close>: the TAP device, the private copy of
  the root image and the cloud-init image of a VM, made by running commands on the host.

  Shown: the hand-written substring search finds exactly the substrings; setting up a TAP device
  runs its commands in order and fails only on an error other than an existing object; preparing
  a root image leaves exactly the copy behind on success and nothing on failure, unless the copy
  itself failed, and no temporary file in any case.
\<close>

section \<open>tap.go\<close>

function containsStr_from :: "nat \<Rightarrow> string \<Rightarrow> string \<Rightarrow> bool" where
  "containsStr_from i s sub =
    (if i + length sub \<le> length s
     then (if take (length sub) (drop i s) = sub then True else containsStr_from (Suc i) s sub)
     else False)"
  by pat_completeness auto
termination containsStr_from
  by (relation "measure (\<lambda>(i, s, sub). Suc (length s) - i)") auto

declare containsStr_from.simps [simp del]

definition containsStr :: "string \<Rightarrow> string \<Rightarrow> bool" where
  "containsStr s sub = containsStr_from 0 s sub"

definition contains :: "string \<Rightarrow> string \<Rightarrow> bool" where
  "contains s sub \<longleftrightarrow>
    length sub \<le> length s \<and> (s = sub \<or> 0 < length s \<and> containsStr s sub)"

definition isAlreadyExists :: "string \<Rightarrow> bool" where
  "isAlreadyExists msg =
    list_ex (contains msg) [''already exists'', ''RTNETLINK answers: File exists'', ''File exists'']"

definition RemoveTAP :: "host_env \<Rightarrow> int \<Rightarrow> unit host_prog" where
  "RemoveTAP e vmID =
    State_Monad.bind (perform e (Exec [''ip'', ''link'', ''del'', ''tap'' @ fmt_d vmID]))
      (\<lambda>_. State_Monad.return ())"

definition tap_cmds :: "int \<Rightarrow> string list list" where
  "tap_cmds vmID =
    (let tap = ''tap'' @ fmt_d vmID; hostIP = ''172.16.'' @ fmt_d vmID @ ''.1/30'' in
     [[''ip'', ''tuntap'', ''add'', tap, ''mode'', ''tap''],
      [''ip'', ''addr'', ''add'', hostIP, ''dev'', tap],
      [''ip'', ''link'', ''set'', tap, ''up''],
      [''sh'', ''-c'', ''echo 1 > /proc/sys/net/ipv4/ip_forward'']])"

text \<open>The result of a step is its error, if any.\<close>

fun run_cmds :: "host_env \<Rightarrow> string list list \<Rightarrow> string option host_prog" where
  "run_cmds e [] = State_Monad.return None"
| "run_cmds e (args # cmds) =
    State_Monad.bind (perform e (Exec args)) (\<lambda>r.
      case r of
        HOk _ \<Rightarrow> run_cmds e cmds
      | HErr err msg \<Rightarrow>
          if isAlreadyExists msg then run_cmds e cmds
          else State_Monad.return
            (Some (''tap setup ['' @ Join args '' '' @ '']: '' @ err @ nl @ msg)))"

definition masquerade :: "string \<Rightarrow> string list" where
  "masquerade action =
    [''iptables'', ''-w'', ''-t'', ''nat'', action, ''POSTROUTING'', ''-j'', ''MASQUERADE'']"

definition ensure_masquerade :: "host_env \<Rightarrow> string option host_prog" where
  "ensure_masquerade e =
    State_Monad.bind (perform e (Exec (masquerade ''-C''))) (\<lambda>r.
      case r of
        HOk _ \<Rightarrow> State_Monad.return None
      | HErr _ _ \<Rightarrow>
          State_Monad.bind (perform e (Exec (masquerade ''-A''))) (\<lambda>r.
            State_Monad.return
              (case r of
                 HOk _ \<Rightarrow> None
               | HErr err out \<Rightarrow> Some (''iptables MASQUERADE: '' @ err @ nl @ out))))"

definition EnsureTAP :: "host_env \<Rightarrow> int \<Rightarrow> string option host_prog" where
  "EnsureTAP e vmID =
    State_Monad.bind (RemoveTAP e vmID) (\<lambda>_.
      State_Monad.bind (run_cmds e (tap_cmds vmID)) (\<lambda>err.
        case err of Some err \<Rightarrow> State_Monad.return (Some err) | None \<Rightarrow> ensure_masquerade e))"


section \<open>rootfs.go\<close>

definition copy_rootfs :: "host_env \<Rightarrow> string \<Rightarrow> string \<Rightarrow> string option host_prog" where
  "copy_rootfs e baseRootFS vmRootFS =
    State_Monad.bind (perform e (Exec [''cp'', ''--reflink=auto'', baseRootFS, vmRootFS])) (\<lambda>r.
      case r of
        HOk _ \<Rightarrow> State_Monad.return None
      | HErr _ _ \<Rightarrow>
          State_Monad.bind (perform e (Exec [''cp'', baseRootFS, vmRootFS])) (\<lambda>r2.
            State_Monad.return
              (case r2 of
                 HOk _ \<Rightarrow> None
               | HErr err2 out2 \<Rightarrow> Some (''failed to copy rootfs: '' @ err2 @ nl @ out2))))"

text \<open>Every failure after the copy removes it.\<close>

definition fail_remove :: "host_env \<Rightarrow> string \<Rightarrow> string \<Rightarrow> (string + string) host_prog" where
  "fail_remove e vmRootFS err =
    State_Monad.bind (perform e (RemoveFile vmRootFS)) (\<lambda>_. State_Monad.return (Inl err))"

definition resize_rootfs :: "host_env \<Rightarrow> string \<Rightarrow> int \<Rightarrow> (string + string) host_prog" where
  "resize_rootfs e vmRootFS sizeMiB =
    (if 0 < sizeMiB then
       State_Monad.bind (perform e (Exec [''truncate'', ''-s'', fmt_d sizeMiB @ ''M'', vmRootFS])) (\<lambda>r.
         case r of
           HErr err out \<Rightarrow> fail_remove e vmRootFS (''truncate failed: '' @ err @ nl @ out)
         | HOk _ \<Rightarrow>
             State_Monad.bind (perform e (Exec [''e2fsck'', ''-f'', ''-y'', vmRootFS])) (\<lambda>_.
               State_Monad.bind (perform e (Exec [''resize2fs'', vmRootFS])) (\<lambda>r.
                 case r of
                   HErr err out \<Rightarrow> fail_remove e vmRootFS (''resize2fs failed: '' @ err @ nl @ out)
                 | HOk _ \<Rightarrow> State_Monad.return (Inr vmRootFS))))
     else State_Monad.return (Inr vmRootFS))"

definition hostname_script :: "string \<Rightarrow> string" where
  "hostname_script tmp =
    ''cd /etc'' @ nl @ ''rm hostname'' @ nl @ ''write '' @ tmp @ '' hostname'' @ nl"

definition run_debugfs :: "host_env \<Rightarrow> string \<Rightarrow> int \<Rightarrow> string \<Rightarrow> (string + string) host_prog" where
  "run_debugfs e vmRootFS sizeMiB script =
    State_Monad.bind (perform e (Exec [''debugfs'', ''-w'', ''-f'', script, vmRootFS])) (\<lambda>r.
      case r of
        HErr err out \<Rightarrow> fail_remove e vmRootFS (''debugfs write failed: '' @ err @ nl @ out)
      | HOk _ \<Rightarrow> resize_rootfs e vmRootFS sizeMiB)"

definition patch_hostname :: "host_env \<Rightarrow> string \<Rightarrow> int \<Rightarrow> string \<Rightarrow> (string + string) host_prog" where
  "patch_hostname e vmRootFS sizeMiB tmp =
    State_Monad.bind (perform e (CreateTemp ''debugfs-script-*'')) (\<lambda>r.
      case r of
        HErr err _ \<Rightarrow> fail_remove e vmRootFS (''failed to create debugfs script: '' @ err)
      | HOk script \<Rightarrow>
          with_defer e (RemoveFile script)
            (State_Monad.bind (perform e (WriteTo script (hostname_script tmp))) (\<lambda>_.
             State_Monad.bind (perform e (CloseFile script)) (\<lambda>_.
               run_debugfs e vmRootFS sizeMiB script))))"

definition write_hostname ::
  "host_env \<Rightarrow> string \<Rightarrow> int \<Rightarrow> int \<Rightarrow> string \<Rightarrow> (string + string) host_prog" where
  "write_hostname e vmRootFS vmID sizeMiB tmp =
    State_Monad.bind (perform e (WriteTo tmp (''vm-'' @ fmt_d vmID @ nl))) (\<lambda>r.
      State_Monad.bind (perform e (CloseFile tmp)) (\<lambda>_.
        case r of
          HErr err _ \<Rightarrow> fail_remove e vmRootFS err
        | HOk _ \<Rightarrow> patch_hostname e vmRootFS sizeMiB tmp))"

definition rootfs_name :: "int \<Rightarrow> string" where
  "rootfs_name vmID = ''vm-'' @ fmt_d vmID @ ''-rootfs.ext4''"

text \<open>The error or the path of the copy.\<close>

definition PrepareRootFS :: "host_env \<Rightarrow> string \<Rightarrow> int \<Rightarrow> int \<Rightarrow> (string + string) host_prog" where
  "PrepareRootFS e baseRootFS vmID sizeMiB =
    (let vmRootFS = rootfs_name vmID in
     State_Monad.bind (copy_rootfs e baseRootFS vmRootFS) (\<lambda>err.
       case err of
         Some err \<Rightarrow> State_Monad.return (Inl err)
       | None \<Rightarrow>
           State_Monad.bind (perform e (CreateTemp ''hostname-*'')) (\<lambda>r.
             case r of
               HErr err _ \<Rightarrow> fail_remove e vmRootFS (''failed to create temp hostname file: '' @ err)
             | HOk tmp \<Rightarrow>
                 with_defer e (RemoveFile tmp) (write_hostname e vmRootFS vmID sizeMiB tmp))))"

fun lastSlash_from :: "string \<Rightarrow> nat \<Rightarrow> nat" where
  "lastSlash_from s 0 = 0"
| "lastSlash_from s (Suc i) = (if s ! i = CHR ''/'' then i else lastSlash_from s i)"

definition lastSlash :: "string \<Rightarrow> nat" where
  "lastSlash s = lastSlash_from s (length s)"

text \<open>Slicing \<open>vmPath\<close> beyond its end panics; the deferred removal still happens.\<close>

datatype write_result = Written | WriteError string | WritePanic

definition write_script :: "string \<Rightarrow> string \<Rightarrow> string \<Rightarrow> string" where
  "write_script dir name tmp =
    ''cd '' @ dir @ nl @ ''rm '' @ name @ nl @ ''write '' @ tmp @ '' '' @ name @ nl"

definition debugfs_write ::
  "host_env \<Rightarrow> string \<Rightarrow> string \<Rightarrow> string \<Rightarrow> string \<Rightarrow> write_result host_prog" where
  "debugfs_write e rootfs dir name tmp =
    State_Monad.bind (perform e (CreateTemp ''debugfs-script-*'')) (\<lambda>r.
      case r of
        HErr err _ \<Rightarrow> State_Monad.return (WriteError (''create debugfs script: '' @ err))
      | HOk script \<Rightarrow>
          with_defer e (RemoveFile script)
            (State_Monad.bind (perform e (WriteTo script (write_script dir name tmp))) (\<lambda>_.
             State_Monad.bind (perform e (CloseFile script)) (\<lambda>_.
             State_Monad.bind (perform e (Exec [''debugfs'', ''-w'', ''-f'', script, rootfs])) (\<lambda>r.
               State_Monad.return
                 (case r of
                    HErr err out \<Rightarrow> WriteError (''debugfs write failed: '' @ err @ nl @ out)
                  | HOk _ \<Rightarrow> Written))))))"

definition write_content ::
  "host_env \<Rightarrow> string \<Rightarrow> string \<Rightarrow> string \<Rightarrow> string \<Rightarrow> write_result host_prog" where
  "write_content e rootfs vmPath content tmp =
    State_Monad.bind (perform e (WriteTo tmp content)) (\<lambda>r.
      State_Monad.bind (perform e (CloseFile tmp)) (\<lambda>_.
        case r of
          HErr err _ \<Rightarrow> State_Monad.return (WriteError err)
        | HOk _ \<Rightarrow>
            if length vmPath < lastSlash vmPath + 1 then State_Monad.return WritePanic
            else debugfs_write e rootfs (take (lastSlash vmPath) vmPath)
                   (drop (lastSlash vmPath + 1) vmPath) tmp))"

definition WriteToRootFS :: "host_env \<Rightarrow> string \<Rightarrow> string \<Rightarrow> string \<Rightarrow> write_result host_prog" where
  "WriteToRootFS e rootfs vmPath content =
    State_Monad.bind (perform e (CreateTemp ''debugfs-content-*'')) (\<lambda>r.
      case r of
        HErr err _ \<Rightarrow> State_Monad.return (WriteError (''create temp: '' @ err))
      | HOk tmp \<Rightarrow> with_defer e (RemoveFile tmp) (write_content e rootfs vmPath content tmp))"


section \<open>cloudinit.go\<close>

definition EnsureCloudInitISO ::
  "host_env \<Rightarrow> string \<Rightarrow> string \<Rightarrow> string \<Rightarrow> string option host_prog" where
  "EnsureCloudInitISO e dstPath srcConfig hostname =
    State_Monad.bind (perform e (StatFile dstPath)) (\<lambda>r.
      case r of
        HOk _ \<Rightarrow> State_Monad.return None
      | HErr _ _ \<Rightarrow>
          State_Monad.bind
            (perform e (Exec [''bash'', ''make-cloud-init-iso.sh'', dstPath, srcConfig, hostname])) (\<lambda>r.
              State_Monad.return
                (case r of
                   HOk _ \<Rightarrow> None
                 | HErr err out \<Rightarrow>
                     Some (''generate cloud-init ISO '' @ dstPath @ '': '' @ err @ nl @ out))))"

section \<open>The substring search\<close>

lemma containsStr_from_iff:
  "containsStr_from i s sub \<longleftrightarrow> (\<exists>j\<ge>i. j + length sub \<le> length s \<and> take (length sub) (drop j s) = sub)"
proof (induction i s sub rule: containsStr_from.induct)
  case (1 i s sub)
  let ?hit = "\<lambda>j. j + length sub \<le> length s \<and> take (length sub) (drop j s) = sub"
  have step: "(\<exists>j\<ge>i. ?hit j) \<longleftrightarrow> ?hit i \<or> (\<exists>j\<ge>Suc i. ?hit j)"
    by (metis Suc_leD le_eq_less_or_eq less_eq_Suc_le)
  have none: "\<not> (\<exists>j\<ge>i. ?hit j)" if "\<not> i + length sub \<le> length s" using that by auto
  show ?case using 1 step none by (subst containsStr_from.simps) auto
qed

lemma sublist_iff_window:
  "sublist sub s \<longleftrightarrow> (\<exists>j. j + length sub \<le> length s \<and> take (length sub) (drop j s) = sub)"
proof
  assume "sublist sub s"
  then obtain ps ss where "s = ps @ sub @ ss" by (auto simp: sublist_def)
  then show "\<exists>j. j + length sub \<le> length s \<and> take (length sub) (drop j s) = sub"
    by (intro exI[of _ "length ps"]) simp
next
  assume "\<exists>j. j + length sub \<le> length s \<and> take (length sub) (drop j s) = sub"
  then show "sublist sub s" by (metis sublist_take sublist_drop sublist_order.order.trans)
qed

lemma contains_sublist: "contains s sub \<longleftrightarrow> sublist sub s"
proof -
  have "containsStr s sub \<longleftrightarrow> sublist sub s"
    by (simp add: containsStr_def containsStr_from_iff sublist_iff_window)
  moreover have "sublist sub s \<Longrightarrow> length sub \<le> length s" by (rule sublist_length_le)
  ultimately show ?thesis by (cases s) (auto simp: contains_def)
qed

text \<open>
  Substring search.  The hand-written \<open>contains\<close> finds exactly the substrings: the loop
  terminates and agrees with the specification on all inputs, the empty ones included.
\<close>

theorem contains_iff_sublist: "contains s sub \<longleftrightarrow> sublist sub s"
  by (rule contains_sublist)

text \<open>The middle pattern of \<open>isAlreadyExists\<close> is subsumed by the last.\<close>

lemma isAlreadyExists_iff:
  "isAlreadyExists msg \<longleftrightarrow> sublist ''already exists'' msg \<or> sublist ''File exists'' msg"
proof -
  have "sublist ''File exists'' ''RTNETLINK answers: File exists''"
    unfolding sublist_def by (rule exI[of _ "''RTNETLINK answers: ''"], rule exI[of _ "[]"]) simp
  then show ?thesis
    by (auto simp: isAlreadyExists_def contains_sublist intro: sublist_order.order.trans)
qed


section \<open>Setting up a TAP device\<close>

definition tolerated :: "host_reply \<Rightarrow> bool" where
  "tolerated r = (case r of HOk _ \<Rightarrow> True | HErr _ out \<Rightarrow> isAlreadyExists out)"

lemma run_cmds_trace:
  assumes "run_state (run_cmds e cmds) tr = (res, tr')"
  shows "\<exists>evs. tr' = tr @ evs \<and> prefix (map fst evs) (map Exec cmds) \<and>
    (case res of
       None \<Rightarrow> map fst evs = map Exec cmds \<and> list_all (tolerated \<circ> snd) evs
     | Some err \<Rightarrow> evs \<noteq> [] \<and> list_all (tolerated \<circ> snd) (butlast evs) \<and> \<not> tolerated (snd (last evs)))"
  using assms
proof (induction cmds arbitrary: tr)
  case Nil
  then show ?case by (auto simp: run_state_return)
next
  case (Cons args cmds)
  let ?ev = "(Exec args, e tr (Exec args))"
  show ?case
  proof (cases "tolerated (snd ?ev)")
    case True
    then have "run_state (run_cmds e cmds) (tr @ [?ev]) = (res, tr')"
      using Cons.prems by (auto simp: run_state_bind tolerated_def split: host_reply.splits)
    from Cons.IH[OF this] obtain evs where "tr' = tr @ ?ev # evs"
      "prefix (map fst evs) (map Exec cmds)"
      "case res of None \<Rightarrow> map fst evs = map Exec cmds \<and> list_all (tolerated \<circ> snd) evs
       | Some err \<Rightarrow> evs \<noteq> [] \<and> list_all (tolerated \<circ> snd) (butlast evs) \<and> \<not> tolerated (snd (last evs))"
      by auto
    with True show ?thesis by (intro exI[of _ "?ev # evs"]) (auto split: option.splits)
  next
    case False
    then have "res \<noteq> None" "tr' = tr @ [?ev]"
      using Cons.prems by (auto simp: run_state_bind run_state_return tolerated_def split: host_reply.splits)
    with False show ?thesis by (intro exI[of _ "[?ev]"]) auto
  qed
qed

text \<open>
  C30. Setting up a TAP device.  A stale device is deleted first; then the setup commands run in
  order up to the first failure.  The setup succeeds only if every command succeeded or found its
  object in place, and the masquerading rule was found or added; it fails only if the last
  command it ran failed for another reason.
\<close>

theorem EnsureTAP_outcome:
  "let (res, tr) = run_state (EnsureTAP e vmID) [];
       del = Exec [''ip'', ''link'', ''del'', ''tap'' @ fmt_d vmID];
       check = Exec (masquerade ''-C''); add = Exec (masquerade ''-A'');
       setup = map Exec (tap_cmds vmID)
   in case res of
        None \<Rightarrow> list_all (tolerated \<circ> snd) (take 4 (tl tr)) \<and>
          (map fst tr = del # setup @ [check] \<or> map fst tr = del # setup @ [check, add]) \<and>
          (\<exists>out. snd (last tr) = HOk out)
      | Some err \<Rightarrow> prefix (map fst tr) (del # setup @ [check, add]) \<and>
          (\<exists>why out. snd (last tr) = HErr why out \<and>
             (fst (last tr) \<noteq> add \<longrightarrow> \<not> sublist ''already exists'' out \<and> \<not> sublist ''File exists'' out))"
proof -
  let ?d = "Exec [''ip'', ''link'', ''del'', ''tap'' @ fmt_d vmID]"
  let ?tr = "[(?d, e [] ?d)]"
  obtain res tr where run: "run_state (run_cmds e (tap_cmds vmID)) ?tr = (res, tr)" by fastforce
  from run_cmds_trace[OF run] obtain evs where evs: "tr = ?tr @ evs"
    "prefix (map fst evs) (map Exec (tap_cmds vmID))"
    "case res of None \<Rightarrow> map fst evs = map Exec (tap_cmds vmID) \<and> list_all (tolerated \<circ> snd) evs
     | Some err \<Rightarrow> evs \<noteq> [] \<and> list_all (tolerated \<circ> snd) (butlast evs) \<and> \<not> tolerated (snd (last evs))"
    by blast
  show ?thesis
  proof (cases res)
    case None
    then have len: "length evs = 4" and fst: "map fst evs = map Exec (tap_cmds vmID)"
      using evs(3) map_eq_imp_length_eq[of fst evs Exec "tap_cmds vmID"]
      by (auto simp: tap_cmds_def Let_def)
    with None evs run show ?thesis
      by (auto simp: EnsureTAP_def RemoveTAP_def ensure_masquerade_def run_state_bind run_state_return
          split: host_reply.splits)
  next
    case (Some err)
    moreover from this evs have "prefix (map fst evs) (map Exec (tap_cmds vmID) @ [Exec (masquerade ''-C''), Exec (masquerade ''-A'')])"
      by (auto intro: prefix_order.trans)
    moreover obtain why out where "snd (last evs) = HErr why out" "\<not> isAlreadyExists out"
      using Some evs(3) by (cases "snd (last evs)") (auto simp: tolerated_def)
    ultimately show ?thesis using evs run
      by (auto simp: EnsureTAP_def RemoveTAP_def run_state_bind run_state_return isAlreadyExists_iff)
  qed
qed

definition denied :: host_env where
  "denied tr c = (if length tr < 3 then HOk '''' else HErr ''exit status 2'' ''Operation not permitted'')"

theorem EnsureTAP_outcome_witness:
  "let (res, tr) = run_state (EnsureTAP denied 7) [] in
   res \<noteq> None \<and> length tr = 4 \<and> fst (last tr) \<noteq> Exec (masquerade ''-A'') \<and>
   (\<exists>why out. snd (last tr) = HErr why out \<and> \<not> sublist ''already exists'' out)"
proof -
  obtain res tr where run: "run_state (EnsureTAP denied 7) [] = (res, tr)" by fastforce
  have ex: "isAlreadyExists ''Operation not permitted'' = False"
    by (simp add: isAlreadyExists_def contains_def containsStr_def containsStr_from.simps)
  have "res \<noteq> None \<and> length tr = 4 \<and> fst (last tr) \<noteq> Exec (masquerade ''-A'')"
    using run ex by (auto simp: EnsureTAP_def RemoveTAP_def run_state_bind run_state_return
        denied_def tap_cmds_def Let_def masquerade_def)
  with run EnsureTAP_outcome[of denied 7] show ?thesis by (auto simp: Let_def)
qed


section \<open>Preparing a root image\<close>

text \<open>The plain copy, tried when the first one fails, has failed too.\<close>

definition copy_failed :: "string \<Rightarrow> (host_call, host_reply) trace \<Rightarrow> bool" where
  "copy_failed p tr \<longleftrightarrow> (\<exists>base x out. (Exec [''cp'', base, p], HErr x out) \<in> set tr)"

lemma held_copy:
  assumes "run_state (copy_rootfs e base vmRootFS) tr = (res, tr')"
  shows "held tr' = insert (HostFile vmRootFS) (held tr) \<and> (res \<noteq> None \<longrightarrow> copy_failed vmRootFS tr')"
  using assms
  by (fastforce simp: copy_rootfs_def copy_failed_def run_state_bind run_state_return made_by_command_def
      split: host_reply.splits)

text \<open>A step of the preparation keeps what is held; when it fails, it has removed the copy.\<close>

definition kept_or_removed ::
  "string \<Rightarrow> resource set \<Rightarrow> (string + string) \<times> (host_call, host_reply) trace \<Rightarrow> bool" where
  "kept_or_removed p S out =
    (case out of
       (Inl err, tr) \<Rightarrow> held tr = S - {HostFile p}
     | (Inr q, tr) \<Rightarrow> q = p \<and> held tr = S)"

definition keeps_or_removes :: "string \<Rightarrow> (string + string) host_prog \<Rightarrow> bool" where
  "keeps_or_removes p prog \<longleftrightarrow> (\<forall>tr. kept_or_removed p (held tr) (run_state prog tr))"

lemma kr_fail: "keeps_or_removes p (fail_remove e p err)"
  by (auto simp: keeps_or_removes_def kept_or_removed_def fail_remove_def run_state_bind
      run_state_return)

lemma kr_return: "keeps_or_removes p (State_Monad.return (Inr p))"
  by (simp add: keeps_or_removes_def kept_or_removed_def run_state_return)

lemma kr_perform:
  assumes "\<And>r S. held_step (c, r) S = S" and "\<And>r. keeps_or_removes p (f r)"
  shows "keeps_or_removes p (State_Monad.bind (perform e c) f)"
  unfolding keeps_or_removes_def
proof
  fix tr
  have "kept_or_removed p (held (tr @ [(c, e tr c)])) (run_state (f (e tr c)) (tr @ [(c, e tr c)]))"
    using assms(2)[of "e tr c"] unfolding keeps_or_removes_def by blast
  then show "kept_or_removed p (held tr) (run_state (State_Monad.bind (perform e c) f) tr)"
    by (simp add: run_state_bind assms(1))
qed

lemma held_step_plain:
  "held_step (Exec [''truncate'', a, b, c], r) S = S"
  "held_step (Exec [''e2fsck'', a, b, c], r) S = S"
  "held_step (Exec [''resize2fs'', a], r) S = S"
  "held_step (Exec [''debugfs'', a, b, c, d], r) S = S"
  by (simp_all add: made_by_command_def)

lemma kr_resize: "keeps_or_removes p (resize_rootfs e p n)"
  unfolding resize_rootfs_def
  by (auto intro!: kr_perform kr_fail kr_return simp: held_step_plain simp del: held_step_simps(1) split: host_reply.splits)

lemma kr_run: "keeps_or_removes p prog \<Longrightarrow> held tr = S \<Longrightarrow> kept_or_removed p S (run_state prog tr)"
  by (auto simp: keeps_or_removes_def)

text \<open>
  The result of a program that makes temporary files: what it held before, less its own temporary
  files.
\<close>

definition temps :: "host_env \<Rightarrow> resource set" where
  "temps e = {x. \<exists>t pat tr. e tr (CreateTemp pat) = HOk t \<and> (x = HostFile t \<or> x = Handle t)}"

definition drops_temps :: "host_env \<Rightarrow> string \<Rightarrow> resource set \<Rightarrow>
    (string + string) \<times> (host_call, host_reply) trace \<Rightarrow> bool" where
  "drops_temps e p S out \<longleftrightarrow> (\<exists>T\<subseteq>temps e. kept_or_removed p (S - T) out)"

lemma kept_drops: "kept_or_removed p S out \<Longrightarrow> drops_temps e p S out"
  unfolding drops_temps_def by (rule exI[of _ "{}"]) simp

text \<open>Make a temporary file, write and close it, go on, remove it.\<close>

lemma drops_with_temp:
  assumes t: "e tr (CreateTemp pat) = HOk t" and f: "\<And>r tr. drops_temps e p (held tr) (run_state (f r) tr)"
  shows "drops_temps e p (held tr)
    (run_state (with_defer e (RemoveFile t) (State_Monad.bind (perform e (WriteTo t s)) (\<lambda>r.
       State_Monad.bind (perform e (CloseFile t)) (\<lambda>_. f r)))) (tr @ [(CreateTemp pat, HOk t)]))"
proof -
  let ?tr0 = "tr @ [(CreateTemp pat, HOk t)]"
  let ?w = "e ?tr0 (WriteTo t s)"
  let ?tr1 = "?tr0 @ [(WriteTo t s, ?w)]"
  let ?tr = "?tr1 @ [(CloseFile t, e ?tr1 (CloseFile t))]"
  have h: "held ?tr = insert (HostFile t) (held tr) - {Handle t}"
    by auto
  obtain T where T: "T \<subseteq> temps e" "kept_or_removed p (held ?tr - T) (run_state (f ?w) ?tr)"
    using f[of ?tr ?w] by (auto simp: drops_temps_def)
  obtain res tr' where run: "run_state (f ?w) ?tr = (res, tr')" by fastforce
  have "kept_or_removed p (held tr - (T \<union> {HostFile t, Handle t}))
      (res, tr' @ [(RemoveFile t, e tr' (RemoveFile t))])"
    using T(2) unfolding run h
    by (auto simp: kept_or_removed_def split: sum.splits)
  moreover have "T \<union> {HostFile t, Handle t} \<subseteq> temps e" using T(1) t by (auto simp: temps_def)
  ultimately have "drops_temps e p (held tr) (res, tr' @ [(RemoveFile t, e tr' (RemoveFile t))])"
    unfolding drops_temps_def by blast
  then show ?thesis using run by (simp add: with_defer_def run_state_bind run_state_return)
qed

lemma drops_patch: "drops_temps e p (held tr) (run_state (patch_hostname e p n tmp) tr)"
proof (cases "e tr (CreateTemp ''debugfs-script-*'')")
  case (HErr err out)
  then show ?thesis
    using kr_run[OF kr_fail, of "tr @ [(CreateTemp ''debugfs-script-*'', HErr err out)]" "held tr"]
    by (auto simp: patch_hostname_def run_state_bind intro: kept_drops)
next
  case (HOk t)
  have "keeps_or_removes p (run_debugfs e p n t)" unfolding run_debugfs_def
    by (auto intro!: kr_perform kr_fail kr_resize simp: held_step_plain simp del: held_step_simps(1) split: host_reply.splits)
  then have "drops_temps e p (held tr) (run_state (run_debugfs e p n t) tr)" for tr
    by (auto intro: kept_drops kr_run)
  from drops_with_temp[of e tr "''debugfs-script-*''" t p "\<lambda>_. run_debugfs e p n t", OF HOk this] HOk show ?thesis
    by (simp add: patch_hostname_def run_state_bind)
qed

lemma drops_prepare:
  assumes "run_state (copy_rootfs e base (rootfs_name vmID)) tr = (None, tr1)"
  shows "drops_temps e (rootfs_name vmID) (insert (HostFile (rootfs_name vmID)) (held tr))
    (run_state (PrepareRootFS e base vmID n) tr)"
proof -
  let ?p = "rootfs_name vmID" and ?pat = "''hostname-*''"
  have h: "held tr1 = insert (HostFile ?p) (held tr)" using held_copy[OF assms] by simp
  show ?thesis
  proof (cases "e tr1 (CreateTemp ?pat)")
    case (HErr err out)
    then show ?thesis
      using assms h kr_run[OF kr_fail, of "tr1 @ [(CreateTemp ?pat, HErr err out)]" "held tr1"]
      by (auto simp: PrepareRootFS_def Let_def run_state_bind intro: kept_drops)
  next
    case (HOk t)
    let ?f = "\<lambda>r. case r of HErr err _ \<Rightarrow> fail_remove e ?p err | HOk _ \<Rightarrow> patch_hostname e ?p n t"
    have "drops_temps e ?p (held tr) (run_state (?f r) tr)" for r tr
      by (cases r) (auto intro: kept_drops kr_run[OF kr_fail] drops_patch)
    from drops_with_temp[of e tr1 ?pat t ?p ?f, OF HOk this] HOk assms h show ?thesis
      by (simp add: PrepareRootFS_def Let_def run_state_bind write_hostname_def)
  qed
qed

text \<open>What is held afterwards, for the programs that use a root image.\<close>

lemma PrepareRootFS_held:
  assumes "run_state (PrepareRootFS e base vmID n) tr = (res, tr')"
  shows "case res of
      Inl err \<Rightarrow> held tr' \<subseteq> held tr \<or>
        copy_failed (rootfs_name vmID) tr' \<and> held tr' \<subseteq> insert (HostFile (rootfs_name vmID)) (held tr)
    | Inr q \<Rightarrow> q = rootfs_name vmID \<and> held tr' \<subseteq> insert (HostFile q) (held tr) \<and>
        (HostFile q \<notin> temps e \<longrightarrow> HostFile q \<in> held tr')"
proof -
  obtain err tr1 where c: "run_state (copy_rootfs e base (rootfs_name vmID)) tr = (err, tr1)" by fastforce
  show ?thesis
  proof (cases err)
    case None
    from drops_prepare[OF c[unfolded None], of n] assms show ?thesis
      by (auto simp: drops_temps_def kept_or_removed_def split: sum.splits)
  next
    case (Some x)
    then show ?thesis using assms c held_copy[OF c]
      by (auto simp: PrepareRootFS_def Let_def run_state_bind run_state_return)
  qed
qed

text \<open>
  C24. Preparing a root image, whatever the commands answer.  On success the copy is left under
  the VM's own name, and nothing else.  On a failure after the copy nothing the preparation made is
  left, neither the copy nor a temporary or open file.  Only when both attempts to copy failed may a
  part of the copy stay: nothing removes it.  In every case a file whose removal the host refuses
  stays.  (The names of temporary files contain a slash, the name of the copy does not.)
\<close>

theorem PrepareRootFS_leaves:
  assumes "\<And>tr pat t. e tr (CreateTemp pat) = HOk t \<Longrightarrow> CHR ''/'' \<in> set t"
  shows "let copy = ''vm-'' @ fmt_d vmID @ ''-rootfs.ext4'' in
    case run_state (PrepareRootFS e base vmID n) [] of
      (Inl err, tr) \<Rightarrow> remains tr \<subseteq> refused tr \<or>
        (\<exists>from x out. (Exec [''cp'', from, copy], HErr x out) \<in> set tr) \<and>
        remains tr \<subseteq> insert (HostFile copy) (refused tr)
    | (Inr q, tr) \<Rightarrow> q = copy \<and> HostFile copy \<in> remains tr \<and>
        remains tr \<subseteq> insert (HostFile copy) (refused tr)"
proof -
  obtain res tr where run: "run_state (PrepareRootFS e base vmID n) [] = (res, tr)" by fastforce
  have "CHR ''/'' \<notin> set (rootfs_name vmID)"
    using show_dec_digits[of "CHR ''/''"] by (auto simp: rootfs_name_def fmt_d_def is_digit_def)
  with assms have "HostFile (rootfs_name vmID) \<notin> temps e" by (auto simp: temps_def)
  with PrepareRootFS_held[OF run] run remains_bounds[of tr] show ?thesis
    unfolding copy_failed_def by (cases res) (auto simp: rootfs_name_def Let_def)
qed

text \<open>A full disk: both attempts to copy fail, the preparation ends there, and the part stays.\<close>

definition full_host :: host_env where
  "full_host tr c = (case c of Exec args \<Rightarrow> HErr ''exit status 1'' ''No space left on device'' | _ \<Rightarrow> HOk ''/tmp/x'')"

lemma partial_copy_stays:
  "\<exists>tr. run_state (PrepareRootFS full_host base vmID n) [] =
      (Inl (''failed to copy rootfs: '' @ ''exit status 1'' @ nl @ ''No space left on device''), tr) \<and>
    remains tr = {HostFile (rootfs_name vmID)} \<and> refused tr = {}"
  by (simp add: PrepareRootFS_def copy_rootfs_def Let_def run_state_bind run_state_return full_host_def
      remains_def remains_step_def refused_def refused_step_def made_by_command_def)

definition quiet_host :: host_env where
  "quiet_host tr c = (case c of CreateTemp pat \<Rightarrow> HOk (''/tmp/'' @ pat) | _ \<Rightarrow> HOk '''')"

theorem PrepareRootFS_leaves_witness:
  "case run_state (PrepareRootFS quiet_host ''base.ext4'' 3 2048) [] of
     (Inl err, tr) \<Rightarrow> False
   | (Inr q, tr) \<Rightarrow> q = ''vm-3-rootfs.ext4'' \<and> remains tr = {HostFile q} \<and> length tr = 13"
proof -
  let ?p = "PrepareRootFS quiet_host ''base.ext4'' 3 2048"
  have run: "\<exists>q tr. run_state ?p [] = (Inr q, tr) \<and> length tr = 13 \<and> refused tr = {}"
    by (simp add: PrepareRootFS_def copy_rootfs_def write_hostname_def patch_hostname_def
        run_debugfs_def resize_rootfs_def with_defer_def run_state_bind run_state_return
        quiet_host_def Let_def refused_def refused_step_def)
  have three: "fmt_d 3 = ''3''" by (simp add: fmt_d_def show_base.simps digit_table_def)
  have "let copy = ''vm-'' @ fmt_d 3 @ ''-rootfs.ext4'' in
    case run_state ?p [] of
      (Inl err, tr) \<Rightarrow> remains tr \<subseteq> refused tr \<or>
        (\<exists>from x out. (Exec [''cp'', from, copy], HErr x out) \<in> set tr) \<and>
        remains tr \<subseteq> insert (HostFile copy) (refused tr)
    | (Inr q, tr) \<Rightarrow> q = copy \<and> HostFile copy \<in> remains tr \<and>
        remains tr \<subseteq> insert (HostFile copy) (refused tr)"
    by (rule PrepareRootFS_leaves) (auto simp: quiet_host_def)
  with run three show ?thesis by (auto simp: Let_def)
qed


section \<open>Writing into a root image\<close>

lemma lastSlash_from_append:
  assumes "CHR ''/'' \<notin> set name" "i \<le> length name"
  shows "lastSlash_from (dir @ CHR ''/'' # name) (Suc (length dir) + i) = length dir"
  using assms(2)
proof (induction i)
  case (Suc i)
  then have "name ! i \<in> set name" by (intro nth_mem) simp
  then have "name ! i \<noteq> CHR ''/''" using assms(1) by metis
  then have "(dir @ CHR ''/'' # name) ! (Suc (length dir) + i) \<noteq> CHR ''/''"
    by (simp add: nth_append)
  with Suc show ?case by simp
qed simp

lemma lastSlash_split:
  "CHR ''/'' \<notin> set name \<Longrightarrow> lastSlash (dir @ CHR ''/'' # name) = length dir"
  using lastSlash_from_append[of name "length name" dir] by (simp add: lastSlash_def)

lemma debugfs_write_run:
  assumes "run_state (debugfs_write e rootfs dir name tmp) tr = (res, tr')"
  shows "res \<noteq> WritePanic \<and> held tr' \<subseteq> held tr \<and>
    (res = Written \<longrightarrow> (\<exists>script. map fst tr' = map fst tr @
      [CreateTemp ''debugfs-script-*'', WriteTo script (write_script dir name tmp),
       CloseFile script, Exec [''debugfs'', ''-w'', ''-f'', script, rootfs], RemoveFile script]))"
proof (cases "e tr (CreateTemp ''debugfs-script-*'')")
  case (HErr err out)
  then show ?thesis using assms
    by (auto simp: debugfs_write_def run_state_bind run_state_return)
next
  case (HOk script)
  let ?S = "insert (HostFile script) (insert (Handle script) (held tr)) - {Handle script} - {HostFile script}"
  from assms HOk obtain r where res: "res = (case r of HErr err out \<Rightarrow>
      WriteError (''debugfs write failed: '' @ err @ nl @ out) | HOk _ \<Rightarrow> Written)"
    and tr': "\<exists>a b c. tr' = tr @ [(CreateTemp ''debugfs-script-*'', HOk script),
      (WriteTo script (write_script dir name tmp), a), (CloseFile script, b),
      (Exec [''debugfs'', ''-w'', ''-f'', script, rootfs], r), (RemoveFile script, c)]"
    by (auto simp: debugfs_write_def run_with_defer run_state_bind run_state_return)
  from tr' have "held tr' = ?S"
    by (elim exE) (auto simp: made_by_command_def)
  with res tr' show ?thesis by (auto split: host_reply.splits)
qed

lemma write_content_held:
  "held (snd (run_state (write_content e rootfs p content t) tr)) \<subseteq> held tr - {Handle t}"
proof -
  let ?tr1 = "tr @ [(WriteTo t content, e tr (WriteTo t content))]"
  let ?tr2 = "?tr1 @ [(CloseFile t, e ?tr1 (CloseFile t))]"
  have h: "held ?tr2 = held tr - {Handle t}"
    by simp
  have d: "held (snd (run_state (debugfs_write e rootfs d n t) ?tr2)) \<subseteq> held ?tr2" for d n
    using debugfs_write_run[of e rootfs d n t ?tr2] by (metis prod.collapse)
  show ?thesis unfolding h[symmetric] using d
    by (cases "e tr (WriteTo t content)")
       (simp_all add: write_content_def run_state_bind run_state_return del: held_append)
qed

lemma WriteToRootFS_held: "held (snd (run_state (WriteToRootFS e rootfs p content) tr)) \<subseteq> held tr"
proof (cases "e tr (CreateTemp ''debugfs-content-*'')")
  case (HErr err out)
  then show ?thesis by (simp add: WriteToRootFS_def run_state_bind run_state_return)
next
  case (HOk t)
  let ?tr0 = "tr @ [(CreateTemp ''debugfs-content-*'', HOk t)]"
  have "held ?tr0 = insert (HostFile t) (insert (Handle t) (held tr))" by simp
  with write_content_held[of e rootfs p content t ?tr0] HOk show ?thesis
    by (auto simp: WriteToRootFS_def run_with_defer run_state_bind)
qed

text \<open>
  Writing a file into a root image.  For a path with a directory part the write never panics
  and asks for the removal of every temporary file it made, whatever fails; if it succeeds, it has replaced exactly
  the named file in the named directory by the content given.
\<close>

theorem WriteToRootFS_spec:
  assumes "CHR ''/'' \<notin> set name"
  shows "case run_state (WriteToRootFS e rootfs (dir @ CHR ''/'' # name) content) [] of (res, tr) \<Rightarrow>
    res \<noteq> WritePanic \<and> held tr = {} \<and>
    (res = Written \<longrightarrow> (\<exists>tmp script. map fst tr =
      [CreateTemp ''debugfs-content-*'', WriteTo tmp content, CloseFile tmp,
       CreateTemp ''debugfs-script-*'',
       WriteTo script (''cd '' @ dir @ nl @ ''rm '' @ name @ nl @ ''write '' @ tmp @ '' '' @ name @ nl),
       CloseFile script, Exec [''debugfs'', ''-w'', ''-f'', script, rootfs],
       RemoveFile script, RemoveFile tmp]))"
proof -
  let ?p = "dir @ CHR ''/'' # name" and ?ct = "CreateTemp ''debugfs-content-*''"
  note defs = WriteToRootFS_def write_content_def lastSlash_split[OF assms] run_with_defer run_state_bind run_state_return
  show ?thesis unfolding write_script_def[symmetric]
  proof (cases "e [] ?ct")
    case (HErr err out)
    then show "case run_state (WriteToRootFS e rootfs ?p content) [] of (res, tr) \<Rightarrow>
        res \<noteq> WritePanic \<and> held tr = {} \<and> (res = Written \<longrightarrow> (\<exists>tmp script. map fst tr =
          [?ct, WriteTo tmp content, CloseFile tmp, CreateTemp ''debugfs-script-*'',
           WriteTo script (write_script dir name tmp), CloseFile script,
           Exec [''debugfs'', ''-w'', ''-f'', script, rootfs], RemoveFile script, RemoveFile tmp]))"
      by (simp add: defs held_def)
  next
    case (HOk tmp)
    let ?w = "e [(?ct, HOk tmp)] (WriteTo tmp content)"
    let ?tr1 = "[(?ct, HOk tmp), (WriteTo tmp content, ?w)]"
    let ?tr = "?tr1 @ [(CloseFile tmp, e ?tr1 (CloseFile tmp))]"
    obtain res tr' where run: "run_state (debugfs_write e rootfs dir name tmp) ?tr = (res, tr')" by fastforce
    have h: "held ?tr = {HostFile tmp}" by (auto simp: held_def)
    have rm: "held (x @ [(RemoveFile tmp, r)]) = held x - {HostFile tmp}" for x r
      by simp
    show "case run_state (WriteToRootFS e rootfs ?p content) [] of (res, tr) \<Rightarrow>
        res \<noteq> WritePanic \<and> held tr = {} \<and> (res = Written \<longrightarrow> (\<exists>tmp script. map fst tr =
          [?ct, WriteTo tmp content, CloseFile tmp, CreateTemp ''debugfs-script-*'',
           WriteTo script (write_script dir name tmp), CloseFile script,
           Exec [''debugfs'', ''-w'', ''-f'', script, rootfs], RemoveFile script, RemoveFile tmp]))"
    proof (cases ?w)
      case (HErr err out)
      with HOk h rm[of ?tr] show ?thesis by (simp add: defs)
    next
      case ok: (HOk u)
      have "run_state (WriteToRootFS e rootfs ?p content) [] = (res, tr' @ [(RemoveFile tmp, e tr' (RemoveFile tmp))])"
        using HOk ok run by (simp add: defs)
      with debugfs_write_run[OF run] h rm[of tr'] show ?thesis by auto
    qed
  qed
qed

theorem WriteToRootFS_spec_witness:
  "case run_state (WriteToRootFS quiet_host ''r'' ''/etc/motd'' ''hello'') [] of (res, tr) \<Rightarrow>
    res = Written \<and> held tr = {} \<and> length tr = 9"
proof -
  have "res = Written" if "run_state (WriteToRootFS quiet_host ''r'' ''/etc/motd'' ''hello'') [] = (res, tr)" for res tr
    using that by (simp add: WriteToRootFS_def write_content_def lastSlash_def debugfs_write_def with_defer_def
        run_state_bind run_state_return quiet_host_def)
  with WriteToRootFS_spec[where name = "''motd''" and e = quiet_host and rootfs = "''r''" and
    dir = "''/etc''" and content = "''hello''"] show ?thesis
    by (auto dest: arg_cong[of _ _ length])
qed

end
