(* ===== verification/Machine.thy ===== *)
theory Machine
  imports HostSetup
begin

text \<open>
  \<open>src/vm/machine.go\<close>: making, starting, awaiting and stopping one microVM.  The Firecracker SDK
  and \<open>logrus\<close> are outside: their calls are part of the host environment, and what \<open>New\<close> computes
  with them (the drive list the builder makes for a root image, the parsed log level) is a
  parameter, as are the process environment and \<open>exec.LookPath\<close>.

  Shown: the machine is configured with the VM's own kernel, drives and network interface; the
  log file and the machine are closed by \<open>Stop\<close>, and already by \<open>New\<close> if it fails; the log file
  itself stays.
\<close>

record sdk =
  sdk_getenv :: "string \<Rightarrow> string"
  sdk_lookPath :: "string \<Rightarrow> string option"
  sdk_buildDrives :: "string \<Rightarrow> fc_drive list"
  sdk_parseLevel :: "string \<Rightarrow> string option"

record Machine =
  m_cfg :: config
  m_logFile :: "string option"

datatype machine_error =
    InvalidConfig config_error
  | LogFileError string string
  | CreateError string

definition cloudinit_drive :: "string \<Rightarrow> fc_drive" where
  "cloudinit_drive path =
    \<lparr>drive_ID = ''cloudinit'', drive_PathOnHost = path, drive_IsReadOnly = True,
     drive_IsRootDevice = False\<rparr>"

definition machine_drives :: "sdk \<Rightarrow> config \<Rightarrow> fc_drive list" where
  "machine_drives s cfg =
    (let drives = sdk_buildDrives s (RootFSPath cfg) in
     if CloudInitISO cfg \<noteq> '''' then drives @ [cloudinit_drive (CloudInitISO cfg)] else drives)"

definition machine_interfaces :: "config \<Rightarrow> fc_interface list" where
  "machine_interfaces cfg =
    (if TapDeviceName cfg \<noteq> '''' then
       [\<lparr>if_MacAddress = (if MacAddress cfg = '''' then ''AA:FC:00:00:00:01'' else MacAddress cfg),
         if_HostDevName = TapDeviceName cfg\<rparr>]
     else [])"

definition fc_config_of :: "sdk \<Rightarrow> config \<Rightarrow> fc_config" where
  "fc_config_of s cfg =
    \<lparr>fc_SocketPath = SocketPath cfg, fc_KernelImagePath = KernelImagePath cfg,
     fc_KernelArgs = KernelArgs cfg, fc_Drives = machine_drives s cfg, fc_LogLevel = LogLevel cfg,
     fc_VcpuCount = VCPUs cfg, fc_MemSizeMib = MemSizeMiB cfg, fc_Smt = False,
     fc_NetworkInterfaces = machine_interfaces cfg\<rparr>"

definition logger_level :: "sdk \<Rightarrow> config \<Rightarrow> string" where
  "logger_level s cfg =
    (if LogLevel cfg \<noteq> '''' then
       (case sdk_parseLevel s (LogLevel cfg) of Some lvl \<Rightarrow> lvl | None \<Rightarrow> ''error'')
     else ''error'')"

text \<open>From the open log file on: build the command and the machine.\<close>

definition make_machine ::
  "host_env \<Rightarrow> sdk \<Rightarrow> config \<Rightarrow> string option \<Rightarrow> (machine_error + Machine) host_prog" where
  "make_machine e s cfg logFile =
    (let cmd = \<lparr>cmd_Bin = FirecrackerBin cfg, cmd_SocketPath = SocketPath cfg,
                cmd_Stdio = (case logFile of None \<Rightarrow> Terminal | Some p \<Rightarrow> LogTo p)\<rparr>
     in State_Monad.bind (perform e (NewMachine (fc_config_of s cfg) cmd (logger_level s cfg))) (\<lambda>r.
          case r of
            HOk _ \<Rightarrow> State_Monad.return (Inr \<lparr>m_cfg = cfg, m_logFile = logFile\<rparr>)
          | HErr err _ \<Rightarrow>
              (case logFile of
                 None \<Rightarrow> State_Monad.return (Inl (CreateError err))
               | Some p \<Rightarrow> State_Monad.bind (perform e (CloseFile p))
                   (\<lambda>_. State_Monad.return (Inl (CreateError err))))))"

definition New :: "host_env \<Rightarrow> sdk \<Rightarrow> config \<Rightarrow> (machine_error + Machine) host_prog" where
  "New e s cfg =
    (case Validate (sdk_getenv s) (sdk_lookPath s) cfg of
       Inl err \<Rightarrow> State_Monad.return (Inl (InvalidConfig err))
     | Inr cfg \<Rightarrow>
        State_Monad.bind (perform e (RemoveFile (SocketPath cfg))) (\<lambda>_.
          if LogPath cfg \<noteq> '''' then
            State_Monad.bind (perform e (CreateFile (LogPath cfg))) (\<lambda>r.
              case r of
                HErr err _ \<Rightarrow> State_Monad.return (Inl (LogFileError (LogPath cfg) err))
              | HOk _ \<Rightarrow> make_machine e s cfg (Some (LogPath cfg)))
          else make_machine e s cfg None))"

definition Start :: "host_env \<Rightarrow> Machine \<Rightarrow> host_reply host_prog" where
  "Start e m = perform e StartVMM"

definition Wait :: "host_env \<Rightarrow> Machine \<Rightarrow> host_reply host_prog" where
  "Wait e m = perform e WaitVMM"

definition Stop :: "host_env \<Rightarrow> Machine \<Rightarrow> unit host_prog" where
  "Stop e m =
    State_Monad.bind (perform e StopVMM) (\<lambda>_.
      State_Monad.bind (perform e (RemoveFile (SocketPath (m_cfg m)))) (\<lambda>_.
        case m_logFile m of
          None \<Rightarrow> State_Monad.return ()
        | Some p \<Rightarrow> State_Monad.bind (perform e (CloseFile p)) (\<lambda>_. State_Monad.return ())))"


section \<open>What a machine holds\<close>

definition log_handle :: "config \<Rightarrow> string option" where
  "log_handle cfg = (if LogPath cfg = '''' then None else Some (LogPath cfg))"

definition machine_holds :: "Machine \<Rightarrow> resource set" where
  "machine_holds m = {VMM, HostFile (SocketPath (m_cfg m))} \<union> Handle ` set_option (m_logFile m)"

text \<open>The log file itself is never removed.\<close>

definition log_file :: "config \<Rightarrow> resource set" where
  "log_file cfg = HostFile ` set_option (log_handle cfg)"

lemma Validate_keeps:
  assumes "Validate getenv lookPath c = Inr k"
  shows "\<exists>bin. k = c\<lparr>FirecrackerBin := bin\<rparr>"
  using assms by (auto simp: Validate_def Let_def split: sum.splits if_splits)

lemma New_held:
  assumes "run_state (New e s cfg) tr = (res, tr')"
  shows "case res of
      Inl err \<Rightarrow> held tr' \<subseteq> held tr \<union> log_file cfg
    | Inr m \<Rightarrow> held tr' \<subseteq> held tr \<union> machine_holds m \<union> log_file cfg \<and> machine_holds m \<subseteq> held tr' \<and>
        Validate (sdk_getenv s) (sdk_lookPath s) cfg = Inr (m_cfg m) \<and> m_logFile m = log_handle cfg"
proof (cases "Validate (sdk_getenv s) (sdk_lookPath s) cfg")
  case (Inl err)
  then show ?thesis using assms by (auto simp: New_def run_state_return)
next
  case (Inr k)
  then have "LogPath k = LogPath cfg" by (auto dest: Validate_keeps)
  with Inr assms show ?thesis
    by (auto simp: New_def make_machine_def run_state_bind run_state_return fc_config_of_def
        machine_holds_def log_handle_def log_file_def split: host_reply.splits if_splits)
qed

lemma Stop_held:
  assumes "run_state (Stop e m) tr = (u, tr')"
  shows "held tr' = held tr - machine_holds m"
  using assms
  by (auto simp: Stop_def run_state_bind run_state_return machine_holds_def
      split: option.splits)

end
