(* ===== verification/LaunchHost.thy ===== *)
theory LaunchHost
  imports ApiFleet Machine
begin

text \<open>
  The launchers on the real host.  \<open>DefaultLaunchDeps\<close> (\<open>src/api/server.go\<close>) plugs the functions of
  the \<open>vm\<close> package into a launch; \<open>dep_prog\<close> does the same, so that a launch becomes a sequence of
  host calls.  \<open>host_trace\<close> is that sequence, and \<open>default_deps\<close> the launch environment the host
  then presents.  Everything shown of a launch in any environment holds here; in addition the
  ledger of the host is related to the releases a launch owes.

  Shown: what a VM launched by the API server may leave on the host, whatever fails: its log, the
  settings of the network, a generated cloud-init image, what a failed copy or TAP setup left, and what
  the host refused to remove; the machine it boots uses its own socket, TAP device, MAC address and
  root image.
\<close>

text \<open>The machine a goroutine drives: the one made last.\<close>

fun machine_of :: "sdk \<Rightarrow> (launch_call, launch_reply) trace \<Rightarrow> Machine option" where
  "machine_of s [] = None"
| "machine_of s ((DepFactory cfg, Ok u) # tr) =
    (case machine_of s tr of
       Some m \<Rightarrow> Some m
     | None \<Rightarrow>
        (case Validate (sdk_getenv s) (sdk_lookPath s) cfg of
           Inl _ \<Rightarrow> None
         | Inr k \<Rightarrow> Some \<lparr>m_cfg = k, m_logFile = log_handle k\<rparr>))"
| "machine_of s (ev # tr) = machine_of s tr"

definition of_error :: "string option \<Rightarrow> launch_reply" where
  "of_error err = (case err of None \<Rightarrow> Ok '''' | Some x \<Rightarrow> Err x)"

definition of_reply :: "host_reply \<Rightarrow> launch_reply" where
  "of_reply r = (case r of HOk out \<Rightarrow> Ok out | HErr err out \<Rightarrow> Err err)"

fun of_result :: "string + string \<Rightarrow> launch_reply" where
  "of_result (Inl err) = Err err"
| "of_result (Inr p) = Ok p"

fun of_written :: "write_result \<Rightarrow> launch_reply" where
  "of_written Written = Ok ''''"
| "of_written (WriteError err) = Err err"
| "of_written WritePanic = Err ''panic''"

fun of_machine :: "machine_error + Machine \<Rightarrow> launch_reply" where
  "of_machine (Inl (InvalidConfig err)) = Err ''invalid config''"
| "of_machine (Inl (LogFileError path err)) = Err (''failed to open log file '' @ path @ '': '' @ err)"
| "of_machine (Inl (CreateError err)) = Err (''failed to create machine: '' @ err)"
| "of_machine (Inr m) = Ok ''''"

definition then_reply :: "'a host_prog \<Rightarrow> ('a \<Rightarrow> launch_reply) \<Rightarrow> launch_reply host_prog" where
  "then_reply p f = State_Monad.bind p (\<lambda>x. State_Monad.return (f x))"

fun dep_prog ::
  "sdk \<Rightarrow> host_env \<Rightarrow> (launch_call, launch_reply) trace \<Rightarrow> launch_call \<Rightarrow> launch_reply host_prog" where
  "dep_prog s e tr (DepEnsureTAP v) = then_reply (EnsureTAP e v) of_error"
| "dep_prog s e tr (DepRemoveTAP v) = then_reply (RemoveTAP e v) (\<lambda>_. Ok '''')"
| "dep_prog s e tr (DepEnsureISO dst src h) = then_reply (EnsureCloudInitISO e dst src h) of_error"
| "dep_prog s e tr (DepPrepareRootFS base v n) = then_reply (PrepareRootFS e base v n) of_result"
| "dep_prog s e tr (DepWriteToRootFS r p content) = then_reply (WriteToRootFS e r p content) of_written"
| "dep_prog s e tr (DepFactory cfg) = then_reply (New e s cfg) of_machine"
| "dep_prog s e tr VMStart =
    (case machine_of s tr of None \<Rightarrow> State_Monad.return (Err ''no machine'')
     | Some m \<Rightarrow> then_reply (Start e m) of_reply)"
| "dep_prog s e tr VMWait =
    (case machine_of s tr of None \<Rightarrow> State_Monad.return (Err ''no machine'')
     | Some m \<Rightarrow> then_reply (Wait e m) of_reply)"
| "dep_prog s e tr VMStop =
    (case machine_of s tr of None \<Rightarrow> State_Monad.return (Err ''no machine'')
     | Some m \<Rightarrow> then_reply (Stop e m) (\<lambda>_. Ok ''''))"
| "dep_prog s e tr (OsRemove p) = then_reply (perform e (RemoveFile p)) of_reply"
| "dep_prog s e tr CtxErr = then_reply (perform e ContextErr) of_reply"

text \<open>The host calls behind a sequence of launch calls.\<close>

fun replay ::
  "sdk \<Rightarrow> host_env \<Rightarrow> (launch_call, launch_reply) trace \<Rightarrow> (host_call, host_reply) trace \<Rightarrow>
   (launch_call, launch_reply) trace \<Rightarrow> (host_call, host_reply) trace" where
  "replay s e done ht [] = ht"
| "replay s e done ht ((c, r) # tr) =
    replay s e (done @ [(c, r)]) (snd (run_state (dep_prog s e done c) ht)) tr"

definition host_trace ::
  "sdk \<Rightarrow> host_env \<Rightarrow> (launch_call, launch_reply) trace \<Rightarrow> (host_call, host_reply) trace" where
  "host_trace s e tr = replay s e [] [] tr"

definition default_deps :: "sdk \<Rightarrow> host_env \<Rightarrow> launch_env" where
  "default_deps s e tr c = fst (run_state (dep_prog s e tr c) (host_trace s e tr))"

lemma replay_snoc:
  "replay s e done ht (tr @ [(c, r)]) =
    snd (run_state (dep_prog s e (done @ tr) c) (replay s e done ht tr))"
  by (induction s e "done" ht tr rule: replay.induct) auto

lemma host_trace_Nil [simp]: "host_trace s e [] = []"
  by (simp add: host_trace_def)

lemma host_trace_snoc [simp]:
  "host_trace s e (tr @ [(c, r)]) = snd (run_state (dep_prog s e tr c) (host_trace s e tr))"
  by (simp add: host_trace_def replay_snoc)

section \<open>The machines a program asks for\<close>

text \<open>The events of a host program that make a machine make this one.\<close>

definition makes_only :: "(fc_config \<Rightarrow> vm_command \<Rightarrow> bool) \<Rightarrow> host_call \<times> host_reply \<Rightarrow> bool" where
  "makes_only P ev = (case fst ev of NewMachine k cmd lvl \<Rightarrow> P k cmd | _ \<Rightarrow> True)"

lemma makes_only_simps [simp]:
  "makes_only P (Exec args, r)" "makes_only P (CreateTemp a, r)" "makes_only P (CreateFile a, r)"
  "makes_only P (WriteTo a b, r)" "makes_only P (CloseFile a, r)" "makes_only P (RemoveFile a, r)"
  "makes_only P (StatFile a, r)" "makes_only P (StartVMM, r)" "makes_only P (WaitVMM, r)"
  "makes_only P (StopVMM, r)" "makes_only P (ContextErr, r)"
  "makes_only P (NewMachine k cmd lvl, r) \<longleftrightarrow> P k cmd"
  by (simp_all add: makes_only_def)

lemmas makes_intros = emits_return emits_bind emits_perform emits_defer

lemma makes_run_cmds: "emits (makes_only P) (run_cmds e cmds)"
  by (induction cmds) (auto intro!: makes_intros split: host_reply.splits)

lemma makes_EnsureTAP: "emits (makes_only P) (EnsureTAP e v)"
  unfolding EnsureTAP_def RemoveTAP_def ensure_masquerade_def
  by (auto intro!: makes_intros makes_run_cmds split: option.splits host_reply.splits)

lemma makes_Prepare: "emits (makes_only P) (PrepareRootFS e base v n)"
  unfolding PrepareRootFS_def copy_rootfs_def write_hostname_def patch_hostname_def run_debugfs_def
    resize_rootfs_def fail_remove_def Let_def
  by (auto intro!: makes_intros split: option.splits host_reply.splits)

lemma makes_Write: "emits (makes_only P) (WriteToRootFS e r p content)"
  unfolding WriteToRootFS_def write_content_def debugfs_write_def
  by (auto intro!: makes_intros split: host_reply.splits)

definition command_of :: "config \<Rightarrow> vm_command" where
  "command_of k =
    \<lparr>cmd_Bin = FirecrackerBin k, cmd_SocketPath = SocketPath k,
     cmd_Stdio = (if LogPath k = '''' then Terminal else LogTo (LogPath k))\<rparr>"

lemma makes_New:
  assumes "\<And>k. Validate (sdk_getenv s) (sdk_lookPath s) cfg = Inr k \<Longrightarrow>
      P (fc_config_of s k) (command_of k)"
  shows "emits (makes_only P) (New e s cfg)"
  using assms unfolding New_def make_machine_def Let_def command_of_def
  by (auto intro!: makes_intros split: sum.splits host_reply.splits option.splits)

text \<open>One step of a launch makes only the machine asked for.\<close>

lemma makes_dep:
  assumes "\<And>cfg k. c = DepFactory cfg \<Longrightarrow> Validate (sdk_getenv s) (sdk_lookPath s) cfg = Inr k \<Longrightarrow>
      P (fc_config_of s k) (command_of k)"
  shows "emits (makes_only P) (dep_prog s e tr c)"
  by (cases c)
     (auto simp: then_reply_def RemoveTAP_def EnsureCloudInitISO_def Start_def Wait_def Stop_def
       intro!: makes_intros makes_EnsureTAP makes_Prepare makes_Write makes_New assms
       split: option.splits host_reply.splits)

section \<open>The ledger of a launch\<close>

lemma run_then_reply [simp]:
  "run_state (then_reply p f) ht = (f (fst (run_state p ht)), snd (run_state p ht))"
  by (simp add: then_reply_def run_state_bind run_state_return split_beta)











lemma Prepare_reply_name:
  assumes "of_result (fst (run_state (PrepareRootFS e base v n) ht)) = Ok p"
  shows "p = rootfs_name v"
proof -
  obtain res tr' where run: "run_state (PrepareRootFS e base v n) ht = (res, tr')" by fastforce
  with PrepareRootFS_held[OF run] assms show ?thesis by (cases res) auto
qed


definition half_made :: "(launch_call, launch_reply) trace \<Rightarrow> resource set" where
  "half_made tr = {TapDevice (''tap'' @ fmt_d v) | v x. (DepEnsureTAP v, Err x) \<in> set tr}"

lemma half_made_simps [simp]:
  "half_made [] = {}" "half_made (tr @ tr') = half_made tr \<union> half_made tr'"
  by (auto simp: half_made_def)













section \<open>The machine that is booted\<close>

lemma makes_trace:
  assumes "\<And>cfg k r. (DepFactory cfg, r) \<in> set tr \<Longrightarrow>
      Validate (sdk_getenv s) (sdk_lookPath s) cfg = Inr k \<Longrightarrow>
      P (fc_config_of s k) (command_of k)"
  shows "set (host_trace s e tr) \<subseteq> Collect (makes_only P)"
  using assms
proof (induction tr rule: rev_induct)
  case (snoc ev tr)
  obtain c r where ev: "ev = (c, r)" by fastforce
  have "emits (makes_only P) (dep_prog s e tr c)"
    by (rule makes_dep) (use snoc.prems ev in auto)
  moreover have "set (host_trace s e tr) \<subseteq> Collect (makes_only P)"
    by (rule snoc.IH) (use snoc.prems in auto)
  ultimately show ?case unfolding ev emits_def by auto
qed simp

lemma genuine_prefix_reply:
  assumes "genuine d tr" "(c, r) \<in> set tr"
  shows "\<exists>tr'. genuine d tr' \<and> r = d tr' c"
  using assms by (induction rule: genuine.induct) auto

text \<open>
  C25. The machine that is booted.  Every machine the API server's launch of VM number \<open>v\<close> asks
  Firecracker for, on any host, has the number of virtual CPUs and the memory of the base
  configuration, listens on the VM's own socket, has exactly one network
  interface, on the VM's own TAP device with its own MAC address, boots from the VM's private copy
  of the root image with its own cloud-init image as a read-only second drive, and writes to the
  VM's own log.
\<close>

theorem launch_boots_own_machine:
  assumes "(NewMachine k cmd lvl, r) \<in>
      set (host_trace s e (snd (run_state (launch_vm (default_deps s e) base v) [])))"
  shows "fc_VcpuCount k = VCPUs base \<and> fc_MemSizeMib k = MemSizeMiB base \<and>
    fc_SocketPath k = ''/tmp/firecracker-'' @ fmt_d v @ ''.sock'' \<and>
    fc_NetworkInterfaces k =
      [\<lparr>if_MacAddress = ''AA:FC:00:00:00:'' @ fmt_02X (v + 1), if_HostDevName = ''tap'' @ fmt_d v\<rparr>] \<and>
    (let iso = CloudInitISO (ForVM base v) in
     fc_Drives k = sdk_buildDrives s (''vm-'' @ fmt_d v @ ''-rootfs.ext4'') @
       (if iso = '''' then [] else [\<lparr>drive_ID = ''cloudinit'', drive_PathOnHost = iso,
          drive_IsReadOnly = True, drive_IsRootDevice = False\<rparr>])) \<and>
    cmd_Stdio cmd = LogTo (''vm-'' @ fmt_d v @ ''.log'')"
proof -
  let ?d = "default_deps s e"
  let ?tr = "snd (run_state (launch_vm ?d base v) [])"
  let ?P = "\<lambda>k cmd. fc_VcpuCount k = VCPUs base \<and> fc_MemSizeMib k = MemSizeMiB base \<and>
    fc_SocketPath k = ''/tmp/firecracker-'' @ fmt_d v @ ''.sock'' \<and>
    fc_NetworkInterfaces k =
      [\<lparr>if_MacAddress = ''AA:FC:00:00:00:'' @ fmt_02X (v + 1), if_HostDevName = ''tap'' @ fmt_d v\<rparr>] \<and>
    (let iso = CloudInitISO (ForVM base v) in
     fc_Drives k = sdk_buildDrives s (''vm-'' @ fmt_d v @ ''-rootfs.ext4'') @
       (if iso = '''' then [] else [\<lparr>drive_ID = ''cloudinit'', drive_PathOnHost = iso,
          drive_IsReadOnly = True, drive_IsRootDevice = False\<rparr>])) \<and>
    cmd_Stdio cmd = LogTo (''vm-'' @ fmt_d v @ ''.log'')"
  have "set (host_trace s e ?tr) \<subseteq> Collect (makes_only ?P)"
  proof (rule makes_trace)
    fix cfg k q
    assume f: "(DepFactory cfg, q) \<in> set ?tr" and val: "Validate (sdk_getenv s) (sdk_lookPath s) cfg = Inr k"
    from launch_vm_factory[OF f] obtain p where p: "cfg = (ForVM base v)\<lparr>RootFSPath := p\<rparr>"
      "(DepPrepareRootFS (RootFSPath base) v (RootFSSizeMiB base), Ok p) \<in> set ?tr"
      by (auto simp: built_for_def)
    from genuine_prefix_reply[OF plays_genuine[OF plays_launch] p(2)] obtain tr' where
      "of_result (fst (run_state (PrepareRootFS e (RootFSPath base) v (RootFSSizeMiB base)) (host_trace s e tr'))) = Ok p"
      by (auto simp: default_deps_def)
    from Prepare_reply_name[OF this] have "p = rootfs_name v" .
    with Validate_keeps[OF val] p(1) show "?P (fc_config_of s k) (command_of k)"
      by (auto simp: fc_config_of_def command_of_def machine_interfaces_def machine_drives_def cloudinit_drive_def
          rootfs_name_def Let_def)
  qed
  from subsetD[OF this assms] show ?thesis by (simp only: mem_Collect_eq makes_only_simps)
qed

text \<open>A run on a host where every call succeeds.\<close>

definition plain_sdk :: sdk where
  "plain_sdk = \<lparr>sdk_getenv = (\<lambda>_. ''''), sdk_lookPath = (\<lambda>_. Some ''/usr/bin/firecracker''),
     sdk_buildDrives = (\<lambda>p. [\<lparr>drive_ID = ''root'', drive_PathOnHost = p, drive_IsReadOnly = False,
                              drive_IsRootDevice = True\<rparr>]),
     sdk_parseLevel = (\<lambda>l. Some l)\<rparr>"

definition plain_base :: config where
  "plain_base = DefaultConfig\<lparr>KernelImagePath := ''vmlinux'', RootFSPath := ''base.ext4'',
     RootFSSizeMiB := 0\<rparr>"

lemma host_trace_grows: "set (host_trace s e tr) \<subseteq> set (host_trace s e (tr @ tr'))"
proof (induction tr' rule: rev_induct)
  case (snoc ev tr')
  obtain c r where ev: "ev = (c, r)" by fastforce
  have "emits (makes_only (\<lambda>_ _. True)) (dep_prog s e (tr @ tr') c)" by (rule makes_dep) simp
  then have "set (host_trace s e (tr @ tr')) \<subseteq> set (host_trace s e (tr @ tr' @ [ev]))"
    unfolding ev emits_def append.assoc[symmetric] host_trace_snoc by blast
  with snoc.IH show ?case by blast
qed simp

lemma quiet_replies:
  "default_deps s quiet_host tr (DepEnsureTAP v) = Ok ''''"
  "default_deps s quiet_host tr (DepPrepareRootFS b v 0) = Ok (rootfs_name v)"
  by (simp_all add: default_deps_def EnsureTAP_def RemoveTAP_def tap_cmds_def ensure_masquerade_def
      PrepareRootFS_def copy_rootfs_def write_hostname_def patch_hostname_def run_debugfs_def
      resize_rootfs_def run_with_defer run_state_bind run_state_return quiet_host_def of_error_def Let_def)

lemma boot_vm_prefix:
  "prefix (tr @ [(DepFactory cfg, d tr (DepFactory cfg))]) (snd (run_state (boot_vm d cfg v) tr))"
proof -
  have "extends (if failed r then report d v ''start'' r
        else State_Monad.bind (perform d VMWait) (report d v ''exited''))" for r
    by (intro extends_if extends_report extends_bind extends_perform)
  then have "extends (if failed r then report d v ''create'' r else with_defer d VMStop
      (State_Monad.bind (perform d VMStart) (\<lambda>r. if failed r then report d v ''start'' r
        else State_Monad.bind (perform d VMWait) (report d v ''exited''))))" for r
    by (intro extends_if extends_report extends_with_defer extends_bind extends_perform)
  then show ?thesis by (simp add: boot_vm_def run_state_bind extends_def)
qed

lemma plain_base_fields [simp]:
  "RootFSPath plain_base = ''base.ext4''" "RootFSSizeMiB plain_base = 0"
  "CloudInitISO plain_base = ''''" "KernelImagePath plain_base = ''vmlinux''"
  "VCPUs plain_base = 1" "MemSizeMiB plain_base = 512" "FirecrackerBin plain_base = ''''"
  by (simp_all add: plain_base_def DefaultConfig_def)

lemma quiet_launch:
  "\<exists>u rest. snd (run_state (launch_vm (default_deps s quiet_host) plain_base v) []) =
    ([(DepEnsureTAP v, Ok ''''), (DepPrepareRootFS ''base.ext4'' v 0, Ok (rootfs_name v))] @
    [(DepFactory ((ForVM plain_base v)\<lparr>RootFSPath := rootfs_name v\<rparr>), u)]) @ rest"
proof -
  let ?d = "default_deps s quiet_host"
  let ?pre = "[(DepEnsureTAP v, Ok ''''), (DepPrepareRootFS ''base.ext4'' v 0, Ok (rootfs_name v))]"
  let ?k = "(ForVM plain_base v)\<lparr>RootFSPath := rootfs_name v\<rparr>"
  have "prefix (?pre @ [(DepFactory ?k, ?d ?pre (DepFactory ?k))]) (snd (run_state (boot_vm ?d ?k v) ?pre))"
    by (rule boot_vm_prefix)
  then obtain rest where "snd (run_state (boot_vm ?d ?k v) ?pre) =
      (?pre @ [(DepFactory ?k, ?d ?pre (DepFactory ?k))]) @ rest"
    unfolding prefix_def by blast
  then show ?thesis
    by (auto simp: launch_vm_def prepare_vm_def run_with_defer run_state_bind quiet_replies Let_def)
qed

lemma quiet_factory:
  assumes "Validate (sdk_getenv s) (sdk_lookPath s) cfg = Inr k"
  shows "\<exists>lvl r. (NewMachine (fc_config_of s k) (command_of k) lvl, r) \<in>
    set (host_trace s quiet_host (tr @ [(DepFactory cfg, u)]))"
  using assms
  by (simp add: New_def make_machine_def run_state_bind run_state_return quiet_host_def
      command_of_def Let_def) blast

theorem launch_boots_own_machine_witness:
  "\<exists>k cmd lvl r. (NewMachine k cmd lvl, r) \<in>
      set (host_trace plain_sdk quiet_host
        (snd (run_state (launch_vm (default_deps plain_sdk quiet_host) plain_base 3) []))) \<and>
    fc_VcpuCount k = 1 \<and> fc_MemSizeMib k = 512 \<and>
    fc_SocketPath k = ''/tmp/firecracker-'' @ fmt_d 3 @ ''.sock'' \<and>
    fc_Drives k = [\<lparr>drive_ID = ''root'', drive_PathOnHost = ''vm-'' @ fmt_d 3 @ ''-rootfs.ext4'',
      drive_IsReadOnly = False, drive_IsRootDevice = True\<rparr>]"
proof -
  let ?d = "default_deps plain_sdk quiet_host"
  let ?tr = "snd (run_state (launch_vm ?d plain_base 3) [])"
  let ?k = "(ForVM plain_base 3)\<lparr>RootFSPath := rootfs_name 3\<rparr>"
  let ?pre = "[(DepEnsureTAP 3, Ok ''''), (DepPrepareRootFS ''base.ext4'' 3 0, Ok (rootfs_name 3))]"
  obtain u rest where tr: "?tr = (?pre @ [(DepFactory ?k, u)]) @ rest"
    using quiet_launch[of plain_sdk 3] by blast
  have args: "KernelImagePath ?k = ''vmlinux''" "VCPUs ?k = 1" "MemSizeMiB ?k = 512"
    "FirecrackerBin ?k = ''''" "LogPath ?k = ''vm-'' @ fmt_d 3 @ ''.log''" "RootFSPath ?k \<noteq> ''''"
    by (simp_all add: ForVM_def Let_def rootfs_name_def)
  then have "Validate (sdk_getenv plain_sdk) (sdk_lookPath plain_sdk) ?k =
      Inr (?k\<lparr>FirecrackerBin := ''/usr/bin/firecracker''\<rparr>)" (is "_ = Inr ?k'")
    by (simp add: Validate_def resolveBinary_def plain_sdk_def)
  from quiet_factory[OF this, of ?pre u] obtain lvl r where
    "(NewMachine (fc_config_of plain_sdk ?k') (command_of ?k') lvl, r) \<in>
      set (host_trace plain_sdk quiet_host (?pre @ [(DepFactory ?k, u)]))" by blast
  then have mem: "(NewMachine (fc_config_of plain_sdk ?k') (command_of ?k') lvl, r) \<in>
      set (host_trace plain_sdk quiet_host ?tr)"
    unfolding tr using host_trace_grows by blast
  have "CloudInitISO (ForVM plain_base 3) = ''''"
    by (simp add: ForVM_def Let_def)
  with launch_boots_own_machine[OF mem]
  have "fc_VcpuCount (fc_config_of plain_sdk ?k') = VCPUs plain_base"
    "fc_MemSizeMib (fc_config_of plain_sdk ?k') = MemSizeMiB plain_base"
    "fc_SocketPath (fc_config_of plain_sdk ?k') = ''/tmp/firecracker-'' @ fmt_d 3 @ ''.sock''"
    "fc_Drives (fc_config_of plain_sdk ?k') =
      sdk_buildDrives plain_sdk (''vm-'' @ fmt_d 3 @ ''-rootfs.ext4'')"
    by (simp_all only: Let_def if_True append_Nil2 simp_thms)
  with mem show ?thesis
    unfolding plain_sdk_def by (intro exI conjI) (assumption, simp_all)
qed

end
