(* ===== verification/AgentFaults.thy ===== *)
theory AgentFaults
  imports Resources GoTime GoPath
begin

text \<open>
  The faults of \<open>src/agent/faults.go\<close>, one after the other: how each reads its parameters, the
  commands it runs and the files it writes.  Programs run on the calls of the machine the agent
  lives on; a goroutine's context is one of them.  The conversion tables of Unicode are a
  parameter.

  Shown: for which parameters the memory fault brings the agent down; the disk fault, once its
  context is cancelled, returns, closes its file and removes it; the commands of the network and
  process faults; nothing is written or run when a required parameter is missing.
\<close>

type_synonym params = "(string, string) fmap"

datatype agent_call =
    AExec "string list"
  | ALookPath string
  | ACreate string
  | AAppend string
  | AWrite string string
  | AWriteChunk string
  | AMissing string
  | AClose string
  | ARemove string
  | ACtxDone
  | AWaitCtx int

text \<open>
  An error means: the command or file operation failed; the path does not exist (\<open>AMissing\<close>); the
  context is cancelled (\<open>ACtxDone\<close>, and \<open>AWaitCtx\<close>, which waits for that long at most).
\<close>

datatype agent_reply = AOk string | AErr string

type_synonym agent_env = "(agent_call, agent_reply) env"
type_synonym 'a agent_prog = "(agent_call, agent_reply, 'a) prog"

definition is_err :: "agent_reply \<Rightarrow> bool" where
  "is_err r = (case r of AOk _ \<Rightarrow> False | AErr _ \<Rightarrow> True)"

lemma is_err_simps [simp]: "\<not> is_err (AOk x)" "is_err (AErr x)"
  by (simp_all add: is_err_def)

text \<open>An absent key reads as the empty string.\<close>

definition param :: "params \<Rightarrow> string \<Rightarrow> string" where
  "param ps k = (case fmlookup ps k of None \<Rightarrow> '''' | Some v \<Rightarrow> v)"


section \<open>CPU\<close>

definition cpu_load :: "params \<Rightarrow> int" where
  "cpu_load ps =
    (case fmlookup ps ''load'' of
       None \<Rightarrow> 80
     | Some v \<Rightarrow> (case Atoi (TrimSuffix v ''%'') of None \<Rightarrow> 80 | Some n \<Rightarrow> n))"

text \<open>
  Either \<open>stress-ng\<close> runs until the context is cancelled, or this many workers each alternate
  between work and sleep (in nanoseconds).
\<close>

datatype cpu_run = StressNG | Workers int int int

definition runCPUFault :: "agent_env \<Rightarrow> int \<Rightarrow> params \<Rightarrow> cpu_run agent_prog" where
  "runCPUFault e numCPU ps =
    (let loadPct = cpu_load ps in
     State_Monad.bind (perform e (ALookPath ''stress-ng'')) (\<lambda>r.
       case r of
         AOk _ \<Rightarrow>
           State_Monad.bind (perform e (AExec [''stress-ng'', ''--cpu'', fmt_d numCPU, ''--cpu-load'',
               fmt_d loadPct, ''--timeout'', ''0''])) (\<lambda>_. State_Monad.return StressNG)
       | AErr _ \<Rightarrow>
           State_Monad.return (Workers numCPU (wrap64 (loadPct * Millisecond))
             (wrap64 (wrap64 (100 - loadPct) * Millisecond)))))"


section \<open>Memory\<close>

definition memory_rate :: "(string \<Rightarrow> string) \<Rightarrow> params \<Rightarrow> int" where
  "memory_rate uni ps =
    (case fmlookup ps ''rate'' of
       None \<Rightarrow> 10
     | Some v \<Rightarrow>
        let v = ToLower uni (filter (\<lambda>c. c \<noteq> CHR '' '') v);
            v = TrimSuffix v ''mb/min'';
            v = TrimSuffix v ''mb''
        in (case Atoi v of None \<Rightarrow> 10 | Some n \<Rightarrow> n))"

definition memory_ceiling :: "params \<Rightarrow> int" where
  "memory_ceiling ps =
    (case fmlookup ps ''ceiling'' of
       None \<Rightarrow> 90
     | Some v \<Rightarrow> (case Atoi (TrimSuffix v ''%'') of None \<Rightarrow> 90 | Some n \<Rightarrow> n))"

text \<open>
  The interval of the ticker; \<open>None\<close> is the panic of a division by zero or of \<open>NewTicker\<close> on an
  interval that is not positive, which ends the agent's process.
\<close>

definition memory_interval :: "(string \<Rightarrow> string) \<Rightarrow> params \<Rightarrow> int option" where
  "memory_interval uni ps =
    (let rateMBPerMin = memory_rate uni ps in
     if rateMBPerMin = 0 then None
     else let interval = quot64 Minute rateMBPerMin in if interval \<le> 0 then None else Some interval)"

text \<open>
  One tick.  \<open>readMemInfo\<close> yields total and available kB, or an error (\<open>None\<close>), once before and once
  after; the result is the number of 1 MB chunks held.
\<close>

definition memory_tick :: "int \<Rightarrow> (nat \<times> nat) option \<Rightarrow> (nat \<times> nat) option \<Rightarrow> nat \<Rightarrow> nat" where
  "memory_tick ceilingPct first second chunks =
    (case first of
       None \<Rightarrow> Suc chunks
     | Some (_, avail) \<Rightarrow>
        let total = (case second of None \<Rightarrow> 0 | Some (t, _) \<Rightarrow> t) in
        if 0 < total then
          let used = (int total - int avail) mod 2 ^ 64;
              usedPct = f64_mul (f64_div (f64_of_int used) (f64_of_int (int total))) (Fin 100)
          in if f64_ge usedPct (f64_of_int ceilingPct) then chunks else Suc chunks
        else Suc chunks)"

fun memory_ticks :: "int \<Rightarrow> ((nat \<times> nat) option \<times> (nat \<times> nat) option) list \<Rightarrow> nat \<Rightarrow> nat" where
  "memory_ticks ceilingPct [] chunks = chunks"
| "memory_ticks ceilingPct ((a, b) # readings) chunks =
    memory_ticks ceilingPct readings (memory_tick ceilingPct a b chunks)"


section \<open>Disk\<close>

definition disk_path :: "params \<Rightarrow> string" where
  "disk_path ps = (case fmlookup ps ''path'' of None \<Rightarrow> ''/'' | Some v \<Rightarrow> v)"

definition fill_path :: "params \<Rightarrow> string" where
  "fill_path ps = path_Join2 (disk_path ps) ''.onfire-diskfill''"

text \<open>The loops of the fault, with fuel: \<open>False\<close> means that the loop is still running.\<close>

fun disk_full :: "agent_env \<Rightarrow> string \<Rightarrow> nat \<Rightarrow> bool agent_prog" where
  "disk_full e fillPath 0 = State_Monad.return False"
| "disk_full e fillPath (Suc n) =
    State_Monad.bind (perform e (AWaitCtx (500 * Millisecond))) (\<lambda>r.
      if is_err r then State_Monad.return True
      else State_Monad.bind (perform e (AMissing fillPath)) (\<lambda>r.
        if is_err r then State_Monad.return True else disk_full e fillPath n))"

fun disk_fill :: "agent_env \<Rightarrow> string \<Rightarrow> nat \<Rightarrow> bool agent_prog" where
  "disk_fill e fillPath 0 = State_Monad.return False"
| "disk_fill e fillPath (Suc n) =
    State_Monad.bind (perform e ACtxDone) (\<lambda>r.
      if is_err r then State_Monad.return True
      else State_Monad.bind (perform e (AMissing fillPath)) (\<lambda>r.
        if is_err r then State_Monad.return True
        else State_Monad.bind (perform e (AWriteChunk fillPath)) (\<lambda>r.
          if is_err r then disk_full e fillPath n else disk_fill e fillPath n)))"

definition runDiskFault :: "agent_env \<Rightarrow> params \<Rightarrow> nat \<Rightarrow> bool agent_prog" where
  "runDiskFault e ps fuel =
    (let fillPath = fill_path ps in
     State_Monad.bind (perform e (ACreate fillPath)) (\<lambda>r.
       if is_err r then State_Monad.return True
       else State_Monad.bind (disk_fill e fillPath fuel) (\<lambda>returned.
         if returned then
           State_Monad.bind (perform e (AClose fillPath)) (\<lambda>_.
             State_Monad.bind (perform e (ARemove fillPath)) (\<lambda>_. State_Monad.return True))
         else State_Monad.return False)))"


section \<open>Network\<close>

definition net_interface :: "params \<Rightarrow> string" where
  "net_interface ps = (case fmlookup ps ''interface'' of None \<Rightarrow> ''eth0'' | Some v \<Rightarrow> v)"

definition tc_args :: "params \<Rightarrow> string list" where
  "tc_args ps =
    (let iface = net_interface ps; action = param ps ''action'' in
     if action = ''delay'' then
       let latency = (case fmlookup ps ''latency'' of None \<Rightarrow> ''100ms'' | Some v \<Rightarrow> v);
           jitter = (case fmlookup ps ''jitter'' of None \<Rightarrow> ''10ms'' | Some v \<Rightarrow> v)
       in [''qdisc'', ''add'', ''dev'', iface, ''root'', ''netem'', ''delay'', latency, jitter]
     else if action = ''loss'' \<or> action = ''drop'' then
       let loss = (case fmlookup ps ''packet_loss'' of None \<Rightarrow> ''10%'' | Some v \<Rightarrow> v)
       in [''qdisc'', ''add'', ''dev'', iface, ''root'', ''netem'', ''loss'', loss]
     else if action = ''corrupt'' then
       [''qdisc'', ''add'', ''dev'', iface, ''root'', ''netem'', ''corrupt'', ''10%'']
     else [''qdisc'', ''add'', ''dev'', iface, ''root'', ''netem'', ''delay'', ''200ms''])"

definition runNetworkFault :: "agent_env \<Rightarrow> params \<Rightarrow> string option agent_prog" where
  "runNetworkFault e ps =
    State_Monad.bind (perform e (AExec (''tc'' # tc_args ps))) (\<lambda>r.
      State_Monad.return
        (case r of AErr err \<Rightarrow> Some (''tc failed: '' @ err @ '' (is iproute2 installed?)'') | AOk _ \<Rightarrow> None))"

text \<open>The goroutine that waits for the context to be cancelled.\<close>

definition network_cleanup :: "agent_env \<Rightarrow> params \<Rightarrow> unit agent_prog" where
  "network_cleanup e ps =
    State_Monad.bind (perform e (AExec [''tc'', ''qdisc'', ''del'', ''dev'', net_interface ps, ''root'']))
      (\<lambda>_. State_Monad.return ())"


section \<open>Processes and DNS\<close>

definition stop_service :: "agent_env \<Rightarrow> string \<Rightarrow> bool \<Rightarrow> string option agent_prog" where
  "stop_service e service restart =
    State_Monad.bind (perform e (AExec [''systemctl'', ''stop'', service])) (\<lambda>r.
      case r of
        AErr err \<Rightarrow> State_Monad.return (Some (''systemctl stop '' @ service @ '': '' @ err))
      | AOk _ \<Rightarrow>
          if \<not> restart then
            State_Monad.bind (perform e (AExec [''systemctl'', ''mask'', service]))
              (\<lambda>_. State_Monad.return None)
          else State_Monad.return None)"

definition runProcessFault :: "agent_env \<Rightarrow> params \<Rightarrow> string option agent_prog" where
  "runProcessFault e ps =
    (let service = param ps ''service'' in
     if service = '''' then State_Monad.return (Some ''process fault: params.service is required'')
     else
       let action = (if param ps ''action'' = '''' then ''stop'' else param ps ''action'');
           restart = (param ps ''restart'' \<noteq> ''false'')
       in if action = ''stop'' \<or> action = ''kill'' then stop_service e service restart
          else if action = ''restart'' then
            State_Monad.bind (perform e (AExec [''systemctl'', ''restart'', service]))
              (\<lambda>_. State_Monad.return None)
          else if action = ''degrade'' then
            State_Monad.bind (perform e (AExec [''systemctl'', ''stop'', service]))
              (\<lambda>_. State_Monad.return None)
          else State_Monad.return None)"

definition runDNSFault :: "agent_env \<Rightarrow> params \<Rightarrow> string option agent_prog" where
  "runDNSFault e ps =
    (let rec = param ps ''record''; resolveTo = param ps ''resolve_to'' in
     if rec = '''' \<or> resolveTo = '''' then
       State_Monad.return (Some ''dns fault: params.record and params.resolve_to are required'')
     else
       let entry = nl @ resolveTo @ '' '' @ rec @ '' # onfire-fault'' @ nl in
       State_Monad.bind (perform e (AAppend ''/etc/hosts'')) (\<lambda>r.
         case r of
           AErr err \<Rightarrow> State_Monad.return (Some (''opening /etc/hosts: '' @ err))
         | AOk _ \<Rightarrow>
             with_defer e (AClose ''/etc/hosts'')
               (State_Monad.bind (perform e (AWrite ''/etc/hosts'' entry)) (\<lambda>r.
                  State_Monad.return (case r of AErr err \<Rightarrow> Some err | AOk _ \<Rightarrow> None)))))"

section \<open>The rate of the memory fault\<close>

lemma div_bounds:
  fixes a b :: int
  assumes "0 \<le> a" "0 < b"
  shows "0 \<le> a div b" "a div b \<le> a"
proof -
  show "0 \<le> a div b" using assms by (simp add: pos_imp_zdiv_nonneg_iff)
  have "a div b \<le> a div 1" by (rule zdiv_mono2) (use assms in simp_all)
  then show "a div b \<le> a" by simp
qed

lemma quot64_Minute:
  assumes "n \<noteq> 0"
  shows "quot64 Minute n \<le> 0 \<longleftrightarrow> n < 0 \<or> Minute < n"
proof -
  let ?q = "Minute div \<bar>n\<bar>"
  have "0 < \<bar>n\<bar>" using assms by simp
  then have q: "0 \<le> ?q" "?q \<le> Minute" using div_bounds[of Minute "\<bar>n\<bar>"] by simp_all
  have zero: "?q = 0 \<longleftrightarrow> Minute < \<bar>n\<bar>" using assms by (simp add: zdiv_eq_0_iff)
  have "quot64 Minute n = sgn n * ?q"
  proof (cases "0 < n")
    case False
    then have "sgn n = -1" using assms by simp
    then show ?thesis using q by (simp add: quot64_def wrap64_id)
  qed (use q in \<open>simp add: quot64_def wrap64_id\<close>)
  then show ?thesis using q zero assms by (cases "0 < n") auto
qed

lemma fmt_d_chars:
  assumes "c \<in> set (fmt_d n)"
  shows "is_digit c \<or> c = CHR ''-''"
  using assms show_dec_digits by (auto simp: fmt_d_def split: if_splits)

lemma lower_fmt_d: "ToLower uni (fmt_d n @ u) = (if is_ascii u then fmt_d n @ map ascii_lower u else uni (fmt_d n @ u))"
proof -
  have "(of_char c :: nat) < 128 \<and> ascii_lower c = c" if "c \<in> set (fmt_d n)" for c
    using fmt_d_chars[OF that] by (auto simp: is_digit_def ascii_lower_def)
  then have "is_ascii (fmt_d n)" "map ascii_lower (fmt_d n) = fmt_d n"
    by (auto simp: is_ascii_def list_all_iff intro: map_idI)
  then show ?thesis by (auto simp: ToLower_def is_ascii_def)
qed

lemma fmt_d_ends: "fmt_d n \<noteq> [] \<and> is_digit (last (fmt_d n))"
proof -
  have "is_digit (last (show_base 10 m))" for m by (rule show_dec_digits[OF last_in_set]) simp
  then show ?thesis by (simp add: fmt_d_def)
qed

lemma TrimSuffix_append: "TrimSuffix (s @ u) u = s"
  by (simp add: TrimSuffix_def HasSuffix_def)

lemma TrimSuffix_other:
  assumes "u \<noteq> []" "s \<noteq> [] \<Longrightarrow> last s \<noteq> last u"
  shows "TrimSuffix s u = s"
proof -
  have "last s = last u" "s \<noteq> []" if "HasSuffix s u"
    using that assms(1) unfolding HasSuffix_def
    by (metis append_take_drop_id last_appendR, metis le_zero_eq length_0_conv)
  then show ?thesis using assms(2) by (auto simp: TrimSuffix_def)
qed

lemma memory_rate_text:
  assumes "int64_range n" "u \<in> {'''', ''mb'', ''mb/min'', ''MB/min'', '' MB / min''}"
  shows "memory_rate uni (fmupd ''rate'' (fmt_d n @ u) ps) = n"
proof -
  have nosp: "filter (\<lambda>c. c \<noteq> CHR '' '') (fmt_d n) = fmt_d n"
    by (rule filter_True) (use fmt_d_chars[of "CHR '' ''" n] in \<open>auto simp: is_digit_def\<close>)
  have d: "fmt_d n \<noteq> []" "last (fmt_d n) \<noteq> CHR ''b''" "last (fmt_d n) \<noteq> CHR ''n''"
    using fmt_d_ends[of n] by (auto simp: is_digit_def)
  have mb: "TrimSuffix (fmt_d n @ ''mb'') ''mb/min'' = fmt_d n @ ''mb''"
    by (rule TrimSuffix_other) simp_all
  have plain: "TrimSuffix (fmt_d n) ''mb/min'' = fmt_d n" "TrimSuffix (fmt_d n) ''mb'' = fmt_d n"
    using d by (auto intro: TrimSuffix_other)
  have ml: "map ascii_lower ''mb'' = ''mb''" "map ascii_lower ''mb/min'' = ''mb/min''"
    "map ascii_lower ''MB/min'' = ''mb/min''" by code_simp+
  have low: "ToLower uni (fmt_d n @ '''') = fmt_d n" "ToLower uni (fmt_d n @ ''mb'') = fmt_d n @ ''mb''"
    "ToLower uni (fmt_d n @ ''mb/min'') = fmt_d n @ ''mb/min''"
    "ToLower uni (fmt_d n @ ''MB/min'') = fmt_d n @ ''mb/min''"
    unfolding lower_fmt_d ml by (simp_all add: is_ascii_def)
  show ?thesis using assms(2)
    by (auto simp: memory_rate_def Let_def nosp low[simplified] mb plain TrimSuffix_append
        Atoi_fmt_d[OF assms(1)])
qed

text \<open>
  C36. The memory fault and its rate.  A rate written as a whole number, with or without its unit, is
  read as that number; the agent's process is brought down by a panic exactly if the rate is zero,
  negative, or more than 60 billion MB per minute, and otherwise one chunk is due every
  \<open>60 s / rate\<close>.
\<close>

theorem memory_fault_panics_iff:
  assumes "int64_range n" "u \<in> {'''', ''mb'', ''mb/min'', ''MB/min'', '' MB / min''}"
  shows "memory_interval uni (fmupd ''rate'' (fmt_d n @ u) ps) =
    (if n \<le> 0 \<or> 60000000000 < n then None else Some (60000000000 div n))"
proof (cases "n = 0")
  case True
  then show ?thesis using memory_rate_text[OF assms] by (simp add: memory_interval_def)
next
  case False
  have "quot64 Minute n = 60000000000 div n" if "0 < n" "n \<le> 60000000000"
  proof -
    have "0 \<le> 60000000000 div n" "60000000000 div n \<le> 60000000000"
      using div_bounds[of 60000000000 n] that by simp_all
    then show ?thesis using that by (simp add: quot64_def wrap64_id)
  qed
  with False quot64_Minute[OF False] show ?thesis
    unfolding memory_interval_def memory_rate_text[OF assms] Let_def by auto
qed

theorem memory_fault_panics_iff_witness:
  "memory_interval id (fmupd ''rate'' (fmt_d 0 @ ''mb'') fmempty) = None \<and>
   memory_interval id (fmupd ''rate'' (fmt_d 50 @ ''mb/min'') fmempty) = Some 1200000000"
  using memory_fault_panics_iff[of 0 "''mb''" id fmempty]
    memory_fault_panics_iff[of 50 "''mb/min''" id fmempty] by simp


section \<open>The disk fault ends\<close>

text \<open>From call number \<open>k\<close> on, every look at the context finds it cancelled.\<close>

definition cancelled_from :: "nat \<Rightarrow> agent_env \<Rightarrow> bool" where
  "cancelled_from k e \<longleftrightarrow> (\<forall>tr n. k \<le> length tr \<longrightarrow> is_err (e tr ACtxDone) \<and> is_err (e tr (AWaitCtx n)))"

lemma disk_full_ends:
  assumes "cancelled_from k e"
  shows "0 < n \<Longrightarrow> k < length tr + n \<Longrightarrow> fst (run_state (disk_full e p n) tr)"
proof (induction n arbitrary: tr)
  case (Suc n)
  have "is_err (e tr (AWaitCtx (500 * Millisecond)))" if "n = 0"
    using assms Suc.prems that by (simp add: cancelled_from_def)
  moreover have "fst (run_state (disk_full e p n) (tr @ [x, y]))" if "n \<noteq> 0" for x y
    using Suc.IH[of "tr @ [x, y]"] Suc.prems that by simp
  ultimately show ?case by (cases "n = 0") (auto simp: run_state_bind run_state_return)
qed simp

lemma disk_fill_ends:
  assumes "cancelled_from k e"
  shows "0 < n \<Longrightarrow> k < length tr + n \<Longrightarrow> fst (run_state (disk_fill e p n) tr)"
proof (induction n arbitrary: tr)
  case (Suc n)
  have "is_err (e tr ACtxDone)" if "n = 0"
    using assms Suc.prems that by (simp add: cancelled_from_def)
  moreover have "fst (run_state (disk_full e p n) (tr @ [x, y, z]))"
    "fst (run_state (disk_fill e p n) (tr @ [x, y, z]))" if "n \<noteq> 0" for x y z
    using Suc.IH[of "tr @ [x, y, z]"] disk_full_ends[OF assms, of n "tr @ [x, y, z]"] Suc.prems that
    by simp_all
  ultimately show ?case by (cases "n = 0") (auto simp: run_state_bind run_state_return)
qed simp

text \<open>
  C35. The disk fault ends.  If from some point on the fault's context is cancelled, the loops of the
  disk fault return within as many rounds, wherever they are: filling the disk or waiting on a full
  one.  Unless the file could not be created, the fault then closes it and removes it, as its
  last two acts.
\<close>

theorem disk_fault_ends:
  assumes "cancelled_from k e" "k < fuel"
  shows "case run_state (runDiskFault e ps fuel) [] of (returned, tr) \<Rightarrow> returned \<and>
    ((\<exists>why. tr = [(ACreate (fill_path ps), AErr why)]) \<or>
     (\<exists>before a b. tr = before @ [(AClose (fill_path ps), a), (ARemove (fill_path ps), b)]))"
proof (cases "e [] (ACreate (fill_path ps))")
  case (AErr why)
  then show ?thesis by (simp add: runDiskFault_def Let_def run_state_bind run_state_return)
next
  case (AOk x)
  let ?tr = "[(ACreate (fill_path ps), AOk x)]"
  have "fst (run_state (disk_fill e (fill_path ps) fuel) ?tr)"
    using disk_fill_ends[OF assms(1), of fuel ?tr] assms(2) by simp
  with AOk show ?thesis
    by (auto simp: runDiskFault_def Let_def run_state_bind run_state_return split_beta)
qed

definition three_rounds :: agent_env where
  "three_rounds tr c =
    (if 10 \<le> length tr \<and> (case c of ACtxDone \<Rightarrow> True | AWaitCtx n \<Rightarrow> True | _ \<Rightarrow> False)
     then AErr ''context canceled'' else AOk '''')"

theorem disk_fault_ends_witness:
  "case run_state (runDiskFault three_rounds (fmupd ''path'' ''/var'' fmempty) 11) [] of (returned, tr) \<Rightarrow>
    returned \<and> length tr = 13 \<and> fst (last tr) = ARemove ''/var/.onfire-diskfill''"
proof -
  let ?ps = "fmupd ''path'' ''/var'' fmempty"
  have c: "cancelled_from 10 three_rounds" by (simp add: cancelled_from_def three_rounds_def)
  have path: "fill_path ?ps = ''/var/.onfire-diskfill''"
    by (simp add: fill_path_def disk_path_def path_Join2_def path_Clean_def clean_step_def)
  have "length (snd (run_state (runDiskFault three_rounds ?ps 11) [])) = 13"
    by (simp add: runDiskFault_def path run_state_bind run_state_return three_rounds_def
        eval_nat_numeral Let_def)
  with disk_fault_ends[OF c, of 11 ?ps] path show ?thesis by (auto simp: split_beta)
qed


section \<open>What the process fault runs\<close>

text \<open>
  The process fault only ever stops, masks or restarts the named service: nothing it runs, now or
  later, starts or unmasks it again, also not after \<open>degrade\<close>.
\<close>

lemma process_commands:
  "emits (\<lambda>(c, r). \<exists>verb\<in>{''stop'', ''mask'', ''restart''}. c = AExec [''systemctl'', verb, param ps ''service''])
    (runProcessFault e ps)"
  unfolding runProcessFault_def stop_service_def Let_def
  by (auto intro!: emits_return emits_bind emits_perform split: agent_reply.splits)

text \<open>
  The DNS fault only ever appends to the hosts file.  It takes no context, so that nothing takes the
  line out again when the fault is stopped.
\<close>

lemma dns_only_appends:
  "emits (\<lambda>(c, r). c = AAppend ''/etc/hosts'' \<or> (\<exists>s. c = AWrite ''/etc/hosts'' s) \<or> c = AClose ''/etc/hosts'')
    (runDNSFault e ps)"
  unfolding runDNSFault_def Let_def
  by (auto intro!: emits_return emits_bind emits_perform emits_defer split: agent_reply.splits)

text \<open>The network fault takes back what it added: the root discipline of the same interface.\<close>

lemma network_cleanup_matches:
  "take 5 (tc_args ps) = [''qdisc'', ''add'', ''dev'', net_interface ps, ''root''] \<and>
   map fst (snd (run_state (network_cleanup e ps) [])) =
     [AExec [''tc'', ''qdisc'', ''del'', ''dev'', net_interface ps, ''root'']]"
  by (simp add: tc_args_def network_cleanup_def run_state_bind run_state_return Let_def)

end
