(* ===== verification/AgentState.thy ===== *)
theory AgentState
  imports Runner AgentFaults
begin

text \<open>
  The registry of running faults in \<open>src/agent/faults.go\<close> (\<open>activeFaults\<close>, \<open>startFault\<close>,
  \<open>stopFault\<close>) and the fault handlers of \<open>src/agent/main.go\<close>.

  A call of \<open>startFault\<close> holds the mutex twice at most: to register the fault, and to forget it again
  when the fault could not be started; in between it runs the fault's commands.  The timer of a
  fault with a duration is a goroutine that decides that the time is up and then calls
  \<open>stopFault\<close>.  The step relation \<open>agent_step\<close> interleaves these sections of any number of calls;
  \<open>startFault\<close> is one call run without interruption, made of the same sections.

  Every call makes a context of its own; contexts are numbered.  Stopping a fault cancels its
  context and forgets its entry, and does nothing else.  The CPU, memory, disk, file-system and network
  faults end, or are taken back, when their context is cancelled; process and DNS faults take no
  context, so what they did (a stopped service, a line in the hosts file) stays.

  Shown: as long as no fault is stopped while a start of the same ID is in progress, every context
  that is not cancelled is registered under exactly one ID, and stopping that ID cancels it.  Without
  that, a failing start can delete another start's entry, whose context can then never be cancelled.  A
  fault injected with a duration is registered with a timer for exactly that duration.
\<close>

record agent =
  activeFaults :: "(string, nat) fmap"
  contexts :: nat
  ctx_cancelled :: "nat fset"
  starting :: "(nat, AgentFaultRequest) fmap"
  failing :: "(nat, string) fmap"
  timers :: "(nat, string \<times> int) fmap"
  due :: "(nat, string) fmap"

definition agent_init :: agent where
  "agent_init = \<lparr>activeFaults = fmempty, contexts = 0, ctx_cancelled = {||}, starting = fmempty,
     failing = fmempty, timers = fmempty, due = fmempty\<rparr>"

datatype agent_error = AlreadyRunning string | UnknownFaultType string | FaultFailed string


section \<open>The sections of the calls\<close>

definition start_register :: "AgentFaultRequest \<Rightarrow> agent \<Rightarrow> agent_error option \<times> agent" where
  "start_register req st =
    (let c = contexts st; st = st\<lparr>contexts := Suc c\<rparr> in
     case fmlookup (activeFaults st) (req_ID req) of
       Some _ \<Rightarrow> (Some (AlreadyRunning (req_ID req)), st\<lparr>ctx_cancelled := finsert c (ctx_cancelled st)\<rparr>)
     | None \<Rightarrow> (None, st\<lparr>activeFaults := fmupd (req_ID req) c (activeFaults st),
                         starting := fmupd c req (starting st)\<rparr>))"

text \<open>The faults that run in a goroutine start without an error.\<close>

definition run_fault :: "agent_env \<Rightarrow> AgentFaultRequest \<Rightarrow> agent_error option agent_prog" where
  "run_fault e req =
    (let failed = map_option FaultFailed; ps = req_Params req; t = req_Type req in
     if t = ''cpu'' \<or> t = ''memory'' \<or> t = ''disk'' \<or> t = ''filesystem'' then State_Monad.return None
     else if t = ''network'' then
       State_Monad.bind (runNetworkFault e ps) (\<lambda>r. State_Monad.return (failed r))
     else if t = ''process'' then
       State_Monad.bind (runProcessFault e ps) (\<lambda>r. State_Monad.return (failed r))
     else if t = ''dns'' then
       State_Monad.bind (runDNSFault e ps) (\<lambda>r. State_Monad.return (failed r))
     else State_Monad.return (Some (UnknownFaultType t)))"

definition start_cancel :: "nat \<Rightarrow> AgentFaultRequest \<Rightarrow> agent \<Rightarrow> agent" where
  "start_cancel c req st =
    st\<lparr>ctx_cancelled := finsert c (ctx_cancelled st), starting := fmdrop c (starting st),
       failing := fmupd c (req_ID req) (failing st)\<rparr>"

definition start_forget :: "nat \<Rightarrow> string \<Rightarrow> agent \<Rightarrow> agent" where
  "start_forget c fid st =
    st\<lparr>activeFaults := fmdrop fid (activeFaults st), failing := fmdrop c (failing st)\<rparr>"

definition start_timer :: "nat \<Rightarrow> AgentFaultRequest \<Rightarrow> agent \<Rightarrow> agent" where
  "start_timer c req st =
    (let st = st\<lparr>starting := fmdrop c (starting st)\<rparr> in
     case fmlookup (req_Params req) ''duration'' of
       None \<Rightarrow> st
     | Some d \<Rightarrow>
        (case ParseDuration d of
           None \<Rightarrow> st
         | Some dur \<Rightarrow> st\<lparr>timers := fmupd c (req_ID req, dur) (timers st)\<rparr>))"

definition stopFault :: "string \<Rightarrow> agent \<Rightarrow> agent" where
  "stopFault fid st =
    (case fmlookup (activeFaults st) fid of
       None \<Rightarrow> st
     | Some c \<Rightarrow> st\<lparr>ctx_cancelled := finsert c (ctx_cancelled st),
                    activeFaults := fmdrop fid (activeFaults st)\<rparr>)"

definition startFault ::
  "agent_env \<Rightarrow> AgentFaultRequest \<Rightarrow> agent \<Rightarrow> (agent_error option \<times> agent) agent_prog" where
  "startFault e req st =
    (case start_register req st of
       (Some err, st) \<Rightarrow> State_Monad.return (Some err, st)
     | (None, st) \<Rightarrow>
        let c = contexts st - 1 in
        State_Monad.bind (run_fault e req) (\<lambda>err.
          case err of
            Some err \<Rightarrow> State_Monad.return (Some err, start_forget c (req_ID req) (start_cancel c req st))
          | None \<Rightarrow> State_Monad.return (None, start_timer c req st)))"


section \<open>The handlers\<close>

datatype agent_body = AgentText string | AgentError agent_error | AgentStatus string string

datatype agent_response = AgentResp int agent_body

text \<open>The body is what the JSON decoder yields: its error, or the request.\<close>

definition handleFaultStart ::
  "agent_env \<Rightarrow> string \<Rightarrow> string + AgentFaultRequest \<Rightarrow> agent \<Rightarrow> (agent_response \<times> agent) agent_prog" where
  "handleFaultStart e meth body st =
    (if meth \<noteq> ''POST'' then State_Monad.return (AgentResp 405 (AgentText ''POST required''), st)
     else case body of
       Inl err \<Rightarrow> State_Monad.return (AgentResp 400 (AgentText (''invalid JSON: '' @ err)), st)
     | Inr req \<Rightarrow>
        State_Monad.bind (startFault e req st) (\<lambda>(err, st).
          State_Monad.return
            (case err of
               Some err \<Rightarrow> (AgentResp 500 (AgentError err), st)
             | None \<Rightarrow> (AgentResp 200 (AgentStatus (req_ID req) ''started''), st))))"

definition handleFaultStop :: "string \<Rightarrow> string + string \<Rightarrow> agent \<Rightarrow> agent_response \<times> agent" where
  "handleFaultStop meth body st =
    (if meth \<noteq> ''POST'' then (AgentResp 405 (AgentText ''POST required''), st)
     else case body of
       Inl err \<Rightarrow> (AgentResp 400 (AgentText (''invalid JSON: '' @ err)), st)
     | Inr fid \<Rightarrow> (AgentResp 200 (AgentStatus fid ''stopped''), stopFault fid st))"


section \<open>Interleaved calls\<close>

datatype agent_event =
    Rejected AgentFaultRequest
  | Registered AgentFaultRequest
  | Succeeded nat
  | Failed nat
  | Forgotten nat
  | Stopped string
  | TimeUp nat
  | TimerStops nat
  | TimerGone nat

inductive agent_step :: "agent \<Rightarrow> agent_event \<Rightarrow> agent \<Rightarrow> bool" where
  rejected: "start_register req st = (Some err, st') \<Longrightarrow> agent_step st (Rejected req) st'"
| registered: "start_register req st = (None, st') \<Longrightarrow> agent_step st (Registered req) st'"
| succeeded: "fmlookup (starting st) c = Some req \<Longrightarrow> agent_step st (Succeeded c) (start_timer c req st)"
| failed: "fmlookup (starting st) c = Some req \<Longrightarrow> agent_step st (Failed c) (start_cancel c req st)"
| forgotten: "fmlookup (failing st) c = Some fid \<Longrightarrow> agent_step st (Forgotten c) (start_forget c fid st)"
| stopped: "agent_step st (Stopped fid) (stopFault fid st)"
| time_up: "fmlookup (timers st) c = Some (fid, dur) \<Longrightarrow>
    agent_step st (TimeUp c) (st\<lparr>timers := fmdrop c (timers st), due := fmupd c fid (due st)\<rparr>)"
| timer_stops: "fmlookup (due st) c = Some fid \<Longrightarrow>
    agent_step st (TimerStops c) (stopFault fid (st\<lparr>due := fmdrop c (due st)\<rparr>))"
| timer_gone: "c |\<in>| fmdom (timers st) \<Longrightarrow> c |\<in>| ctx_cancelled st \<Longrightarrow>
    agent_step st (TimerGone c) (st\<lparr>timers := fmdrop c (timers st)\<rparr>)"

inductive_cases agent_stepE: "agent_step st ev st'"

definition uncancelled :: "agent \<Rightarrow> nat \<Rightarrow> bool" where
  "uncancelled st c \<longleftrightarrow> c < contexts st \<and> c |\<notin>| ctx_cancelled st"

text \<open>The ID that a step stops, if it stops one, and the IDs of the starts in progress.\<close>

definition stops :: "agent \<Rightarrow> agent_event \<Rightarrow> string option" where
  "stops st ev =
    (case ev of Stopped fid \<Rightarrow> Some fid | TimerStops c \<Rightarrow> fmlookup (due st) c | _ \<Rightarrow> None)"

definition in_progress :: "agent \<Rightarrow> string \<Rightarrow> bool" where
  "in_progress st fid \<longleftrightarrow>
    (\<exists>c req. fmlookup (starting st) c = Some req \<and> req_ID req = fid) \<or>
    (\<exists>c. fmlookup (failing st) c = Some fid)"

definition calm_step :: "agent \<Rightarrow> agent_event \<Rightarrow> agent \<Rightarrow> bool" where
  "calm_step st ev st' \<longleftrightarrow> agent_step st ev st' \<and> (\<forall>fid. stops st ev = Some fid \<longrightarrow> \<not> in_progress st fid)"

section \<open>Every context can be cancelled\<close>

text \<open>The invariant of calm runs; the fields of the registry determine the contexts not cancelled.\<close>

definition agent_inv :: "agent \<Rightarrow> bool" where
  "agent_inv st \<longleftrightarrow>
    (\<forall>fid c. fmlookup (activeFaults st) fid = Some c \<longrightarrow> c < contexts st) \<and>
    (\<forall>fid fid' c. fmlookup (activeFaults st) fid = Some c \<longrightarrow>
       fmlookup (activeFaults st) fid' = Some c \<longrightarrow> fid = fid') \<and>
    (\<forall>c req. fmlookup (starting st) c = Some req \<longrightarrow>
       c |\<notin>| ctx_cancelled st \<and> fmlookup (activeFaults st) (req_ID req) = Some c) \<and>
    (\<forall>c fid. fmlookup (failing st) c = Some fid \<longrightarrow>
       c |\<in>| ctx_cancelled st \<and> fmlookup (activeFaults st) fid = Some c) \<and>
    (\<forall>fid c. fmlookup (activeFaults st) fid = Some c \<longrightarrow> c |\<in>| ctx_cancelled st \<longrightarrow>
       fmlookup (failing st) c = Some fid) \<and>
    (\<forall>c. c < contexts st \<longrightarrow> c |\<notin>| ctx_cancelled st \<longrightarrow>
       (\<exists>fid. fmlookup (activeFaults st) fid = Some c)) \<and>
    (\<forall>c. c |\<in>| ctx_cancelled st \<longrightarrow> c < contexts st)"

lemma agent_invI:
  assumes "\<And>fid c. fmlookup (activeFaults st) fid = Some c \<Longrightarrow> c < contexts st"
    and "\<And>fid fid' c. fmlookup (activeFaults st) fid = Some c \<Longrightarrow>
       fmlookup (activeFaults st) fid' = Some c \<Longrightarrow> fid = fid'"
    and "\<And>c req. fmlookup (starting st) c = Some req \<Longrightarrow>
       c |\<notin>| ctx_cancelled st \<and> fmlookup (activeFaults st) (req_ID req) = Some c"
    and "\<And>c fid. fmlookup (failing st) c = Some fid \<Longrightarrow>
       c |\<in>| ctx_cancelled st \<and> fmlookup (activeFaults st) fid = Some c"
    and "\<And>fid c. fmlookup (activeFaults st) fid = Some c \<Longrightarrow> c |\<in>| ctx_cancelled st \<Longrightarrow>
       fmlookup (failing st) c = Some fid"
    and "\<And>c. c < contexts st \<Longrightarrow> c |\<notin>| ctx_cancelled st \<Longrightarrow>
       \<exists>fid. fmlookup (activeFaults st) fid = Some c"
    and "\<And>c. c |\<in>| ctx_cancelled st \<Longrightarrow> c < contexts st"
  shows "agent_inv st"
  unfolding agent_inv_def using assms by blast

lemma agent_invD:
  assumes "agent_inv st"
  shows active_ctx: "fmlookup (activeFaults st) fid = Some c \<Longrightarrow> c < contexts st"
    and active_unique: "fmlookup (activeFaults st) fid = Some c \<Longrightarrow>
       fmlookup (activeFaults st) fid' = Some c \<Longrightarrow> fid = fid'"
    and starting_ctx: "fmlookup (starting st) c = Some req \<Longrightarrow> c |\<notin>| ctx_cancelled st"
    and starting_active: "fmlookup (starting st) c = Some req \<Longrightarrow>
       fmlookup (activeFaults st) (req_ID req) = Some c"
    and failing_ctx: "fmlookup (failing st) c = Some fid \<Longrightarrow> c |\<in>| ctx_cancelled st"
    and failing_active: "fmlookup (failing st) c = Some fid \<Longrightarrow> fmlookup (activeFaults st) fid = Some c"
    and active_failing: "fmlookup (activeFaults st) fid = Some c \<Longrightarrow> c |\<in>| ctx_cancelled st \<Longrightarrow>
       fmlookup (failing st) c = Some fid"
    and live_active: "c < contexts st \<Longrightarrow> c |\<notin>| ctx_cancelled st \<Longrightarrow>
       \<exists>fid. fmlookup (activeFaults st) fid = Some c"
    and cancelled_ctx: "c |\<in>| ctx_cancelled st \<Longrightarrow> c < contexts st"
  using assms unfolding agent_inv_def by blast+

lemma agent_inv_init: "agent_inv agent_init"
  by (rule agent_invI) (simp_all add: agent_init_def)

lemma inv_new_cancelled:
  assumes "agent_inv st"
  shows "agent_inv (st\<lparr>contexts := Suc (contexts st),
           ctx_cancelled := finsert (contexts st) (ctx_cancelled st)\<rparr>)"
proof (rule agent_invI, goal_cases)
  case (2 fid fid' c) then show ?case using active_unique[OF assms] by simp
next
  case (5 fid c) then show ?case using active_failing[OF assms] active_ctx[OF assms, of fid c] by auto
next
  case (6 c) then show ?case using live_active[OF assms, of c] by (auto simp: less_Suc_eq)
qed (use assms in \<open>auto simp: less_Suc_eq dest: agent_invD active_ctx[OF assms, OF starting_active[OF assms]]\<close>)

lemma inv_new_registered:
  assumes "agent_inv st" "fmlookup (activeFaults st) (req_ID req) = None"
  shows "agent_inv (st\<lparr>contexts := Suc (contexts st),
           activeFaults := fmupd (req_ID req) (contexts st) (activeFaults st),
           starting := fmupd (contexts st) req (starting st)\<rparr>)"
proof (rule agent_invI, goal_cases)
  case (2 fid fid' c)
  have "fmlookup (activeFaults st) x \<noteq> Some (contexts st)" for x
    using active_ctx[OF assms(1), of x "contexts st"] by blast
  then show ?case using 2 active_unique[OF assms(1)] by (auto split: if_splits)
next
  case (3 c req')
  then show ?case
    using starting_ctx[OF assms(1)] starting_active[OF assms(1), of c req'] cancelled_ctx[OF assms(1), of c] assms(2)
    by (auto split: if_splits)
next
  case (4 c fid)
  then show ?case using failing_ctx[OF assms(1)] failing_active[OF assms(1), of c fid] assms(2) by auto
next
  case (5 fid c)
  then show ?case using active_failing[OF assms(1)] cancelled_ctx[OF assms(1), of c] by (auto split: if_splits)
next
  case (6 c)
  show ?case
  proof (cases "c = contexts st")
    case False
    then obtain fid where "fmlookup (activeFaults st) fid = Some c"
      using 6 live_active[OF assms(1), of c] by auto
    then show ?thesis using assms(2) by (intro exI[of _ fid]) auto
  qed auto
qed (use assms in \<open>auto simp: less_Suc_eq split: if_splits dest: agent_invD\<close>)

lemma inv_register: "start_register req st = (err, st') \<Longrightarrow> agent_inv st \<Longrightarrow> agent_inv st'"
  using inv_new_cancelled[of st] inv_new_registered[of st req]
  by (auto simp: start_register_def Let_def split: option.splits)

text \<open>Fields that only matter to the timers, and the end of a start.\<close>

lemma inv_bookkeeping:
  "agent_inv (timers_update f st) = agent_inv st" "agent_inv (due_update g st) = agent_inv st"
  by (simp_all add: agent_inv_def)

lemma inv_timer: "agent_inv st \<Longrightarrow> agent_inv (start_timer c req st)"
proof -
  assume inv: "agent_inv st"
  have "agent_inv (st\<lparr>starting := fmdrop c (starting st)\<rparr>)"
    by (rule agent_invI) (use inv in \<open>auto split: if_splits dest: agent_invD\<close>)
  then show ?thesis unfolding start_timer_def Let_def
    by (auto split: option.splits simp: inv_bookkeeping)
qed

lemma inv_cancel:
  assumes "agent_inv st" "fmlookup (starting st) c = Some req"
  shows "agent_inv (start_cancel c req st)"
  unfolding start_cancel_def
proof (rule agent_invI, goal_cases)
  case (5 fid c')
  then show ?case using active_failing[OF assms(1), of fid c'] starting_active[OF assms]
      active_unique[OF assms(1), of fid c "req_ID req"] by auto
next
  case (2 fid fid' c') then show ?case using active_unique[OF assms(1)] by simp
qed (use assms in \<open>auto split: if_splits dest: agent_invD\<close>)

lemma inv_remove:
  assumes "agent_inv st" "\<not> in_progress (st\<lparr>failing := fmdrop c (failing st)\<rparr>) fid"
    and "fmlookup (activeFaults st) fid = Some c"
  shows "agent_inv (st\<lparr>ctx_cancelled := finsert c (ctx_cancelled st),
      activeFaults := fmdrop fid (activeFaults st), failing := fmdrop c (failing st)\<rparr>)"
proof (rule agent_invI, goal_cases)
  case (2 fid1 fid2 c') then show ?case using active_unique[OF assms(1)] by (simp split: if_splits)
next
  case (3 c' req)
  then show ?case using starting_ctx[OF assms(1)] starting_active[OF assms(1), of c' req]
      active_unique[OF assms(1,3), of "req_ID req"] assms(2) by (auto simp: in_progress_def)
next
  case (4 c' fid')
  then show ?case using failing_ctx[OF assms(1)] failing_active[OF assms(1), of c' fid'] assms(2)
    by (auto simp: in_progress_def split: if_splits)
next
  case (5 fid' c')
  then have a: "fid' \<noteq> fid" "fmlookup (activeFaults st) fid' = Some c'" by (auto split: if_splits)
  then have "c' \<noteq> c" using active_unique[OF assms(1,3), of fid'] by auto
  then show ?case using 5 active_failing[OF assms(1) a(2)] by simp
next
  case (6 c')
  then obtain fid' where a: "fmlookup (activeFaults st) fid' = Some c'"
    using live_active[OF assms(1), of c'] by auto
  have "fid' \<noteq> fid" using 6 a assms(3) by auto
  with a show ?case by (intro exI[of _ fid']) simp
next
  case (1 fid' c') then show ?case using active_ctx[OF assms(1)] by (simp split: if_splits)
next
  case (7 c') then show ?case using active_ctx[OF assms(1,3)] cancelled_ctx[OF assms(1)] by auto
qed

lemma not_failing_drop: "agent_inv st \<Longrightarrow> fmlookup (failing st) c = None \<Longrightarrow> fmdrop c (failing st) = failing st"
  by (rule fmap_ext) simp

lemma inv_forget:
  assumes "agent_inv st" "fmlookup (failing st) c = Some fid"
  shows "agent_inv (start_forget c fid st)"
proof -
  have "c' = c" if "fmlookup (starting st) c' = Some req" "req_ID req = fid" for c' req
    using starting_active[OF assms(1) that(1)] failing_active[OF assms] that(2) by simp
  moreover have "c' = c" if "fmlookup (failing st) c' = Some fid" for c'
    using failing_active[OF assms(1) that] failing_active[OF assms] by simp
  ultimately have "\<not> in_progress (st\<lparr>failing := fmdrop c (failing st)\<rparr>) fid"
    using failing_ctx[OF assms] starting_ctx[OF assms(1), of c] by (auto simp: in_progress_def split: if_splits)
  from inv_remove[OF assms(1) this failing_active[OF assms]] failing_ctx[OF assms]
  show ?thesis by (simp add: start_forget_def finsert_absorb)
qed

lemma inv_stop: "agent_inv st \<Longrightarrow> \<not> in_progress st fid \<Longrightarrow> agent_inv (stopFault fid st)"
proof -
  assume inv: "agent_inv st" and calm: "\<not> in_progress st fid"
  have "agent_inv (stopFault fid st)" if a: "fmlookup (activeFaults st) fid = Some c" for c
  proof -
    have "fmlookup (failing st) c = None"
      using calm failing_active[OF inv, of c] active_unique[OF inv a]
      by (cases "fmlookup (failing st) c") (auto simp: in_progress_def)
    then have "fmdrop c (failing st) = failing st" by (intro fmap_ext) simp
    with inv_remove[OF inv _ a] calm show ?thesis by (simp add: stopFault_def a)
  qed
  with inv show ?thesis by (cases "fmlookup (activeFaults st) fid") (auto simp: stopFault_def)
qed

lemma in_progress_due: "in_progress (due_update g st) = in_progress st"
  by (simp add: in_progress_def fun_eq_iff)

lemma calm_step_inv:
  assumes "agent_inv st" "calm_step st ev st'"
  shows "agent_inv st'"
proof -
  from assms(2) have "agent_step st ev st'" and calm: "\<And>fid. stops st ev = Some fid \<Longrightarrow> \<not> in_progress st fid"
    by (auto simp: calm_step_def)
  from this(1) show ?thesis
  proof cases
    case (stopped fid) then show ?thesis using inv_stop[OF assms(1)] calm by (simp add: stops_def)
  next
    case (timer_stops c fid)
    then show ?thesis using inv_stop[of "st\<lparr>due := fmdrop c (due st)\<rparr>" fid] calm assms(1)
      by (simp add: stops_def inv_bookkeeping in_progress_due)
  qed (use assms(1) inv_register inv_timer inv_cancel inv_forget in \<open>auto simp: inv_bookkeeping\<close>)
qed

interpretation calm: step_invariant calm_step agent_inv
  by unfold_locales (rule calm_step_inv)


text \<open>
  C15. No context is lost.  In a run in which no fault is stopped while a start of the same ID is in
  progress, every context that is not cancelled is registered under exactly one ID, and stopping that
  ID cancels it and forgets the entry; no context is registered under two.  Cancelling is all that
  stopping does: what a process or DNS fault did, which take no context, is not undone.
\<close>

theorem contexts_stay_registered:
  assumes "steps calm_step agent_init es st"
  shows "(\<forall>c. uncancelled st c \<longrightarrow> (\<exists>!fid. fmlookup (activeFaults st) fid = Some c)) \<and>
    (\<forall>fid c. fmlookup (activeFaults st) fid = Some c \<longrightarrow>
       \<not> uncancelled (stopFault fid st) c \<and> fmlookup (activeFaults (stopFault fid st)) fid = None)"
proof -
  have inv: "agent_inv st" using calm.steps_inv[OF assms agent_inv_init] .
  show ?thesis
    using live_active[OF inv] active_unique[OF inv] by (auto simp: uncancelled_def stopFault_def)
qed

definition cpu_request :: "string \<Rightarrow> AgentFaultRequest" where
  "cpu_request fid = \<lparr>req_ID = fid, req_Type = ''cpu'', req_Params = fmempty\<rparr>"

theorem contexts_stay_registered_witness:
  "\<exists>st. steps calm_step agent_init [Registered (cpu_request ''a''), Succeeded 0, Registered (cpu_request ''b'')] st \<and>
     uncancelled st 0 \<and> uncancelled st 1 \<and> \<not> uncancelled (stopFault ''a'' st) 0"
proof -
  let ?s1 = "snd (start_register (cpu_request ''a'') agent_init)"
  let ?s2 = "start_timer 0 (cpu_request ''a'') ?s1"
  let ?s3 = "snd (start_register (cpu_request ''b'') ?s2)"
  have defs: "start_register (cpu_request ''a'') agent_init = (None, ?s1)"
    "start_register (cpu_request ''b'') ?s2 = (None, ?s3)" "fmlookup (starting ?s1) 0 = Some (cpu_request ''a'')"
    by (simp_all add: start_register_def start_timer_def agent_init_def cpu_request_def Let_def)
  have s1: "calm_step agent_init (Registered (cpu_request ''a'')) ?s1"
    and s2: "calm_step ?s1 (Succeeded 0) ?s2"
    and s3: "calm_step ?s2 (Registered (cpu_request ''b'')) ?s3"
    using registered[OF defs(1)] succeeded[OF defs(3)] registered[OF defs(2)]
    by (simp_all add: calm_step_def stops_def)
  have run: "steps calm_step agent_init [Registered (cpu_request ''a''), Succeeded 0, Registered (cpu_request ''b'')] ?s3"
    by (rule steps_Cons, rule s1, rule steps_Cons, rule s2, rule steps_Cons, rule s3, rule steps_Nil)
  have "uncancelled ?s3 0" "uncancelled ?s3 1" "fmlookup (activeFaults ?s3) ''a'' = Some 0"
    by (simp_all add: uncancelled_def start_register_def start_timer_def agent_init_def cpu_request_def Let_def)
  with run contexts_stay_registered[OF run] show ?thesis by blast
qed

section \<open>A fault that cannot be stopped\<close>

text \<open>A context, not cancelled, that no entry names and that no start in progress would cancel.\<close>

definition orphan :: "agent \<Rightarrow> nat \<Rightarrow> bool" where
  "orphan st c \<longleftrightarrow> uncancelled st c \<and> c |\<notin>| fmdom (starting st) \<and>
    (\<forall>fid. fmlookup (activeFaults st) fid \<noteq> Some c)"

lemma orphan_stop: "orphan st c \<Longrightarrow> orphan (stopFault fid st) c"
  by (auto simp: orphan_def uncancelled_def stopFault_def split: option.splits if_splits)

lemma orphan_step: "agent_step st ev st' \<Longrightarrow> orphan st c \<Longrightarrow> orphan st' c"
proof (induction rule: agent_step.induct)
  case (rejected req st err st')
  then show ?case by (auto simp: start_register_def orphan_def uncancelled_def Let_def split: option.splits)
next
  case (registered req st st')
  then show ?case by (auto simp: start_register_def orphan_def uncancelled_def Let_def split: option.splits if_splits)
next
  case (succeeded st c req)
  then show ?case by (auto simp: start_timer_def orphan_def uncancelled_def Let_def split: option.splits)
next
  case (failed st c' req)
  then have "c' |\<in>| fmdom (starting st)" by (simp add: fmdomI)
  with failed show ?case by (auto simp: start_cancel_def orphan_def uncancelled_def)
next
  case (timer_stops st c' fid)
  have "orphan (st\<lparr>due := fmdrop c' (due st)\<rparr>) c" using timer_stops by (simp add: orphan_def uncancelled_def)
  then show ?case by (rule orphan_stop)
next
  case (stopped st fid)
  then show ?case by (rule orphan_stop)
qed (auto simp: start_forget_def orphan_def uncancelled_def split: if_splits)

interpretation orphan: step_invariant agent_step "\<lambda>st. orphan st c" for c
  by unfold_locales (rule orphan_step)

text \<open>The race: a failing start, stopped and started anew before it forgets its entry.\<close>

definition dns_request :: "string \<Rightarrow> AgentFaultRequest" where
  "dns_request fid = \<lparr>req_ID = fid, req_Type = ''dns'', req_Params = fmempty\<rparr>"

definition race :: "agent_event list" where
  "race = [Registered (dns_request ''f''), Failed 0, Stopped ''f'', Registered (cpu_request ''f''),
     Succeeded 1, Forgotten 0]"

lemma race_run:
  "\<exists>st. steps agent_step agent_init race st \<and> orphan st 1"
proof -
  let ?d = "dns_request ''f''" and ?c = "cpu_request ''f''"
  let ?s1 = "snd (start_register ?d agent_init)"
  let ?s2 = "start_cancel 0 ?d ?s1"
  let ?s3 = "stopFault ''f'' ?s2"
  let ?s4 = "snd (start_register ?c ?s3)"
  let ?s5 = "start_timer 1 ?c ?s4"
  let ?s6 = "start_forget 0 ''f'' ?s5"
  note d = start_register_def start_cancel_def start_timer_def start_forget_def stopFault_def
    agent_init_def cpu_request_def dns_request_def Let_def
  have 1: "agent_step agent_init (Registered ?d) ?s1" by (rule registered) (simp add: d)
  have 2: "agent_step ?s1 (Failed 0) ?s2" by (rule failed) (simp add: d)
  have 3: "agent_step ?s2 (Stopped ''f'') ?s3" by (rule stopped)
  have 4: "agent_step ?s3 (Registered ?c) ?s4" by (rule registered) (simp add: d)
  have 5: "agent_step ?s4 (Succeeded 1) ?s5" by (rule succeeded) (simp add: d)
  have 6: "agent_step ?s5 (Forgotten 0) ?s6" by (rule forgotten) (simp add: d)
  have "steps agent_step agent_init race ?s6"
    unfolding race_def by (rule steps_Cons, rule 1, rule steps_Cons, rule 2, rule steps_Cons, rule 3,
        rule steps_Cons, rule 4, rule steps_Cons, rule 5, rule steps_Cons, rule 6, rule steps_Nil)
  moreover have "orphan ?s6 1" by (simp add: orphan_def uncancelled_def d)
  ultimately show ?thesis by blast
qed

text \<open>
  C26. A fault that can never be stopped.  A start that fails forgets the entry of its ID, also when
  that entry is by then the one of a newer start: after such a run the newer fault goes on, and
  no further call of the agent, by whatever client or timer, cancels it.
\<close>

theorem agent_loses_fault:
  "\<exists>st. steps agent_step agent_init race st \<and>
    (\<forall>es st'. \<not> (steps agent_step st es st' \<and> \<not> uncancelled st' 1))"
proof -
  obtain st where st: "steps agent_step agent_init race st" "orphan st 1" using race_run by blast
  have "orphan st' 1" if "steps agent_step st es st'" for es st'
    using orphan.steps_inv[OF that st(2)] .
  then show ?thesis using st(1) by (auto simp: orphan_def)
qed

section \<open>One call, run through\<close>

text \<open>Run without interruption, a start is a sequence of steps of the agent, all of them calm.\<close>

lemma startFault_steps:
  assumes "run_state (startFault e req st) tr = ((err, st'), tr')" "agent_inv st"
    and "\<not> in_progress st (req_ID req)"
  shows "\<exists>es. steps calm_step st es st'"
proof (cases "start_register req st")
  case (Pair rejected st1)
  note inv1 = inv_register[OF Pair assms(2)]
  show ?thesis
  proof (cases rejected)
    case (Some why)
    with assms(1) Pair have "st' = st1" by (simp add: startFault_def run_state_return)
    with Pair Some agent_step.rejected[of req st why st1] show ?thesis
      by (intro exI[of _ "[Rejected req]"]) (simp add: steps_Cons_iff calm_step_def stops_def)
  next
    case None
    let ?c = "contexts st"
    have c: "contexts st1 - 1 = ?c" "fmlookup (starting st1) ?c = Some req"
      using Pair None by (auto simp: start_register_def Let_def split: option.splits)
    have 1: "calm_step st (Registered req) st1"
      using Pair None agent_step.registered[of req st st1] by (simp add: calm_step_def stops_def)
    show ?thesis
    proof (cases err)
      case None
      then have "st' = start_timer ?c req st1"
        using assms(1) Pair \<open>rejected = None\<close> c
        by (auto simp: startFault_def run_state_bind run_state_return Let_def split: prod.splits option.splits)
      then have "calm_step st1 (Succeeded ?c) st'"
        using agent_step.succeeded[OF c(2)] by (simp add: calm_step_def stops_def)
      with 1 show ?thesis by (intro exI[of _ "[Registered req, Succeeded ?c]"]) (auto simp: steps_Cons_iff)
    next
      case (Some why)
      let ?st2 = "start_cancel ?c req st1"
      have "st' = start_forget ?c (req_ID req) ?st2"
        using assms(1) Pair \<open>rejected = None\<close> c Some
        by (auto simp: startFault_def run_state_bind run_state_return Let_def split: prod.splits option.splits)
      moreover have "fmlookup (failing ?st2) ?c = Some (req_ID req)" by (simp add: start_cancel_def)
      ultimately have "calm_step ?st2 (Forgotten ?c) st'"
        using agent_step.forgotten[of ?st2 ?c "req_ID req"] by (simp add: calm_step_def stops_def)
      moreover have "calm_step st1 (Failed ?c) ?st2"
        using agent_step.failed[OF c(2)] by (simp add: calm_step_def stops_def)
      ultimately show ?thesis using 1
        by (intro exI[of _ "[Registered req, Failed ?c, Forgotten ?c]"]) (auto simp: steps_Cons_iff)
    qed
  qed
qed

text \<open>
  A fault with a duration stops by itself.  The request the runner makes of a fault with a
  duration, started on an agent where that ID is free, and started successfully, leaves the fault
  running under its ID with a timer for exactly that duration, if the duration parses, and without
  one otherwise; the timer's call stops it.
\<close>

theorem fault_duration_reaches_timer:
  assumes "fault_Duration f \<noteq> ''''" "fmlookup (activeFaults st) (fault_ID f) = None"
    and "contexts st |\<notin>| ctx_cancelled st" "contexts st |\<notin>| fmdom (timers st)"
    and "run_state (startFault e (fault_request f) st) tr = ((None, st'), tr')"
  shows "uncancelled st' (contexts st) \<and> fmlookup (activeFaults st') (fault_ID f) = Some (contexts st) \<and>
    fmlookup (timers st') (contexts st) = map_option (\<lambda>d. (fault_ID f, d)) (ParseDuration (fault_Duration f)) \<and>
    \<not> uncancelled (stopFault (fault_ID f) st') (contexts st)"
proof -
  let ?c = "contexts st" and ?req = "fault_request f"
  let ?st1 = "st\<lparr>contexts := Suc ?c, activeFaults := fmupd (fault_ID f) ?c (activeFaults st),
    starting := fmupd ?c ?req (starting st)\<rparr>"
  have reg: "start_register ?req st = (None, ?st1)"
    using assms(2) by (simp add: start_register_def Let_def fault_request_def)
  have st': "st' = start_timer ?c ?req ?st1"
    using assms(5) reg
    by (auto simp: startFault_def run_state_bind run_state_return Let_def split: prod.splits option.splits)
  have dur: "fmlookup (req_Params ?req) ''duration'' = Some (fault_Duration f)" "req_ID ?req = fault_ID f"
    using assms(1) by (simp_all add: fault_request_def)
  show ?thesis
    unfolding st' start_timer_def Let_def dur uncancelled_def stopFault_def using assms(3,4)
    by (auto split: option.splits simp: fmdom_notD)
qed

definition slow_disk :: Fault where
  "slow_disk = sample_fault\<lparr>fault_ID := ''d1'', fault_Type := ''disk'', fault_Duration := ''90s''\<rparr>"

theorem fault_duration_reaches_timer_witness:
  "\<exists>st' tr'. run_state (startFault (\<lambda>_ _. AOk '''') (fault_request slow_disk) agent_init) [] = ((None, st'), tr') \<and>
     fmlookup (timers st') 0 = Some (''d1'', 90000000000)"
proof -
  let ?p = "startFault (\<lambda>_ _. AOk '''') (fault_request slow_disk) agent_init"
  have none: "fst (fst (run_state ?p [])) = None"
    by (simp add: startFault_def start_register_def agent_init_def run_fault_def fault_request_def
        slow_disk_def run_state_bind run_state_return Let_def)
  obtain x tr' where "run_state ?p [] = (x, tr')" by (rule prod.exhaust)
  moreover obtain err st' where "x = (err, st')" by (rule prod.exhaust)
  ultimately have run: "run_state ?p [] = ((None, st'), tr')" using none by (simp only: fst_conv)
  have dur: "fault_Duration slow_disk = ''90s''" "fault_ID slow_disk = ''d1''"
    by (simp_all add: slow_disk_def)
  have "unit_of ''s'' = Some 1000000000" "show_base 10 90 = ''90''"
    by (simp_all add: unit_of_def show_base.simps digit_table_def)
  then have parse: "ParseDuration ''90s'' = Some 90000000000"
    using ParseDuration_whole[of "''s''" 1000000000 90] by simp
  have fresh: "fmlookup (activeFaults agent_init) (fault_ID slow_disk) = None" "contexts agent_init = 0"
    "contexts agent_init |\<notin>| ctx_cancelled agent_init" "contexts agent_init |\<notin>| fmdom (timers agent_init)"
    by (simp_all add: agent_init_def)
  have "fmlookup (timers st') 0 = Some (''d1'', 90000000000)"
    using fault_duration_reaches_timer[OF _ fresh(1,3,4) run, unfolded dur parse fresh(2)] by simp
  with run show ?thesis by blast
qed

end
