(* ===== verification/AgentMetrics.thy ===== *)
theory AgentMetrics
  imports AgentFaults GoParseFloat
begin

text \<open>
  What the agent measures, \<open>src/agent/metrics.go\<close>: memory from \<open>/proc/meminfo\<close>, disk from
  \<open>statfs\<close>, load from \<open>/proc/loadavg\<close>, the state of services from \<open>systemctl\<close>.  The contents of
  the files are arguments, \<open>None\<close> if the file cannot be read; 64-bit unsigned arithmetic wraps.

  Shown: a file of the kernel's format is read correctly; the percentages the objectives are judged
  by lie between 0 and 100 as long as no more is available than there is; the memory fault pauses
  exactly when the reported percentage has reached its ceiling.
\<close>

section \<open>Reading files\<close>

text \<open>
  \<open>bufio.Scanner\<close>: lines without their line ends; a carriage return before the end is dropped; a
  line of 64 KiB or more ends the scan.
\<close>

definition drop_cr :: "string \<Rightarrow> string" where
  "drop_cr l = (if l \<noteq> [] \<and> last l = CHR 0x0D then butlast l else l)"

definition scan_lines :: "string \<Rightarrow> string list" where
  "scan_lines s =
    (let ls = Split (CHR 0x0A) s; ls = (if last ls = [] then butlast ls else ls)
     in map drop_cr (takeWhile (\<lambda>l. length l < 65536) ls))"

definition meminfo_line :: "string \<Rightarrow> nat \<times> nat \<Rightarrow> nat \<times> nat" where
  "meminfo_line line = (\<lambda>(total, available).
    let fields = Fields line in
    if length fields < 2 then (total, available)
    else let val = ParseUint (fields ! 1) in
      if fields ! 0 = ''MemTotal:'' then (val, available)
      else if fields ! 0 = ''MemAvailable:'' then (total, val)
      else (total, available))"

definition readMemInfo :: "string option \<Rightarrow> (nat \<times> nat) option" where
  "readMemInfo meminfo = map_option (\<lambda>s. fold meminfo_line (scan_lines s) (0, 0)) meminfo"

fun cpu_stat :: "string list \<Rightarrow> nat list option" where
  "cpu_stat [] = None"
| "cpu_stat (line # ls) =
    (if \<not> HasPrefix line ''cpu '' then cpu_stat ls
     else Some (map ParseUint (drop 1 (Fields line))))"

definition readCPUStat :: "string option \<Rightarrow> nat list option" where
  "readCPUStat stat = Option.bind stat (\<lambda>s. cpu_stat (scan_lines s))"

text \<open>The value, and whether there was an error.\<close>

definition readCPUPercent :: "string option \<Rightarrow> f64 \<times> bool" where
  "readCPUPercent stat =
    (case readCPUStat stat of None \<Rightarrow> (Fin 0, True) | Some _ \<Rightarrow> (Fin 0, False))"

text \<open>\<open>ParseFloat\<close> with its error dropped: 0 for a malformed number, an infinity if out of range.\<close>

definition ParseFloat_value :: "string \<Rightarrow> f64" where
  "ParseFloat_value s =
    (case split_sign s of (neg, t) \<Rightarrow>
      if map ascii_lower t \<in> {''inf'', ''infinity''} then Inf neg
      else if map ascii_lower s = ''nan'' then NaN
      else if CHR ''_'' \<in> set s \<and> \<not> underscoreOK s then Fin 0
      else case read_exact t of None \<Rightarrow> Fin 0 | Some x \<Rightarrow> rnd (if neg then - x else x))"


section \<open>The snapshot\<close>

record Metrics =
  CPUPct :: f64
  MemUsedMB :: f64
  MemTotalMB :: f64
  MemUsedPct :: f64
  DiskUsedPct :: f64
  DiskFreeMB :: f64
  LoadAvg1 :: f64

definition wrapu64 :: "int \<Rightarrow> int" where
  "wrapu64 i = i mod 2 ^ 64"

lemma wrapu64_id: "0 \<le> i \<Longrightarrow> i < 2 ^ 64 \<Longrightarrow> wrapu64 i = i"
  by (simp add: wrapu64_def)

definition percent :: "int \<Rightarrow> int \<Rightarrow> f64" where
  "percent used whole = f64_mul (f64_div (f64_of_int used) (f64_of_int whole)) (Fin 100)"

definition memory_metrics :: "(nat \<times> nat) option \<Rightarrow> Metrics \<Rightarrow> Metrics" where
  "memory_metrics mem m =
    (case mem of
       None \<Rightarrow> m
     | Some (memTotal, memAvail) \<Rightarrow>
        let used = wrapu64 (int memTotal - int memAvail);
            m = m\<lparr>MemTotalMB := f64_div (f64_of_int (int memTotal)) (Fin 1024),
                  MemUsedMB := f64_div (f64_of_int used) (Fin 1024)\<rparr>
        in if 0 < memTotal then m\<lparr>MemUsedPct := percent used (int memTotal)\<rparr> else m)"

record statfs =
  Blocks :: nat
  Bfree :: nat
  Bsize :: int

definition disk_metrics :: "statfs option \<Rightarrow> Metrics \<Rightarrow> Metrics" where
  "disk_metrics stat m =
    (case stat of
       None \<Rightarrow> m
     | Some s \<Rightarrow>
        let total = wrapu64 (int (Blocks s) * wrapu64 (Bsize s));
            free = wrapu64 (int (Bfree s) * wrapu64 (Bsize s));
            used = wrapu64 (total - free);
            m = m\<lparr>DiskFreeMB := f64_div (f64_div (f64_of_int free) (Fin 1024)) (Fin 1024)\<rparr>
        in if 0 < total then m\<lparr>DiskUsedPct := percent used total\<rparr> else m)"

definition load_metrics :: "string option \<Rightarrow> Metrics \<Rightarrow> Metrics" where
  "load_metrics loadavg m =
    (case loadavg of
       None \<Rightarrow> m
     | Some data \<Rightarrow>
        let fields = Fields data in
        if 1 \<le> length fields then m\<lparr>LoadAvg1 := ParseFloat_value (fields ! 0)\<rparr> else m)"

definition collectMetrics ::
  "string option \<Rightarrow> statfs option \<Rightarrow> string option \<Rightarrow> string option \<Rightarrow> Metrics" where
  "collectMetrics meminfo stat loadavg cpustat =
    (let m = \<lparr>CPUPct = Fin 0, MemUsedMB = Fin 0, MemTotalMB = Fin 0, MemUsedPct = Fin 0,
              DiskUsedPct = Fin 0, DiskFreeMB = Fin 0, LoadAvg1 = Fin 0\<rparr>;
         m = memory_metrics (readMemInfo meminfo) m;
         m = disk_metrics stat m;
         m = load_metrics loadavg m
     in m\<lparr>CPUPct := fst (readCPUPercent cpustat)\<rparr>)"


section \<open>Services\<close>

definition candidates :: "string list" where
  "candidates =
    [''ssh'', ''sshd'', ''nginx'', ''apache2'', ''mysql'', ''postgresql'',
     ''postgres'', ''redis'', ''redis-server'', ''app-server'', ''celery'',
     ''onfire-agent'']"

record ServiceStatus =
  Name :: string
  Active :: bool

definition IsServiceActive :: "agent_env \<Rightarrow> string \<Rightarrow> bool agent_prog" where
  "IsServiceActive e name =
    State_Monad.bind (perform e (AExec [''systemctl'', ''is-active'', ''--quiet'', name]))
      (\<lambda>r. State_Monad.return (\<not> is_err r))"

fun list_services :: "agent_env \<Rightarrow> string list \<Rightarrow> ServiceStatus list \<Rightarrow> ServiceStatus list agent_prog" where
  "list_services e [] res = State_Monad.return res"
| "list_services e (name # names) res =
    State_Monad.bind (perform e (AExec [''systemctl'', ''is-active'', ''--quiet'', name])) (\<lambda>r.
      list_services e names (res @ [\<lparr>Name = name, Active = \<not> is_err r\<rparr>]))"

definition listServices :: "agent_env \<Rightarrow> ServiceStatus list agent_prog" where
  "listServices e = list_services e candidates []"


section \<open>The routes of the agent\<close>

text \<open>\<open>src/agent/main.go\<close>; the fault handlers are with the registry of faults.\<close>

datatype agent_route = AHealth | AMetrics | AServices | AStart | AStop

definition agent_routes :: "(string \<times> agent_route) list" where
  "agent_routes =
    [(''/health'', AHealth), (''/metrics'', AMetrics), (''/services'', AServices),
     (''/fault/start'', AStart), (''/fault/stop'', AStop)]"

definition handleHealth :: "int \<times> (string \<times> bool) list" where
  "handleHealth = (200, [(''ok'', True)])"

text \<open>\<open>collectMetrics\<close> never returns an error.\<close>

definition handleMetrics ::
  "string option \<Rightarrow> statfs option \<Rightarrow> string option \<Rightarrow> string option \<Rightarrow> int \<times> Metrics" where
  "handleMetrics meminfo stat loadavg cpustat = (200, collectMetrics meminfo stat loadavg cpustat)"

definition handleServices :: "agent_env \<Rightarrow> (int \<times> ServiceStatus list) agent_prog" where
  "handleServices e = State_Monad.bind (listServices e) (\<lambda>ss. State_Monad.return (200, ss))"

text \<open>The paths the scenario runner posts to and reads from are served.\<close>

lemma agent_paths:
  "mux_route agent_routes ''/metrics'' = Routed AMetrics" "mux_route agent_routes ''/services'' = Routed AServices"
  "mux_route agent_routes ''/fault/start'' = Routed AStart" "mux_route agent_routes ''/fault/stop'' = Routed AStop"
proof -
  have c: "cleanPath (CHR ''/'' # Join cs ''/'') = CHR ''/'' # Join cs ''/''"
    if "cs \<in> {[''metrics''], [''services''], [''fault'', ''start''], [''fault'', ''stop'']}" for cs
    using that by (intro cleanPath_plain) (auto simp: plain_component_def)
  show "mux_route agent_routes ''/metrics'' = Routed AMetrics" "mux_route agent_routes ''/services'' = Routed AServices"
    "mux_route agent_routes ''/fault/start'' = Routed AStart" "mux_route agent_routes ''/fault/stop'' = Routed AStop"
    using c[of "[''metrics'']"] c[of "[''services'']"] c[of "[''fault'', ''start'']"] c[of "[''fault'', ''stop'']"]
    by (simp_all add: mux_route_def mux_find_def agent_routes_def mux_match_def HasSuffix_def)
qed


section \<open>The percentages\<close>

lemma rnd_pos_positive_int: "0 < i \<Longrightarrow> 1 \<le> rnd_pos (of_int i)"
  using rnd_pos_mono[of 1 "of_int i"] rnd_pos_small_int[of 1] by simp

lemma f64_of_u64:
  assumes "0 \<le> i" "i < 2 ^ 64"
  shows "f64_of_int i = Fin (rnd_pos (of_int i))"
proof -
  have "(of_int i :: rat) \<le> of_int (2 ^ 64)" using assms(2) by (simp only: of_int_le_iff)
  then have "rnd_pos (of_int i) \<le> 2 ^ 64" using rnd_pos_le_pow2[of "of_int i" 64] assms(1) by simp
  also have "(2::rat) ^ 64 < 2 ^ 1024" by (rule power_strict_increasing) simp_all
  finally show ?thesis unfolding f64_of_int_def using assms(1) by (intro rnd_nonneg_eq) simp_all
qed

lemma small_lt_max: "x \<le> 100 \<Longrightarrow> (x::rat) < 2 ^ 1024"
proof -
  have "(100::rat) < 2 ^ 7" by simp
  also have "(2::rat) ^ 7 < 2 ^ 1024" by (rule power_strict_increasing) simp_all
  finally show "x \<le> 100 \<Longrightarrow> x < 2 ^ 1024" by simp
qed

lemma percent_bounds:
  assumes "0 \<le> used" "used \<le> whole" "0 < whole" "whole < 2 ^ 64"
  shows "\<exists>p. percent used whole = Fin p \<and> 0 \<le> p \<and> p \<le> 100"
proof -
  let ?u = "rnd_pos (of_int used)" and ?t = "rnd_pos (of_int whole)"
  have t: "1 \<le> ?t" using assms(3) by (rule rnd_pos_positive_int)
  have u: "0 \<le> ?u" "?u \<le> ?t"
    using assms rnd_pos_nonneg[of "of_int used"] rnd_pos_mono[of "of_int used" "of_int whole"] by simp_all
  let ?q = "rnd_pos (?u / ?t)"
  have "0 \<le> ?u / ?t" "?u / ?t \<le> 1" using t u by (simp_all add: divide_le_eq)
  then have q: "0 \<le> ?q" "?q \<le> 1"
    using rnd_pos_nonneg rnd_pos_le_int[of "?u / ?t" 1] by simp_all
  then have q1: "rnd (?u / ?t) = Fin ?q"
    using \<open>0 \<le> ?u / ?t\<close> by (intro rnd_nonneg_eq small_lt_max) simp_all
  let ?p = "rnd_pos (?q * 100)"
  have p: "0 \<le> ?p" "?p \<le> 100"
    using q rnd_pos_nonneg[of "?q * 100"] rnd_pos_le_int[of "?q * 100" 100] by simp_all
  then have "rnd (?q * 100) = Fin ?p" using q by (intro rnd_nonneg_eq small_lt_max) simp_all
  with p q1 t f64_of_u64[of used] f64_of_u64[of whole] assms show ?thesis
    by (simp add: percent_def)
qed

text \<open>
  C38. The percentages.  Provided the kernel reports no more memory available, and no more blocks
  free, than there are, and the file system's size in bytes fits 64 bits, the reported percentages are
  finite and between 0 and 100.
\<close>

theorem percentages_bounded:
  assumes "\<And>t a. readMemInfo meminfo = Some (t, a) \<Longrightarrow> a \<le> t \<and> t < 2 ^ 64"
    and "\<And>s. stat = Some s \<Longrightarrow> Bfree s \<le> Blocks s \<and> 0 \<le> Bsize s \<and> int (Blocks s) * Bsize s < 2 ^ 64"
  shows "\<exists>p q. MemUsedPct (collectMetrics meminfo stat loadavg cpustat) = Fin p \<and> 0 \<le> p \<and> p \<le> 100 \<and>
    DiskUsedPct (collectMetrics meminfo stat loadavg cpustat) = Fin q \<and> 0 \<le> q \<and> q \<le> 100"
proof -
  let ?ok = "\<lambda>x. \<exists>p. x = Fin p \<and> 0 \<le> p \<and> p \<le> 100"
  have zero: "?ok (Fin 0)" by simp
  have keep: "MemUsedPct (disk_metrics stat m) = MemUsedPct m"
    "MemUsedPct (load_metrics loadavg m) = MemUsedPct m" "DiskUsedPct (load_metrics loadavg m) = DiskUsedPct m"
    "DiskUsedPct (memory_metrics mem m) = DiskUsedPct m" for m mem
    by (auto simp: disk_metrics_def load_metrics_def memory_metrics_def Let_def split: option.splits)
  have mem: "?ok (MemUsedPct (memory_metrics (readMemInfo meminfo) m))" if "?ok (MemUsedPct m)" for m
  proof (cases "readMemInfo meminfo")
    case (Some ta)
    obtain t a where [simp]: "ta = (t, a)" by (cases ta)
    have "a \<le> t" "t < 2 ^ 64" using assms(1)[of t a] Some by auto
    then have "wrapu64 (int t - int a) = int t - int a" "int t < 2 ^ 64"
      by (simp_all add: wrapu64_def)
    then show ?thesis using that \<open>a \<le> t\<close> percent_bounds[of "int t - int a" "int t"]
      by (auto simp: memory_metrics_def Some Let_def)
  qed (use that in \<open>simp add: memory_metrics_def\<close>)
  have disk: "?ok (DiskUsedPct (disk_metrics stat m))" if "?ok (DiskUsedPct m)" for m
  proof (cases stat)
    case (Some s)
    let ?t = "int (Blocks s) * Bsize s" and ?f = "int (Bfree s) * Bsize s"
    have s: "Bfree s \<le> Blocks s" "0 \<le> Bsize s" "?t < 2 ^ 64" using assms(2)[OF Some] by auto
    have f: "0 \<le> ?f" "?f \<le> ?t" using s by (simp_all add: mult_right_mono)
    have wrapped: "wrapu64 (int n * wrapu64 (Bsize s)) = wrapu64 (int n * Bsize s)" for n
      unfolding wrapu64_def by (rule mod_mult_right_eq)
    have "wrapu64 ?t = ?t" "wrapu64 ?f = ?f" "wrapu64 (?t - ?f) = ?t - ?f"
      by (rule wrapu64_id; use s f in linarith)+
    then show ?thesis using that f s(3) percent_bounds[of "?t - ?f" ?t]
      by (auto simp: disk_metrics_def Some Let_def wrapped)
  qed (use that in \<open>simp add: disk_metrics_def\<close>)
  have "?ok (MemUsedPct (collectMetrics meminfo stat loadavg cpustat))"
    "?ok (DiskUsedPct (collectMetrics meminfo stat loadavg cpustat))"
    unfolding collectMetrics_def Let_def by (simp_all add: keep mem disk)
  then show ?thesis by blast
qed

section \<open>The kernel's format\<close>

text \<open>
  A row of \<open>/proc/meminfo\<close>: a name, blanks, a number, and for most rows the unit (the counts of huge
  pages have none).
\<close>

type_synonym meminfo_row = "string \<times> nat \<times> nat \<times> bool"

definition row_text :: "meminfo_row \<Rightarrow> string" where
  "row_text = (\<lambda>(k, pad, n, unit).
    k @ '':'' @ replicate (Suc pad) (CHR '' '') @ show_base 10 n @ (if unit then '' kB'' else ''''))"

definition meminfo_text :: "meminfo_row list \<Rightarrow> string" where
  "meminfo_text rows = concat (map (\<lambda>r. row_text r @ nl) rows)"

definition row_ok :: "meminfo_row \<Rightarrow> bool" where
  "row_ok = (\<lambda>(k, pad, n, unit). list_all graphic k \<and> n < 2 ^ 64 \<and> length (row_text (k, pad, n, unit)) < 65536)"

definition rows_map :: "meminfo_row list \<Rightarrow> string \<rightharpoonup> nat" where
  "rows_map rows = map_of (map (\<lambda>(k, pad, n, unit). (k, n)) (rev rows))"

lemma graphic_no_line_end: "list_all graphic w \<Longrightarrow> CHR 0x0A \<notin> set w \<and> CHR 0x0D \<notin> set w"
  by (auto simp: list_all_iff graphic_def)

lemma graphic_decimal: "list_all graphic (show_base 10 n)"
  using show_dec_digits graphic_digit by (auto simp: list_all_iff)

lemma decimal_last: "last (show_base 10 n) \<noteq> CHR 0x0D"
  using graphic_no_line_end[OF graphic_decimal, of n] last_in_set[OF show_base_nonempty, of 10 n] by metis

lemma scan_meminfo:
  assumes "list_all row_ok rows"
  shows "scan_lines (meminfo_text rows) = map row_text rows"
proof -
  have no_nl: "CHR 0x0A \<notin> set (row_text r) \<and> drop_cr (row_text r) = row_text r \<and> length (row_text r) < 65536"
    if "row_ok r" for r
    using that graphic_no_line_end[OF graphic_decimal] graphic_no_line_end decimal_last
    by (cases r) (auto simp: row_ok_def row_text_def drop_cr_def)
  have split: "Split (CHR 0x0A) (meminfo_text rows) = map row_text rows @ [[]]"
    using assms by (induction rows) (auto simp: meminfo_text_def Split_append_sep no_nl)
  have kept: "takeWhile (\<lambda>l. length l < 65536) (map row_text rows) = map row_text rows"
    "map drop_cr (map row_text rows) = map row_text rows"
    using assms no_nl by (auto simp: takeWhile_eq_all_conv list_all_iff)
  show ?thesis unfolding scan_lines_def Let_def split by (simp only: butlast_snoc last_snoc simp_thms if_True kept)
qed

lemma Fields_row:
  assumes "row_ok (k, pad, n, unit)"
  shows "Fields (row_text (k, pad, n, unit)) = (k @ '':'') # show_base 10 n # (if unit then [''kB''] else [])"
proof -
  let ?u = "if unit then '' kB'' else ''''"
  have "list_all graphic (k @ '':'')" using assms by (simp add: row_ok_def graphic_def)
  from Fields_word[OF _ this, of "replicate pad (CHR '' '') @ show_base 10 n @ ?u"]
  have "Fields (row_text (k, pad, n, unit)) = (k @ '':'') # Fields (show_base 10 n @ ?u)"
    by (simp add: row_text_def Fields_spaces)
  also have "Fields (show_base 10 n @ ?u) = show_base 10 n # (if unit then [''kB''] else [])"
    using Fields_word[OF show_base_nonempty graphic_decimal, of n "''kB''"] Fields_last[of "''kB''"]
      Fields_last[OF show_base_nonempty graphic_decimal]
    by (simp add: graphic_def)
  finally show ?thesis .
qed

lemma ParseUint_show: "n < 2 ^ 64 \<Longrightarrow> ParseUint (show_base 10 n) = n"
  using show_dec_digits by (auto simp: ParseUint_def read_show_base list_all_iff)

lemma meminfo_rows:
  "list_all row_ok rows \<Longrightarrow> fold meminfo_line (map row_text rows) (t, a) =
    (case rows_map rows ''MemTotal'' of None \<Rightarrow> t | Some n \<Rightarrow> n,
     case rows_map rows ''MemAvailable'' of None \<Rightarrow> a | Some n \<Rightarrow> n)"
proof (induction rows arbitrary: t a rule: rev_induct)
  case (snoc r rows)
  obtain k pad n unit where r [simp]: "r = (k, pad, n, unit)" by (cases r)
  have ok: "row_ok (k, pad, n, unit)" "n < 2 ^ 64" using snoc.prems by (auto simp: row_ok_def)
  have key: "k @ '':'' = ''MemTotal:'' \<longleftrightarrow> k = ''MemTotal''" "k @ '':'' = ''MemAvailable:'' \<longleftrightarrow> k = ''MemAvailable''"
    using append_same_eq[of k "'':''" "''MemTotal''"] append_same_eq[of k "'':''" "''MemAvailable''"] by simp_all
  show ?case using snoc
    by (simp add: meminfo_line_def Fields_row[OF ok(1)] ParseUint_show[OF ok(2)] key rows_map_def Let_def)
qed (simp add: rows_map_def)

lemma readMemInfo_rows:
  "list_all row_ok rows \<Longrightarrow> readMemInfo (Some (meminfo_text rows)) =
    Some (case rows_map rows ''MemTotal'' of None \<Rightarrow> 0 | Some n \<Rightarrow> n,
          case rows_map rows ''MemAvailable'' of None \<Rightarrow> 0 | Some n \<Rightarrow> n)"
  by (simp add: readMemInfo_def scan_meminfo meminfo_rows)

text \<open>
  C37. Reading the memory file.  On a file of the kernel's format (rows of a name, a colon, blanks and
  a number, with or without the unit) the two numbers the agent reads are those written for
  \<open>MemTotal\<close> and \<open>MemAvailable\<close>, the last ones if a name is repeated and 0 if it is missing,
  whatever the padding and the other rows.
\<close>

theorem meminfo_roundtrip:
  assumes "list_all row_ok rows"
  shows "readMemInfo (Some (meminfo_text rows)) =
    Some (case rows_map rows ''MemTotal'' of None \<Rightarrow> 0 | Some n \<Rightarrow> n,
          case rows_map rows ''MemAvailable'' of None \<Rightarrow> 0 | Some n \<Rightarrow> n)"
  by (rule readMemInfo_rows[OF assms])

definition sample_rows :: "meminfo_row list" where
  "sample_rows = [(''MemTotal'', 6, 2014200, True), (''MemFree'', 7, 120, True),
     (''MemAvailable'', 2, 503550, True), (''Active(anon)'', 1, 77, True), (''HugePages_Total'', 7, 0, False)]"

lemma sample_rows_ok: "list_all row_ok sample_rows"
  by (simp add: sample_rows_def row_ok_def row_text_def graphic_def show_base.simps digit_table_def)

theorem meminfo_roundtrip_witness:
  "readMemInfo (Some (meminfo_text sample_rows)) = Some (2014200, 503550)"
  using meminfo_roundtrip[OF sample_rows_ok] by (simp add: sample_rows_def rows_map_def)

theorem percentages_bounded_witness:
  "\<exists>p q. MemUsedPct (collectMetrics (Some (meminfo_text sample_rows)) (Some \<lparr>Blocks = 10, Bfree = 3, Bsize = 4096\<rparr>)
      (Some ''0.25 0.10 0.01'') None) = Fin p \<and> 0 \<le> p \<and> p \<le> 100 \<and>
    DiskUsedPct (collectMetrics (Some (meminfo_text sample_rows)) (Some \<lparr>Blocks = 10, Bfree = 3, Bsize = 4096\<rparr>)
      (Some ''0.25 0.10 0.01'') None) = Fin q \<and> 0 \<le> q \<and> q \<le> 100"
proof (rule percentages_bounded)
  show "a \<le> t \<and> t < 2 ^ 64" if "readMemInfo (Some (meminfo_text sample_rows)) = Some (t, a)" for t a
    using that readMemInfo_rows[OF sample_rows_ok] by (simp add: sample_rows_def rows_map_def)
qed auto


section \<open>What the scenario runner sees\<close>

text \<open>
  The CPU usage is always reported as zero, also when \<open>/proc/stat\<close> is readable: an objective on
  \<open>cpu_pct\<close> is judged on that constant.
\<close>

lemma cpu_always_zero: "CPUPct (collectMetrics meminfo stat loadavg cpustat) = Fin 0"
  by (simp add: collectMetrics_def Let_def readCPUPercent_def split: option.splits)

lemma percent_memory: "0 < t \<Longrightarrow> MemUsedPct (memory_metrics (Some (t, a)) m) =
    f64_mul (f64_div (f64_of_int ((int t - int a) mod 2 ^ 64)) (f64_of_int (int t))) (Fin 100)"
  by (simp add: memory_metrics_def percent_def wrapu64_def Let_def)

text \<open>The memory fault pauses exactly when the reported percentage has reached its ceiling.\<close>

lemma memory_fault_ceiling:
  assumes "0 < t"
  shows "memory_tick ceilingPct (Some (t, a)) (Some (t, a)) chunks =
    (if f64_ge (MemUsedPct (memory_metrics (Some (t, a)) m)) (f64_of_int ceilingPct) then chunks
     else Suc chunks)"
  using assms by (simp add: memory_tick_def percent_memory Let_def)

text \<open>Services are reported once each, in order, each by one query.\<close>

lemma list_services_run:
  "run_state (list_services e names res) tr = (ss, tr') \<Longrightarrow>
    map Name ss = map Name res @ names \<and>
    map fst tr' = map fst tr @ map (\<lambda>n. AExec [''systemctl'', ''is-active'', ''--quiet'', n]) names"
  by (induction e names res arbitrary: tr rule: list_services.induct)
     (auto simp: run_state_bind run_state_return)

end
