(* ===== verification/GoFlag.thy ===== *)
theory GoFlag
  imports GoParseFloat
begin

text \<open>
  Package \<open>flag\<close> as the commands use it: \<open>FlagSet.Parse\<close> with the error handling \<open>ExitOnError\<close>, for
  flags of type string, int, int64 and bool.  A flag set is the list of its names with their
  default values; the values parsed so far are the same list updated.

  Parsing stops at the first argument that is not a flag: what follows it is never looked at.
\<close>

section \<open>Numbers\<close>

text \<open>\<open>strconv.ParseInt(s, 0, 64)\<close>: the base from the prefix, underscores allowed.\<close>

definition any_digit :: "char \<Rightarrow> nat option" where
  "any_digit c =
    (let n = of_char (ascii_lower c) :: nat in
     if is_digit c then Some (digit_val c) else if 97 \<le> n \<and> n \<le> 122 then Some (n - 87) else None)"

fun read_digits :: "nat \<Rightarrow> string \<Rightarrow> nat \<Rightarrow> nat option" where
  "read_digits b [] acc = Some acc"
| "read_digits b (c # cs) acc =
    (if c = CHR ''_'' then read_digits b cs acc
     else case any_digit c of
            None \<Rightarrow> None
          | Some d \<Rightarrow> if b \<le> d then None else read_digits b cs (acc * b + d))"

definition base_prefix :: "string \<Rightarrow> nat \<times> string" where
  "base_prefix s =
    (if s \<noteq> [] \<and> hd s = CHR ''0'' then
       if 3 \<le> length s \<and> ascii_lower (s ! 1) = CHR ''b'' then (2, drop 2 s)
       else if 3 \<le> length s \<and> ascii_lower (s ! 1) = CHR ''o'' then (8, drop 2 s)
       else if 3 \<le> length s \<and> ascii_lower (s ! 1) = CHR ''x'' then (16, drop 2 s)
       else (8, drop 1 s)
     else (10, s))"

definition ParseInt0 :: "string \<Rightarrow> int option" where
  "ParseInt0 s =
    (case split_sign s of (neg, t) \<Rightarrow>
      if t = [] then None
      else case base_prefix t of (b, ds) \<Rightarrow>
        (case read_digits b ds 0 of
           None \<Rightarrow> None
         | Some n \<Rightarrow>
             if CHR ''_'' \<in> set ds \<and> \<not> underscoreOK t then None
             else let x = (if neg then - int n else int n) in if int64_range x then Some x else None))"

definition ParseBool :: "string \<Rightarrow> bool option" where
  "ParseBool s =
    (if s \<in> {''1'', ''t'', ''T'', ''true'', ''TRUE'', ''True''} then Some True
     else if s \<in> {''0'', ''f'', ''F'', ''false'', ''FALSE'', ''False''} then Some False
     else None)"


section \<open>Parsing arguments\<close>

datatype flag_value = FStr string | FInt int | FBool bool

type_synonym flag_set = "(string \<times> flag_value) list"

text \<open>Setting a flag from its text, by the type of its current value.\<close>

definition set_value :: "flag_value \<Rightarrow> string \<Rightarrow> flag_value option" where
  "set_value old s =
    (case old of
       FStr _ \<Rightarrow> Some (FStr s)
     | FInt _ \<Rightarrow> map_option FInt (ParseInt0 s)
     | FBool _ \<Rightarrow> map_option FBool (ParseBool s))"

definition set_flag :: "string \<Rightarrow> string \<Rightarrow> flag_set \<Rightarrow> flag_set option" where
  "set_flag name s fs =
    (case map_of fs name of
       None \<Rightarrow> None
     | Some old \<Rightarrow>
        map_option (\<lambda>v. map (\<lambda>(n, w). (n, if n = name then v else w)) fs) (set_value old s))"

datatype parse_result = Parsed flag_set "string list" | ExitHelp | ExitError

text \<open>\<open>-name\<close> or \<open>--name\<close>, possibly with \<open>=value\<close>; \<open>None\<close> is a syntax error.\<close>

definition flag_name :: "string \<Rightarrow> (string \<times> string option) option" where
  "flag_name s =
    (let name = (if s ! 1 = CHR ''-'' then drop 2 s else drop 1 s) in
     if name = '''' \<or> hd name = CHR ''-'' \<or> hd name = CHR ''='' then None
     else if CHR ''='' \<in> set name
     then Some (takeWhile (\<lambda>c. c \<noteq> CHR ''='') name, Some (tl (dropWhile (\<lambda>c. c \<noteq> CHR ''='') name)))
     else Some (name, None))"

definition is_flag :: "string \<Rightarrow> bool" where
  "is_flag s \<longleftrightarrow> 2 \<le> length s \<and> hd s = CHR ''-''"

fun Parse :: "flag_set \<Rightarrow> string list \<Rightarrow> parse_result" where
  "Parse fs [] = Parsed fs []"
| "Parse fs (s # args) =
    (if \<not> is_flag s then Parsed fs (s # args)
     else if s = ''--'' then Parsed fs args
     else case flag_name s of
       None \<Rightarrow> ExitError
     | Some (name, val) \<Rightarrow>
        (case map_of fs name of
           None \<Rightarrow> if name = ''help'' \<or> name = ''h'' then ExitHelp else ExitError
         | Some (FBool b) \<Rightarrow>
             (case set_flag name (case val of None \<Rightarrow> ''true'' | Some v \<Rightarrow> v) fs of
                None \<Rightarrow> ExitError | Some fs \<Rightarrow> Parse fs args)
         | Some old \<Rightarrow>
             (case val of
                Some v \<Rightarrow> (case set_flag name v fs of None \<Rightarrow> ExitError | Some fs \<Rightarrow> Parse fs args)
              | None \<Rightarrow>
                  (case args of
                     [] \<Rightarrow> ExitError
                   | v # args \<Rightarrow>
                       (case set_flag name v fs of None \<Rightarrow> ExitError | Some fs \<Rightarrow> Parse fs args)))))"

text \<open>Reading parsed values: the commands declare the flags they read.\<close>

definition str_flag :: "flag_set \<Rightarrow> string \<Rightarrow> string" where
  "str_flag fs name = (case map_of fs name of Some (FStr s) \<Rightarrow> s | _ \<Rightarrow> '''')"

definition int_flag :: "flag_set \<Rightarrow> string \<Rightarrow> int" where
  "int_flag fs name = (case map_of fs name of Some (FInt i) \<Rightarrow> i | _ \<Rightarrow> 0)"

definition bool_flag :: "flag_set \<Rightarrow> string \<Rightarrow> bool" where
  "bool_flag fs name = (case map_of fs name of Some (FBool b) \<Rightarrow> b | _ \<Rightarrow> False)"

definition arg0 :: "string list \<Rightarrow> string" where
  "arg0 args = (case args of [] \<Rightarrow> '''' | a # _ \<Rightarrow> a)"


section \<open>Facts\<close>

text \<open>Nothing after the first argument that is not a flag is a flag.\<close>

lemma Parse_stops: "\<not> is_flag s \<Longrightarrow> Parse fs (s # args) = Parsed fs (s # args)"
  by simp

lemma not_flag: "s = [] \<or> hd s \<noteq> CHR ''-'' \<Longrightarrow> \<not> is_flag s"
  by (auto simp: is_flag_def)

text \<open>Parsing changes the values, never the flags or their types.\<close>

definition same_kind :: "flag_value \<Rightarrow> flag_value \<Rightarrow> bool" where
  "same_kind v w =
    (case v of FStr _ \<Rightarrow> (case w of FStr _ \<Rightarrow> True | _ \<Rightarrow> False)
     | FInt _ \<Rightarrow> (case w of FInt i \<Rightarrow> True | _ \<Rightarrow> False)
     | FBool _ \<Rightarrow> (case w of FBool _ \<Rightarrow> True | _ \<Rightarrow> False))"

lemma same_kind_refl [simp]: "same_kind v v" by (cases v) (simp_all add: same_kind_def)

lemma same_kind_trans: "same_kind u v \<Longrightarrow> same_kind v w \<Longrightarrow> same_kind u w"
  by (auto simp: same_kind_def split: flag_value.splits)

definition same_flags :: "flag_set \<Rightarrow> flag_set \<Rightarrow> bool" where
  "same_flags fs gs \<longleftrightarrow> list_all2 (\<lambda>a b. fst a = fst b \<and> same_kind (snd a) (snd b)) fs gs"

lemma same_flags_refl: "same_flags fs fs"
  by (simp add: same_flags_def list_all2_refl)

lemma same_flags_trans: "same_flags fs gs \<Longrightarrow> same_flags gs hs \<Longrightarrow> same_flags fs hs"
  unfolding same_flags_def
  by (rule list_all2_trans[where ?P1.0 = "\<lambda>a b. fst a = fst b \<and> same_kind (snd a) (snd b)"])
     (auto intro: same_kind_trans)

lemma set_flag_same:
  assumes "distinct (map fst fs)" "set_flag name s fs = Some gs"
  shows "same_flags fs gs"
proof -
  obtain old v where v: "map_of fs name = Some old" "set_value old s = Some v"
    and gs: "gs = map (\<lambda>(n, w). (n, if n = name then v else w)) fs"
    using assms(2) by (auto simp: set_flag_def split: option.splits)
  have k: "same_kind old v" using v(2) by (auto simp: set_value_def same_kind_def split: flag_value.splits)
  have "w = old" if "(name, w) \<in> set fs" for w
    using assms(1) that v(1) by simp
  then show ?thesis unfolding same_flags_def gs list_all2_map2
    using k by (auto simp: list_all2_same)
qed

lemma same_flags_keys: "same_flags fs gs \<Longrightarrow> map fst fs = map fst gs"
  unfolding same_flags_def by (induction fs gs rule: list_all2_induct) auto

lemma Parse_step:
  assumes "Parse fs (s # args) = Parsed gs rest"
  shows "gs = fs \<or> (\<exists>n v fs' args'. length args' \<le> length args \<and> set_flag n v fs = Some fs' \<and>
    Parse fs' args' = Parsed gs rest)"
proof -
  have use: ?thesis if "set_flag n v fs = Some fs'" "Parse fs' args' = Parsed gs rest"
    "length args' \<le> length args" for n v fs' args' using that by blast
  show ?thesis
  proof (cases "\<not> is_flag s \<or> s = ''--''")
    case False
    then obtain name val where n: "flag_name s = Some (name, val)"
      using assms by (cases "flag_name s") auto
    then obtain old where old: "map_of fs name = Some old"
      using assms False by (cases "map_of fs name") (auto split: if_splits)
    show ?thesis
    proof (cases "\<exists>b. old = FBool b")
      case True
      then show ?thesis using assms False n old by (auto split: option.splits intro: use)
    next
      case not_bool: False
      then show ?thesis
      proof (cases val)
        case (Some v)
        then show ?thesis using assms False n old not_bool
          by (cases old) (auto split: option.splits intro: use)
      next
        case None
        then obtain v args' where "args = v # args'"
          using assms False n old not_bool by (cases args; cases old) auto
        then show ?thesis using assms False n old not_bool None
          by (cases old) (auto split: option.splits intro!: use[of name v _ args'])
      qed
    qed
  qed (use assms in \<open>auto split: if_splits\<close>)
qed

lemma Parse_same:
  "distinct (map fst fs) \<Longrightarrow> Parse fs args = Parsed gs rest \<Longrightarrow> same_flags fs gs"
proof (induction "length args" arbitrary: fs args rule: less_induct)
  case less
  show ?case
  proof (cases args)
    case (Cons s args')
    from Parse_step[OF less.prems(2)[unfolded Cons]] show ?thesis
    proof (elim disjE exE conjE)
      fix n v fs' as
      assume *: "length as \<le> length args'" "set_flag n v fs = Some fs'" "Parse fs' as = Parsed gs rest"
      have "same_flags fs fs'" using set_flag_same[OF less.prems(1) *(2)] .
      moreover have "same_flags fs' gs"
        using less.hyps[OF _ _ *(3)] *(1) Cons same_flags_keys[OF \<open>same_flags fs fs'\<close>] less.prems(1) by simp
      ultimately show ?thesis by (rule same_flags_trans)
    qed (simp add: same_flags_refl)
  qed (use less.prems in \<open>simp add: same_flags_refl\<close>)
qed

section \<open>Printing and parsing\<close>

lemma any_digit_digit: "is_digit c \<Longrightarrow> any_digit c = Some (digit_val c)"
  by (simp add: any_digit_def)

lemma read_digits_dec:
  "list_all is_digit ds \<Longrightarrow> read_digits 10 ds acc = Some (foldl (\<lambda>a c. a * 10 + digit_val c) acc ds)"
  by (induction ds arbitrary: acc) (auto simp: any_digit_digit is_digit_def digit_val_def)

lemma show_dec_leading: "0 < n \<Longrightarrow> hd (show_base 10 n) \<noteq> CHR ''0''"
proof (induction n rule: less_induct)
  case (less n)
  show ?case
  proof (cases "n < 10")
    case True
    then have "digit_table ! n \<noteq> CHR ''0''"
      using less.prems digit_table_facts(1)[of n] by (auto simp: digit_val_def)
    with True show ?thesis by (subst show_base.simps) simp
  next
    case False
    then have "show_base 10 n = show_base 10 (n div 10) @ [digit_table ! (n mod 10)]"
      by (subst show_base.simps) simp
    then show ?thesis using less.IH[of "n div 10"] False by (simp add: hd_append)
  qed
qed

lemma ParseInt0_fmt_d: "int64_range i \<Longrightarrow> ParseInt0 (fmt_d i) = Some i"
proof -
  assume r: "int64_range i"
  let ?n = "nat \<bar>i\<bar>" let ?s = "show_base 10 ?n"
  have ds: "list_all is_digit ?s" using show_dec_digits by (auto simp: list_all_iff)
  then have u: "CHR ''_'' \<notin> set ?s" by (auto simp: list_all_iff is_digit_def)
  show ?thesis
  proof (cases "i = 0")
    case True
    then show ?thesis
      by (simp add: ParseInt0_def fmt_d_def show_base.simps digit_table_def split_sign_def base_prefix_def)
  next
    case False
    then have "base_prefix ?s = (10, ?s)" using show_dec_leading[of ?n] by (simp add: base_prefix_def)
    moreover have "read_digits 10 ?s 0 = Some ?n"
      using read_digits_dec[OF ds, of 0] read_show_base[of 10 ?n] by (simp add: read_base_def)
    ultimately show ?thesis using r u by (auto simp: ParseInt0_def split_sign_fmt_d Let_def)
  qed
qed

text \<open>A flag written \<open>--name=value\<close>.\<close>

definition assign :: "string \<Rightarrow> string \<Rightarrow> string" where
  "assign name t = ''--'' @ name @ ''='' @ t"

definition plain_flag :: "string \<Rightarrow> bool" where
  "plain_flag name \<longleftrightarrow> name \<noteq> '''' \<and> hd name \<noteq> CHR ''-'' \<and> CHR ''='' \<notin> set name"

lemma flag_name_assign:
  assumes "plain_flag name"
  shows "flag_name (assign name t) = Some (name, Some t)"
proof -
  have ne: "CHR ''='' \<notin> set name" "name \<noteq> []" "hd name \<noteq> CHR ''-''" "hd name \<noteq> CHR ''=''"
    using assms by (auto simp: plain_flag_def) (metis hd_in_set)
  have "takeWhile (\<lambda>c. c \<noteq> CHR ''='') (name @ ''='' @ t) = name"
    "dropWhile (\<lambda>c. c \<noteq> CHR ''='') (name @ ''='' @ t) = ''='' @ t"
    using ne(1) by (auto simp: takeWhile_append dropWhile_append)
  then show ?thesis using ne by (simp add: flag_name_def assign_def Let_def)
qed

lemma Parse_assign:
  assumes "plain_flag name" "map_of fs name = Some old"
  shows "Parse fs (assign name t # args) =
    (case set_flag name t fs of None \<Rightarrow> ExitError | Some gs \<Rightarrow> Parse gs args)"
proof -
  have "is_flag (assign name t)" "assign name t \<noteq> ''--''"
    using assms(1) by (auto simp: is_flag_def assign_def)
  then show ?thesis using assms(2) flag_name_assign[OF assms(1)]
    by (cases old) simp_all
qed

definition flag_text :: "flag_value \<Rightarrow> string" where
  "flag_text v = (case v of FStr s \<Rightarrow> s | FInt i \<Rightarrow> fmt_d i | FBool b \<Rightarrow> if b then ''true'' else ''false'')"

definition in_range :: "flag_value \<Rightarrow> bool" where
  "in_range v = (case v of FInt i \<Rightarrow> int64_range i | _ \<Rightarrow> True)"

lemma set_value_text: "same_kind old v \<Longrightarrow> in_range v \<Longrightarrow> set_value old (flag_text v) = Some v"
  by (cases old; cases v)
     (auto simp: same_kind_def in_range_def set_value_def flag_text_def ParseInt0_fmt_d ParseBool_def)

definition flag_args :: "flag_set \<Rightarrow> string list" where
  "flag_args gs = map (\<lambda>(n, v). assign n (flag_text v)) gs"

lemma Parse_flag_args:
  assumes "same_flags fs gs" "distinct (map fst (done @ gs))" "list_all plain_flag (map fst gs)"
    and "list_all (in_range \<circ> snd) gs"
  shows "Parse (done @ fs) (flag_args gs) = Parsed (done @ gs) []"
  using assms unfolding same_flags_def
proof (induction fs gs arbitrary: "done" rule: list_all2_induct)
  case (Cons a fs b gs)
  obtain n old v where [simp]: "a = (n, old)" "b = (n, v)" and k: "same_kind old v"
    using Cons(1) by (cases a; cases b) auto
  have n: "n \<notin> set (map fst done)" "n \<notin> set (map fst gs)" using Cons.prems by auto
  have "map fst fs = map fst gs" using same_flags_keys Cons(2) by (simp add: same_flags_def)
  then have nf: "n \<notin> set (map fst fs)" using n by simp
  have id: "map (\<lambda>(m, w). (m, if m = n then v else w)) xs = xs" if "n \<notin> set (map fst xs)" for xs
    using that by (intro map_idI) (force split: prod.splits)
  have m: "map_of (done @ a # fs) n = Some old"
    using n by (simp add: map_add_def map_of_eq_None_iff[THEN iffD2])
  then have "set_flag n (flag_text v) (done @ a # fs) = Some (done @ b # fs)"
    using set_value_text[OF k] Cons.prems nf n id by (simp add: set_flag_def)
  moreover have "Parse ((done @ [b]) @ fs) (flag_args gs) = Parsed ((done @ [b]) @ gs) []"
    using Cons.prems by (intro Cons.IH) auto
  ultimately show ?case
    using Parse_assign[OF _ m, of "flag_text v" "flag_args gs"] Cons.prems by (simp add: flag_args_def)
qed (simp add: flag_args_def)

text \<open>
  Flags, printed and parsed.  For any set of flags with distinct plain names, and any values of
  their types, the arguments \<open>--name=value\<close> are accepted and give every flag its value; integers
  may be any 64-bit number.
\<close>

theorem flags_roundtrip:
  assumes "same_flags fs gs" "distinct (map fst gs)" "list_all plain_flag (map fst gs)"
    and "list_all (in_range \<circ> snd) gs"
  shows "Parse fs (flag_args gs) = Parsed gs []"
  using Parse_flag_args[of fs gs "[]"] assms by simp

theorem flags_roundtrip_witness:
  "Parse [(''count'', FInt 1), (''kernel'', FStr ''''), (''dry-run'', FBool False)]
     (flag_args [(''count'', FInt (- 7)), (''kernel'', FStr ''/boot/vmlinux=6''), (''dry-run'', FBool True)]) =
   Parsed [(''count'', FInt (- 7)), (''kernel'', FStr ''/boot/vmlinux=6''), (''dry-run'', FBool True)] []"
  by (rule flags_roundtrip) (simp_all add: same_flags_def same_kind_def plain_flag_def in_range_def)

end
