(* ===== verification/Commands.thy ===== *)
theory Commands
  imports VMLaunch Host GoFlag Runner
begin

text \<open>
  The command line of the server binary, \<open>src/cmd\<close>: the choice of the command (\<open>Execute\<close>), the flags of
  \<open>run\<close>, \<open>serve\<close>, \<open>server\<close> and \<open>scenario run\<close>, the generation of the cloud-init images, the launch
  of a single VM and of a fleet.  A command is modelled up to what it starts: its exit status, or the
  launch with its parameters.  Panics and exits are values.

  Shown: every VM option can be set from the command line and nothing else changes; a fleet's
  goroutine gives back its machine and its image on every path; a single VM is stopped exactly on
  the paths that do not exit with an error; the generated images are those the VMs attach.
\<close>

section \<open>Choosing the command\<close>

datatype command =
    CmdRun "string list"
  | CmdServe "string list"
  | CmdScenario "string list"
  | CmdServer "string list"
  | CmdExit int

definition Execute :: "string list \<Rightarrow> command" where
  "Execute args =
    (if length args < 2 then CmdExit 1
     else let rest = drop 2 args in
       if args ! 1 = ''run'' then CmdRun rest
       else if args ! 1 = ''serve'' then CmdServe rest
       else if args ! 1 = ''scenario'' then CmdScenario rest
       else if args ! 1 = ''server'' then CmdServer rest
       else CmdExit 1)"


section \<open>The cloud-init images of a fleet\<close>

datatype gen_result = GenOK | GenFailed int string string | GenPanic

definition fleet_iso :: "string \<Rightarrow> int \<Rightarrow> string" where
  "fleet_iso baseISO i = take (length baseISO - 4) baseISO @ ''-'' @ fmt_d i @ ''.iso''"

text \<open>The loop from image \<open>i\<close> on; stripping four bytes off a shorter name panics.\<close>

fun gen_isos :: "host_env \<Rightarrow> string \<Rightarrow> string \<Rightarrow> nat \<Rightarrow> nat \<Rightarrow> gen_result host_prog" where
  "gen_isos d baseISO configPath 0 i = State_Monad.return GenOK"
| "gen_isos d baseISO configPath (Suc n) i =
    (if length baseISO < 4 then State_Monad.return GenPanic
     else State_Monad.bind (perform d (Exec [''bash'', ''make-cloud-init-iso.sh'', fleet_iso baseISO (int i),
         configPath, ''vm-'' @ fmt_d (int i)])) (\<lambda>r.
       case r of
         HErr err out \<Rightarrow> State_Monad.return (GenFailed (int i) err out)
       | HOk _ \<Rightarrow> gen_isos d baseISO configPath n (Suc i)))"

definition generatePerVMCloudInitISOs ::
  "host_env \<Rightarrow> string \<Rightarrow> string \<Rightarrow> int \<Rightarrow> gen_result host_prog" where
  "generatePerVMCloudInitISOs d baseISO configPath count = gen_isos d baseISO configPath (nat count) 0"


section \<open>Launching a fleet\<close>

definition cmd_boot :: "launch_env \<Rightarrow> config \<Rightarrow> int \<Rightarrow> launch_error option launch_prog" where
  "cmd_boot d cfg vmID =
    State_Monad.bind (perform d (DepFactory cfg)) (\<lambda>r.
      if failed r then report d vmID ''failed to create'' r
      else with_defer d VMStop
        (State_Monad.bind (perform d VMStart) (\<lambda>r.
          if failed r then report d vmID ''failed to start'' r
          else State_Monad.bind (perform d VMWait) (report d vmID ''exited with error''))))"

definition cmd_launch_vm :: "launch_env \<Rightarrow> config \<Rightarrow> int \<Rightarrow> launch_error option launch_prog" where
  "cmd_launch_vm d baseCfg vmID =
    (let cfg = ForVM baseCfg vmID in
     State_Monad.bind (perform d (DepPrepareRootFS (RootFSPath baseCfg) vmID (RootFSSizeMiB baseCfg))) (\<lambda>r.
       case r of
         Err _ \<Rightarrow> report d vmID ''failed to prepare rootfs'' r
       | Ok vmRootFS \<Rightarrow>
           with_defer d (OsRemove vmRootFS)
             (let cfg = cfg\<lparr>RootFSPath := vmRootFS\<rparr> in
              State_Monad.bind (perform d (DepEnsureTAP vmID)) (\<lambda>r.
                if failed r then report d vmID ''tap setup'' r
                else if CloudInitISO baseCfg \<noteq> '''' then
                  State_Monad.bind
                    (perform d (DepEnsureISO (CloudInitISO cfg) ''cloud-init-config.yaml'' (''vm-'' @ fmt_d vmID)))
                    (\<lambda>r. if failed r then report d vmID ''cloud-init ISO'' r else cmd_boot d cfg vmID)
                else cmd_boot d cfg vmID))))"

text \<open>
  Every VM runs in its own environment; the errors arrive in some order of the VMs.  A negative
  count panics when the error channel is made.
\<close>

definition cmd_launchFleet ::
  "(int \<Rightarrow> launch_env) \<Rightarrow> config \<Rightarrow> int \<Rightarrow> int list \<Rightarrow> launch_error option option" where
  "cmd_launchFleet d baseCfg count arrivals =
    (if count < 0 then None
     else Some (fold (\<lambda>err lastErr. Some err)
       (List.map_filter (\<lambda>vmID. fst (run_state (cmd_launch_vm (d vmID) baseCfg vmID) [])) arrivals) None))"


section \<open>\<open>run\<close> and \<open>serve\<close>\<close>

text \<open>The exit status.  \<open>os.Exit\<close> does not run deferred calls.\<close>

definition runSingleVM :: "launch_env \<Rightarrow> config \<Rightarrow> int launch_prog" where
  "runSingleVM d cfg =
    State_Monad.bind (perform d (DepFactory cfg)) (\<lambda>r.
      if failed r then State_Monad.return 1
      else State_Monad.bind (perform d VMStart) (\<lambda>r.
        if failed r then State_Monad.return 1
        else State_Monad.bind (perform d VMWait) (\<lambda>r.
          if failed r then
            State_Monad.bind (perform d CtxErr) (\<lambda>c.
              if \<not> failed c then State_Monad.return 1
              else State_Monad.bind (perform d VMStop) (\<lambda>_. State_Monad.return 0))
          else State_Monad.bind (perform d VMStop) (\<lambda>_. State_Monad.return 0))))"

definition vm_flags :: flag_set where
  "vm_flags =
    [(''firecracker-bin'', FStr ''''), (''socket'', FStr (SocketPath DefaultConfig)), (''kernel'', FStr ''''),
     (''rootfs'', FStr ''''), (''vcpus'', FInt (VCPUs DefaultConfig)), (''mem'', FInt (MemSizeMiB DefaultConfig)),
     (''rootfs-size'', FInt (RootFSSizeMiB DefaultConfig)), (''kernel-args'', FStr (KernelArgs DefaultConfig)),
     (''tap'', FStr ''''), (''mac'', FStr ''''), (''log-level'', FStr (LogLevel DefaultConfig)),
     (''cloud-init-iso'', FStr ''''), (''cloud-init-config'', FStr ''cloud-init-config.yaml''),
     (''count'', FInt 1)]"

definition vm_config :: "flag_set \<Rightarrow> config" where
  "vm_config fs =
    DefaultConfig\<lparr>FirecrackerBin := str_flag fs ''firecracker-bin'', SocketPath := str_flag fs ''socket'',
      KernelImagePath := str_flag fs ''kernel'', RootFSPath := str_flag fs ''rootfs'',
      VCPUs := int_flag fs ''vcpus'', MemSizeMiB := int_flag fs ''mem'',
      RootFSSizeMiB := int_flag fs ''rootfs-size'', KernelArgs := str_flag fs ''kernel-args'',
      TapDeviceName := str_flag fs ''tap'', MacAddress := str_flag fs ''mac'',
      LogLevel := str_flag fs ''log-level'', CloudInitISO := str_flag fs ''cloud-init-iso''\<rparr>"

text \<open>What a command goes on to do: exit, panic, run one VM, run a fleet, or a fleet with the terminal.\<close>

datatype next_step =
    Exit int
  | Panic
  | SingleVM config
  | Fleet config int
  | FleetAndTerminal config int int

definition exit_of :: "parse_result \<Rightarrow> (flag_set \<Rightarrow> string list \<Rightarrow> next_step host_prog) \<Rightarrow> next_step host_prog" where
  "exit_of p go =
    (case p of ExitHelp \<Rightarrow> State_Monad.return (Exit 0) | ExitError \<Rightarrow> State_Monad.return (Exit 2)
     | Parsed fs rest \<Rightarrow> go fs rest)"

definition with_isos :: "host_env \<Rightarrow> flag_set \<Rightarrow> next_step \<Rightarrow> next_step host_prog" where
  "with_isos d fs go =
    (if 1 < int_flag fs ''count'' \<and> str_flag fs ''cloud-init-iso'' \<noteq> '''' then
       State_Monad.bind (generatePerVMCloudInitISOs d (str_flag fs ''cloud-init-iso'')
           (str_flag fs ''cloud-init-config'') (int_flag fs ''count'')) (\<lambda>r.
         State_Monad.return (case r of GenOK \<Rightarrow> go | GenFailed i e out \<Rightarrow> Exit 1 | GenPanic \<Rightarrow> Panic))
     else State_Monad.return go)"

definition runCmd :: "host_env \<Rightarrow> string list \<Rightarrow> next_step host_prog" where
  "runCmd d args =
    exit_of (Parse vm_flags args) (\<lambda>fs _.
      with_isos d fs
        (if int_flag fs ''count'' = 1 then SingleVM (vm_config fs)
         else Fleet (vm_config fs) (int_flag fs ''count'')))"

definition serve_flags :: flag_set where
  "serve_flags = vm_flags @ [(''port'', FInt 8080)]"

definition serveCmd :: "host_env \<Rightarrow> string list \<Rightarrow> next_step host_prog" where
  "serveCmd d args =
    exit_of (Parse serve_flags args) (\<lambda>fs _.
      with_isos d fs (FleetAndTerminal (vm_config fs) (int_flag fs ''count'') (int_flag fs ''port'')))"


section \<open>\<open>server\<close> and \<open>scenario\<close>\<close>

definition server_flags :: flag_set where
  "server_flags =
    [(''firecracker-bin'', FStr ''''), (''kernel'', FStr ''''), (''rootfs'', FStr ''''),
     (''cloud-init-iso'', FStr ''''), (''vcpus'', FInt (VCPUs DefaultConfig)),
     (''mem'', FInt (MemSizeMiB DefaultConfig)), (''rootfs-size'', FInt (RootFSSizeMiB DefaultConfig)),
     (''port'', FInt 8888)]"

text \<open>The base configuration of the REST server and its port.\<close>

definition serverCmd :: "string list \<Rightarrow> int + config \<times> int" where
  "serverCmd args =
    (case Parse server_flags args of
       ExitHelp \<Rightarrow> Inl 0
     | ExitError \<Rightarrow> Inl 2
     | Parsed fs _ \<Rightarrow>
        Inr (DefaultConfig\<lparr>FirecrackerBin := str_flag fs ''firecracker-bin'',
               KernelImagePath := str_flag fs ''kernel'', RootFSPath := str_flag fs ''rootfs'',
               CloudInitISO := str_flag fs ''cloud-init-iso'', VCPUs := int_flag fs ''vcpus'',
               MemSizeMiB := int_flag fs ''mem'', RootFSSizeMiB := int_flag fs ''rootfs-size''\<rparr>,
             int_flag fs ''port''))"

definition cmd_override :: "string \<Rightarrow> (string, int) fmap \<Rightarrow> (string, int) fmap" where
  "cmd_override part overrides =
    (case SplitN2 (CHR ''='') part of
       [k, v] \<Rightarrow> let n = Sscanf_d v in
                 if 0 < n then fmupd (TrimSpace k) n overrides else overrides
     | _ \<Rightarrow> overrides)"

definition cmd_parseScaleOverrides :: "string \<Rightarrow> (string, int) fmap" where
  "cmd_parseScaleOverrides s =
    (if s = '''' then fmempty else fold cmd_override (Split (CHR '','') s) fmempty)"

definition cmd_parseDiskOverrides :: "string \<Rightarrow> (string, int) fmap" where
  "cmd_parseDiskOverrides s =
    (if s = '''' then fmempty else fold cmd_override (Split (CHR '','') s) fmempty)"

definition scenario_flags :: flag_set where
  "scenario_flags =
    [(''kernel'', FStr ''''), (''rootfs'', FStr ''''), (''firecracker-bin'', FStr ''''),
     (''cloud-init-iso'', FStr ''''), (''scale'', FStr ''''), (''disk'', FStr ''''),
     (''dry-run'', FBool False), (''port'', FInt 8888)]"

text \<open>Loading the file is a parameter; the runner goes on to \<open>Run\<close>.\<close>

definition scenarioRunCmd :: "(string \<Rightarrow> plan_error + Scenario) \<Rightarrow> string list \<Rightarrow> int + Runner" where
  "scenarioRunCmd load args =
    (case Parse scenario_flags args of
       ExitHelp \<Rightarrow> Inl 0
     | ExitError \<Rightarrow> Inl 2
     | Parsed fs rest \<Rightarrow>
        let scenarioFile = arg0 rest in
        if scenarioFile = '''' then Inl 1
        else case load scenarioFile of
          Inl _ \<Rightarrow> Inl 1
        | Inr s \<Rightarrow>
           let opts = \<lparr>opt_KernelPath = str_flag fs ''kernel'', opt_RootFSPath = str_flag fs ''rootfs'',
                 opt_CloudInitISO = str_flag fs ''cloud-init-iso'',
                 opt_FirecrackerBin = str_flag fs ''firecracker-bin'',
                 opt_ScaleOverrides = cmd_parseScaleOverrides (str_flag fs ''scale''),
                 opt_DiskOverrides = cmd_parseDiskOverrides (str_flag fs ''disk''),
                 opt_DryRun = bool_flag fs ''dry-run'', opt_WebPort = int_flag fs ''port'', opt_VMIDs = []\<rparr>
           in case NewRunner s opts of Inl _ \<Rightarrow> Inl 1 | Inr runner \<Rightarrow> Inr runner)"

definition scenarioCmd :: "(string \<Rightarrow> plan_error + Scenario) \<Rightarrow> string list \<Rightarrow> int + Runner" where
  "scenarioCmd load args =
    (case args of
       [] \<Rightarrow> Inl 1
     | sub # rest \<Rightarrow> if sub = ''run'' then scenarioRunCmd load rest else Inl 1)"

section \<open>The options of a VM\<close>

definition vm_values :: "config \<Rightarrow> string \<Rightarrow> int \<Rightarrow> flag_set" where
  "vm_values cfg ci count =
    [(''firecracker-bin'', FStr (FirecrackerBin cfg)), (''socket'', FStr (SocketPath cfg)),
     (''kernel'', FStr (KernelImagePath cfg)), (''rootfs'', FStr (RootFSPath cfg)),
     (''vcpus'', FInt (VCPUs cfg)), (''mem'', FInt (MemSizeMiB cfg)), (''rootfs-size'', FInt (RootFSSizeMiB cfg)),
     (''kernel-args'', FStr (KernelArgs cfg)), (''tap'', FStr (TapDeviceName cfg)),
     (''mac'', FStr (MacAddress cfg)), (''log-level'', FStr (LogLevel cfg)),
     (''cloud-init-iso'', FStr (CloudInitISO cfg)), (''cloud-init-config'', FStr ci), (''count'', FInt count)]"

definition config_in_range :: "config \<Rightarrow> bool" where
  "config_in_range cfg \<longleftrightarrow> int64_range (VCPUs cfg) \<and> int64_range (MemSizeMiB cfg) \<and> int64_range (RootFSSizeMiB cfg)"

lemma Parse_vm_values:
  assumes "config_in_range cfg" "int64_range count"
  shows "Parse vm_flags (flag_args (vm_values cfg ci count)) = Parsed (vm_values cfg ci count) []"
proof -
  let ?gs = "vm_values cfg ci count"
  have "same_flags vm_flags ?gs" by (simp add: same_flags_def vm_flags_def vm_values_def same_kind_def)
  moreover have "distinct (map fst ?gs)" "list_all plain_flag (map fst ?gs)"
    by (simp_all add: vm_values_def plain_flag_def)
  moreover have "list_all (in_range \<circ> snd) ?gs"
    using assms by (simp add: vm_values_def in_range_def config_in_range_def)
  ultimately show ?thesis using Parse_flag_args[of vm_flags ?gs "[]"] by simp
qed

lemma vm_config_values:
  "vm_config (vm_values cfg ci count) = cfg\<lparr>LogPath := ''''\<rparr>"
  "int_flag (vm_values cfg ci count) ''count'' = count"
  "str_flag (vm_values cfg ci count) ''cloud-init-config'' = ci"
  "str_flag (vm_values cfg ci count) ''cloud-init-iso'' = CloudInitISO cfg"
  by (simp_all add: vm_values_def vm_config_def str_flag_def int_flag_def DefaultConfig_def)

text \<open>
  The command line of \<open>run\<close> reaches every option of a VM: any configuration without a log path,
  and a single VM, can be asked for, and then exactly that configuration is launched.
\<close>

theorem run_options_complete:
  assumes "config_in_range cfg" "LogPath cfg = ''''"
  shows "run_state (runCmd d (flag_args (vm_values cfg ci 1))) tr = (SingleVM cfg, tr)"
  using assms Parse_vm_values[OF assms(1), of 1 ci]
  by (simp add: runCmd_def exit_of_def with_isos_def vm_config_values run_state_return)

theorem run_options_complete_witness:
  "run_state (runCmd d (flag_args (vm_values (DefaultConfig\<lparr>MemSizeMiB := 2048\<rparr>) ''ci.yaml'' 1))) [] =
    (SingleVM (DefaultConfig\<lparr>MemSizeMiB := 2048\<rparr>), [])"
  by (rule run_options_complete) (simp_all add: config_in_range_def DefaultConfig_def)


section \<open>The cloud-init images\<close>

lemma gen_isos_run:
  assumes "4 \<le> length baseISO" "fst (run_state (gen_isos d baseISO configPath n i) tr) = GenOK"
  shows "map fst (snd (run_state (gen_isos d baseISO configPath n i) tr)) = map fst tr @
    map (\<lambda>j. Exec [''bash'', ''make-cloud-init-iso.sh'', fleet_iso baseISO (int j), configPath, ''vm-'' @ fmt_d (int j)])
      [i..<i + n]"
  using assms
proof (induction n arbitrary: i tr)
  case (Suc n)
  let ?c = "Exec [''bash'', ''make-cloud-init-iso.sh'', fleet_iso baseISO (int i), configPath, ''vm-'' @ fmt_d (int i)]"
  have i: "[i..<i + Suc n] = i # [Suc i..<Suc i + n]" by (subst upt_conv_Cons) simp_all
  show ?case
  proof (cases "d tr ?c")
    case (HOk x)
    then have "fst (run_state (gen_isos d baseISO configPath n (Suc i)) (tr @ [(?c, HOk x)])) = GenOK"
      using Suc.prems by (simp add: run_state_bind)
    from Suc.IH[OF Suc.prems(1) this] show ?thesis using HOk Suc.prems(1)
      unfolding i by (simp add: run_state_bind)
  next
    case (HErr e out)
    then show ?thesis using Suc.prems by (simp add: run_state_bind run_state_return)
  qed
qed (simp add: run_state_return)

text \<open>
  The images of a fleet.  If the images of a fleet could be generated from a base name that ends
  in \<open>.iso\<close>, then for each VM of the fleet the image its configuration attaches is one that was
  generated, with the VM's own host name.
\<close>

theorem fleet_isos_match:
  assumes "CloudInitISO cfg = stem @ ''.iso''" "stem \<noteq> ''''" "0 \<le> i" "i < count"
    and "run_state (generatePerVMCloudInitISOs d (CloudInitISO cfg) configPath count) [] = (GenOK, tr)"
  shows "Exec [''bash'', ''make-cloud-init-iso.sh'', CloudInitISO (ForVM cfg i), configPath, ''vm-'' @ fmt_d i]
    \<in> set (map fst tr)"
proof -
  have "CloudInitISO (ForVM cfg i) = fleet_iso (CloudInitISO cfg) i"
    using assms(1,2) by (simp add: fleet_iso_def ForVM_def Let_def)
  moreover have "nat i < 0 + nat count" "i = int (nat i)" using assms(3,4) by simp_all
  moreover have "4 \<le> length (CloudInitISO cfg)" using assms(1) by simp
  from gen_isos_run[OF this, of d configPath "nat count" 0 "[]"] assms(5)
  have "map fst tr = map (\<lambda>j. Exec [''bash'', ''make-cloud-init-iso.sh'', fleet_iso (CloudInitISO cfg) (int j),
      configPath, ''vm-'' @ fmt_d (int j)]) [0..<0 + nat count]"
    by (simp add: generatePerVMCloudInitISOs_def)
  ultimately show ?thesis by (auto simp: image_iff intro!: bexI[of _ "nat i"])
qed

definition exec_ok :: host_env where
  "exec_ok tr c = HOk ''''"

theorem fleet_isos_match_witness:
  "Exec [''bash'', ''make-cloud-init-iso.sh'', CloudInitISO (ForVM (DefaultConfig\<lparr>CloudInitISO := ''ci.iso''\<rparr>) 1),
     ''ci.yaml'', ''vm-'' @ fmt_d 1]
   \<in> set (map fst (snd (run_state (generatePerVMCloudInitISOs exec_ok ''ci.iso'' ''ci.yaml'' 2) [])))"
proof -
  let ?cfg = "DefaultConfig\<lparr>CloudInitISO := ''ci.iso''\<rparr>"
  have "fst (run_state (generatePerVMCloudInitISOs exec_ok (CloudInitISO ?cfg) ''ci.yaml'' 2) []) = GenOK"
    by (simp add: generatePerVMCloudInitISOs_def exec_ok_def run_state_bind run_state_return eval_nat_numeral)
  then have "run_state (generatePerVMCloudInitISOs exec_ok (CloudInitISO ?cfg) ''ci.yaml'' 2) [] =
      (GenOK, snd (run_state (generatePerVMCloudInitISOs exec_ok (CloudInitISO ?cfg) ''ci.yaml'' 2) []))"
    by (metis prod.collapse)
  from fleet_isos_match[OF _ _ _ _ this, of "''ci''" 1] show ?thesis by simp
qed


section \<open>Machines and images are given back\<close>

lemma balanced_cmd_boot: "balanced cleanup_vm is_release (cmd_boot d cfg vmID)"
  unfolding cmd_boot_def by (auto intro!: vm_launch.balanced_intros)

text \<open>
  The VMs of the \<open>run\<close> and \<open>serve\<close> commands.  Whatever fails, the goroutine of a VM stops the
  machine it created and removes its copy of the root image, each exactly once and in reverse order.
\<close>

theorem cmd_launch_vm_releases:
  "owed cleanup_vm is_release [] (snd (run_state (cmd_launch_vm d baseCfg vmID) [])) = Some []"
proof -
  have tap: "balanced cleanup_vm is_release (perform d (DepEnsureTAP v))" for v
    by (rule vm_res.balanced_perform) simp_all
  have "balanced cleanup_vm is_release (cmd_launch_vm d baseCfg vmID)"
    unfolding cmd_launch_vm_def Let_def
    by (rule vm_launch.balanced_rootfs)
       (auto intro!: vm_launch.balanced_intros tap balanced_cmd_boot)
  then show ?thesis by (rule balanced_run)
qed

text \<open>
  C40. A single VM.  The machine is stopped before the command returns unless the command exits with
  an error after the machine was created: then it is left as it is.
\<close>

theorem single_vm_stopped_iff:
  "case run_state (runSingleVM d cfg) [] of (status, tr) \<Rightarrow>
    (status = 0 \<or> status = 1) \<and>
    (owed cleanup_vm is_release [] tr = Some [] \<longleftrightarrow> status = 0 \<or> failed (snd (tr ! 0)))"
  by (cases "d [] (DepFactory cfg)")
     (auto simp: runSingleVM_def run_state_bind run_state_return)

text \<open>The command the trainee is told to type for a hint does not exist; nor does the documented subcommand.\<close>

lemma no_hint_command:
  "Execute [''onfire'', ''hint''] = CmdExit 1" "scenarioCmd load (''hint'' # args) = Inl 1"
  by (simp_all add: Execute_def scenarioCmd_def)

end
