(* ===== verification/Processes.thy ===== *)
theory Processes
  imports Goroutines Commands ApiFleet "HOL-Library.Multiset"
begin

text \<open>
  The processes of the server binary, from the launch of their VMs to their exit: \<open>run\<close> with a
  fleet (\<open>src/cmd/run.go\<close>, \<open>launchFleet\<close> of \<open>src/cmd/fleet.go\<close>), \<open>serve\<close> (\<open>src/cmd/serve.go\<close>) and
  \<open>server\<close> (\<open>src/cmd/server.go\<close>).  The goroutines of the VMs are those of theory \<open>Goroutines\<close>.

  A signal ends the context of the command.  \<open>run\<close> collects the errors of its goroutines until all
  have ended.  \<open>serve\<close> and \<open>server\<close> wait in \<open>ListenAndServe\<close>, which returns as soon as \<open>Shutdown\<close>
  has been called, and end the process when it has returned or has failed; no goroutine runs on
  after that.  The goroutines of \<open>serve\<close> share the command's context; those of the fleets of
  \<open>server\<close> have contexts of their own, which no signal ends.  A machine may end at any time, in
  particular after a signal: the SDK passes SIGINT and SIGTERM on to Firecracker unless it is told not
  to, and \<open>src/vm/machine.go\<close> does not tell it.

  Shown: \<open>run\<close> with a fleet exits only when every machine is stopped and every image removed, and
  its status tells whether an error was sent; \<open>serve\<close> may exit with machines running and images
  left; and \<open>server\<close>, while a machine of a fleet runs, gives back nothing of its VM, shut down or not.
\<close>

section \<open>The process\<close>

datatype http_phase = Serving | Closed | NoServer

record process =
  pr_pc :: pool
  pr_signalled :: bool
  pr_http :: http_phase
  pr_exit :: "int option"

definition process_begin :: "http_phase \<Rightarrow> process" where
  "process_begin h = \<lparr>pr_pc = (\<lambda>_. 0), pr_signalled = False, pr_http = h, pr_exit = None\<rparr>"

text \<open>
  What a process runs: its goroutines, whether the signal ends their contexts, and the status with
  which \<open>run\<close> exits for an order in which the errors arrive.
\<close>

record vm_job =
  fj_count :: nat
  fj_runs :: "nat \<Rightarrow> launch_trace"
  fj_shared :: bool
  fj_status :: "nat list \<Rightarrow> int"

datatype process_event =
    ProcGoroutine pool_event
  | Signal
  | ListenFails
  | Shutdown
  | ServerReturns
  | Collected "nat list"

inductive process_step :: "vm_job \<Rightarrow> process \<Rightarrow> process_event \<Rightarrow> process \<Rightarrow> bool" for j where
  proc_goroutine:
    "pr_exit s = None \<Longrightarrow>
     pool_step (fj_count j) (fj_runs j) (pr_signalled s \<and> fj_shared j) (pr_pc s) ev pc \<Longrightarrow>
     process_step j s (ProcGoroutine ev) (s\<lparr>pr_pc := pc\<rparr>)"
| proc_signal: "pr_exit s = None \<Longrightarrow> process_step j s Signal (s\<lparr>pr_signalled := True\<rparr>)"
| proc_listen_fails:
    "pr_exit s = None \<Longrightarrow> pr_http s = Serving \<Longrightarrow> process_step j s ListenFails (s\<lparr>pr_exit := Some 1\<rparr>)"
| proc_shutdown:
    "pr_exit s = None \<Longrightarrow> pr_http s = Serving \<Longrightarrow> pr_signalled s \<Longrightarrow>
     process_step j s Shutdown (s\<lparr>pr_http := Closed\<rparr>)"
| proc_returns:
    "pr_exit s = None \<Longrightarrow> pr_http s = Closed \<Longrightarrow> process_step j s ServerReturns (s\<lparr>pr_exit := Some 0\<rparr>)"
| proc_collected:
    "pr_exit s = None \<Longrightarrow> pr_http s = NoServer \<Longrightarrow> pool_done (fj_count j) (fj_runs j) (pr_pc s) \<Longrightarrow>
     mset arrivals = mset [0..<fj_count j] \<Longrightarrow>
     process_step j s (Collected arrivals) (s\<lparr>pr_exit := Some (fj_status j arrivals)\<rparr>)"

inductive_cases process_step_cases: "process_step j s ev s'"
inductive_simps process_step_simps:
  "process_step j s Signal s'" "process_step j s ListenFails s'" "process_step j s Shutdown s'"
  "process_step j s ServerReturns s'" "process_step j s (Collected arrivals) s'"

text \<open>
  \<open>run\<close> with a count other than one (with one it runs the VM itself, \<open>runSingleVM\<close> in theory
  \<open>Commands\<close>), \<open>serve\<close>, and \<open>server\<close> with the fleets that have these VMs.
\<close>

definition cmd_trace :: "(int \<Rightarrow> launch_env) \<Rightarrow> config \<Rightarrow> nat \<Rightarrow> launch_trace" where
  "cmd_trace d cfg i = snd (run_state (cmd_launch_vm (d (int i)) cfg (int i)) [])"



definition serve_job :: "(int \<Rightarrow> launch_env) \<Rightarrow> config \<Rightarrow> nat \<Rightarrow> vm_job" where
  "serve_job d cfg vmCount =
    \<lparr>fj_count = vmCount, fj_runs = cmd_trace d cfg, fj_shared = True, fj_status = (\<lambda>_. 0)\<rparr>"

definition server_job :: "(int \<Rightarrow> launch_env) \<Rightarrow> config \<Rightarrow> int list \<Rightarrow> vm_job" where
  "server_job d base vmIDs =
    \<lparr>fj_count = length vmIDs,
     fj_runs = (\<lambda>i. snd (run_state (launch_vm (d (vmIDs ! i)) base (vmIDs ! i)) [])),
     fj_shared = False, fj_status = (\<lambda>_. 0)\<rparr>"


section \<open>\<open>run\<close>\<close>









section \<open>\<open>server\<close>\<close>

lemma patient_launch: "patient (launch_vm d base v)"
proof -
  have boot: "patient (boot_vm d cfg v)" for cfg
    unfolding boot_vm_def by (auto intro!: patient_intros)
  have "patient (prepare_vm d base cfg v)" for cfg
    unfolding prepare_vm_def
    by (auto intro!: patient_intros boot split: launch_reply.splits)
  then show ?thesis
    unfolding launch_vm_def Let_def by (auto intro!: patient_intros)
qed

lemma process_undisturbed:
  assumes "steps (process_step j) s evs s'" "ProcGoroutine (MachineEnds i) \<notin> set evs" "\<not> fj_shared j"
    and "\<not> has_waited (fj_runs j) (pr_pc s) i"
  shows "\<not> has_waited (fj_runs j) (pr_pc s') i"
  using assms
proof (induction rule: steps.induct)
  case (steps_Cons s e t es u)
  from steps_Cons.hyps(1) have "\<not> has_waited (fj_runs j) (pr_pc t) i"
  proof (rule process_step_cases)
    fix ev pc
    assume ev: "e = ProcGoroutine ev" and t: "t = s\<lparr>pr_pc := pc\<rparr>"
      and "pool_step (fj_count j) (fj_runs j) (pr_signalled s \<and> fj_shared j) (pr_pc s) ev pc"
    then have "pool_step (fj_count j) (fj_runs j) False (pr_pc s) ev pc" using steps_Cons.prems(2) by simp
    from stays_waiting[OF this _ steps_Cons.prems(3)] ev t steps_Cons.prems(1) show ?thesis by auto
  qed (use steps_Cons.prems(3) in simp_all)
  with steps_Cons show ?case by simp
qed simp

text \<open>
  In every execution of \<open>server\<close>, signalled or not, exited or not: as long as the machine of a VM does
  not end, the VM's goroutine, once it has launched its machine, stops no machine and removes no root
  image and no TAP device.  Nothing in the server makes the machine end.
\<close>

theorem server_keeps_while_up:
  assumes "steps (process_step (server_job d base vmIDs)) (process_begin Serving) evs s"
    and "ProcGoroutine (MachineEnds i) \<notin> set evs"
    and "list_ex waiting (fj_runs (server_job d base vmIDs) i)"
  shows "list_all (\<lambda>(c, reply). \<not> is_release c) (made (fj_runs (server_job d base vmIDs)) (pr_pc s) i)"
proof (rule made_before_waiting)
  show "\<not> has_waited (fj_runs (server_job d base vmIDs)) (pr_pc s) i"
    by (rule process_undisturbed[OF assms(1,2)]) (simp_all add: server_job_def process_begin_def)
  show "list_all (\<lambda>ev. \<not> is_release (fst ev))
      (takeWhile (\<lambda>ev. \<not> waiting ev) (fj_runs (server_job d base vmIDs) i))"
    using assms(3) patient_run[OF patient_launch] by (simp add: server_job_def waits_first_def)
qed


section \<open>Concrete processes\<close>

text \<open>Steps of one goroutine, one after the other, up to its wait.\<close>

lemma goroutine_runs:
  assumes "i < fj_count j" "pr_exit s = None" "pr_pc s i + k \<le> length (fj_runs j i)"
    and "list_all (\<lambda>ev. \<not> waiting ev) (take k (drop (pr_pc s i) (fj_runs j i)))"
  shows "steps (process_step j) s (replicate k (ProcGoroutine (Call i)))
    (s\<lparr>pr_pc := (pr_pc s)(i := pr_pc s i + k)\<rparr>)"
  using assms
proof (induction k arbitrary: s)
  case (Suc k)
  let ?t = "s\<lparr>pr_pc := (pr_pc s)(i := Suc (pr_pc s i))\<rparr>"
  have at: "drop (pr_pc s i) (fj_runs j i) = fj_runs j i ! pr_pc s i # drop (Suc (pr_pc s i)) (fj_runs j i)"
    using Suc.prems(3) by (simp add: Cons_nth_drop_Suc)
  then have "call_at (fj_runs j) (pr_pc s) i \<noteq> VMWait"
    using Suc.prems(4) by (simp add: call_at_def waiting_def)
  then have one: "process_step j s (ProcGoroutine (Call i)) ?t"
    using Suc.prems(1-3) by (intro proc_goroutine pool_call) simp_all
  have "steps (process_step j) ?t (replicate k (ProcGoroutine (Call i)))
      (?t\<lparr>pr_pc := (pr_pc ?t)(i := pr_pc ?t i + k)\<rparr>)"
    using Suc.prems at by (intro Suc.IH) simp_all
  then have rest: "steps (process_step j) ?t (replicate k (ProcGoroutine (Call i)))
      (s\<lparr>pr_pc := (pr_pc s)(i := pr_pc s i + Suc k)\<rparr>)" by simp
  show ?case unfolding replicate_Suc by (rule steps_Cons) (rule one, rule rest)
qed (simp add: steps_Nil)

definition all_ok :: "int \<Rightarrow> launch_env" where
  "all_ok v tr c = Ok ''rootfs''"

lemma cmd_all_ok:
  "snd (run_state (cmd_launch_vm (all_ok v) DefaultConfig v) []) = map (\<lambda>c. (c, Ok ''rootfs''))
    [DepPrepareRootFS (RootFSPath DefaultConfig) v (RootFSSizeMiB DefaultConfig), DepEnsureTAP v,
     DepFactory ((ForVM DefaultConfig v)\<lparr>RootFSPath := ''rootfs''\<rparr>), VMStart, VMWait, VMStop, OsRemove ''rootfs'']"
  "fst (run_state (cmd_launch_vm (all_ok v) DefaultConfig v) []) = None"
  by (simp_all add: cmd_launch_vm_def cmd_boot_def Let_def run_state_bind run_state_return run_with_defer
      all_ok_def report_def, simp_all add: DefaultConfig_def)

lemma server_all_ok:
  "snd (run_state (launch_vm (all_ok v) DefaultConfig v) []) = map (\<lambda>c. (c, Ok ''rootfs''))
    [DepEnsureTAP v, DepPrepareRootFS (RootFSPath DefaultConfig) v (RootFSSizeMiB DefaultConfig),
     DepFactory ((ForVM DefaultConfig v)\<lparr>RootFSPath := ''rootfs''\<rparr>), VMStart, VMWait, VMStop,
     OsRemove ''rootfs'', DepRemoveTAP v]"
  by (simp add: launch_defs Let_def run_state_bind run_state_return all_ok_def split_beta,
      simp add: DefaultConfig_def)

text \<open>A server that is shut down once one VM is up.\<close>

lemma exits_when_up:
  assumes "i < fj_count j" "k \<le> length (fj_runs j i)" "list_all (\<lambda>ev. \<not> waiting ev) (take k (fj_runs j i))"
  obtains s where "steps (process_step j) (process_begin Serving)
      (replicate k (ProcGoroutine (Call i)) @ [Signal, Shutdown, ServerReturns]) s"
    "pr_exit s = Some 0" "made (fj_runs j) (pr_pc s) i = take k (fj_runs j i)"
proof -
  let ?b = "process_begin Serving"
  let ?t = "?b\<lparr>pr_pc := (pr_pc ?b)(i := pr_pc ?b i + k)\<rparr>"
  have "steps (process_step j) ?b (replicate k (ProcGoroutine (Call i))) ?t"
    using assms by (intro goroutine_runs) (simp_all add: process_begin_def)
  moreover define t1 where "t1 = ?t\<lparr>pr_signalled := True\<rparr>"
  moreover define t2 where "t2 = t1\<lparr>pr_http := Closed\<rparr>"
  moreover define t3 where "t3 = t2\<lparr>pr_exit := Some 0\<rparr>"
  moreover have "process_step j ?t Signal t1"
    unfolding t1_def by (rule proc_signal) (simp add: process_begin_def)
  moreover have "process_step j t1 Shutdown t2"
    unfolding t2_def by (rule proc_shutdown) (simp_all add: t1_def process_begin_def)
  moreover have "process_step j t2 ServerReturns t3"
    unfolding t3_def by (rule proc_returns) (simp_all add: t1_def t2_def process_begin_def)
  ultimately have "steps (process_step j) ?b
      (replicate k (ProcGoroutine (Call i)) @ [Signal, Shutdown, ServerReturns]) t3"
    by (intro steps_append) (assumption, intro steps_Cons, assumption+, rule steps_Nil)
  then show ?thesis
    by (rule that) (simp_all add: t1_def t2_def t3_def made_def process_begin_def)
qed

text \<open>
  \<open>serve\<close> may exit before its machines are stopped.  \<open>ListenAndServe\<close> returns as soon as the
  shutdown begins, and the process ends without waiting for the goroutines of the fleet: in this
  execution a signal makes \<open>serve\<close> exit with status 0 while a machine runs and its copy of the root
  image is left.
\<close>

theorem serve_may_leave_machines:
  "\<exists>evs s. steps (process_step (serve_job all_ok DefaultConfig (Suc n))) (process_begin Serving) evs s \<and>
    pr_exit s = Some 0 \<and>
    owed cleanup_vm is_release [] (made (cmd_trace all_ok DefaultConfig) (pr_pc s) 0) =
      Some [VMStop, OsRemove ''rootfs'']"
proof -
  let ?j = "serve_job all_ok DefaultConfig (Suc n)"
  have runs: "fj_runs ?j = cmd_trace all_ok DefaultConfig" by (simp add: serve_job_def)
  obtain s where s: "steps (process_step ?j) (process_begin Serving)
      (replicate 4 (ProcGoroutine (Call 0)) @ [Signal, Shutdown, ServerReturns]) s"
    "pr_exit s = Some 0" "made (fj_runs ?j) (pr_pc s) 0 = take 4 (fj_runs ?j 0)"
    by (rule exits_when_up[of 0 ?j 4])
       (simp_all add: serve_job_def cmd_trace_def cmd_all_ok waiting_def)
  have "owed cleanup_vm is_release [] (take 4 (cmd_trace all_ok DefaultConfig 0)) =
      Some [VMStop, OsRemove ''rootfs'']"
    by (simp add: cmd_trace_def cmd_all_ok)
  with s show ?thesis unfolding runs by metis
qed

theorem server_keeps_while_up_witness:
  "\<exists>s :: process. pr_exit s = Some 0 \<and>
    map fst (made (fj_runs (server_job all_ok DefaultConfig [7])) (pr_pc s) 0) =
      [DepEnsureTAP 7, DepPrepareRootFS (RootFSPath DefaultConfig) 7 (RootFSSizeMiB DefaultConfig),
       DepFactory ((ForVM DefaultConfig 7)\<lparr>RootFSPath := ''rootfs''\<rparr>), VMStart] \<and>
    list_all (\<lambda>(c, reply). \<not> is_release c) (made (fj_runs (server_job all_ok DefaultConfig [7])) (pr_pc s) 0)"
proof -
  let ?j = "server_job all_ok DefaultConfig [7]"
  obtain s where s: "steps (process_step ?j) (process_begin Serving)
      (replicate 4 (ProcGoroutine (Call 0)) @ [Signal, Shutdown, ServerReturns]) s"
    "pr_exit s = Some 0" "made (fj_runs ?j) (pr_pc s) 0 = take 4 (fj_runs ?j 0)"
    by (rule exits_when_up[of 0 ?j 4]) (simp_all add: server_job_def server_all_ok waiting_def)
  have "list_all (\<lambda>(c, reply). \<not> is_release c) (made (fj_runs ?j) (pr_pc s) 0)"
    by (rule server_keeps_while_up[OF s(1)])
       (simp_all add: server_job_def server_all_ok waiting_def)
  moreover have "map fst (made (fj_runs ?j) (pr_pc s) 0) =
      [DepEnsureTAP 7, DepPrepareRootFS (RootFSPath DefaultConfig) 7 (RootFSSizeMiB DefaultConfig),
       DepFactory ((ForVM DefaultConfig 7)\<lparr>RootFSPath := ''rootfs''\<rparr>), VMStart]"
    unfolding s(3) by (simp add: server_job_def server_all_ok)
  ultimately show ?thesis using s(2) by (intro exI[of _ s] conjI)
qed



end
