(* ===== verification/AgentWorkers.thy ===== *)
theory AgentWorkers
  imports AgentFaults
begin

text \<open>
  The loops behind two faults of \<open>src/agent/faults.go\<close>: the workers of \<open>runCPUFault\<close>, which spin until a
  deadline and then sleep, and the loop of \<open>runMemoryFault\<close>, which selects between the end of its
  context and its ticker.

  A worker sees the clock, its sleeps and its context; the memory fault sees which of the two
  channels was ready and what \<open>/proc/meminfo\<close> said.  Loops that may not end carry fuel.

  Shown: in every round of a worker the sleep follows a spell of work of the asked length, whatever
  the clock does; with a clock that advances and a context that ends, a worker returns; the
  memory fault holds no more chunks than it saw ticks, stops at its ceiling and gives all back.
\<close>

section \<open>The workers of the CPU fault\<close>

datatype worker_call = WorkerCtxDone | Now | SleepFor int

datatype worker_reply = Go | Ended | Clock int

type_synonym worker_env = "(worker_call, worker_reply) env"
type_synonym 'a worker_prog = "(worker_call, worker_reply, 'a) prog"

definition read_clock :: "worker_reply \<Rightarrow> int" where
  "read_clock r = (case r of Clock t \<Rightarrow> t | _ \<Rightarrow> 0)"

text \<open>The inner loop; \<open>False\<close>: still spinning when the fuel ran out.\<close>

fun spin :: "worker_env \<Rightarrow> int \<Rightarrow> nat \<Rightarrow> bool worker_prog" where
  "spin e deadline 0 = State_Monad.return False"
| "spin e deadline (Suc n) =
    State_Monad.bind (perform e Now) (\<lambda>r.
      if read_clock r < deadline then spin e deadline n else State_Monad.return True)"

text \<open>The worker, for its work and sleep times; \<open>True\<close>: it has returned.\<close>

fun cpu_worker :: "worker_env \<Rightarrow> int \<Rightarrow> int \<Rightarrow> nat \<Rightarrow> nat \<Rightarrow> bool worker_prog" where
  "cpu_worker e work idle spins 0 = State_Monad.return False"
| "cpu_worker e work idle spins (Suc n) =
    State_Monad.bind (perform e WorkerCtxDone) (\<lambda>r.
      case r of
        Ended \<Rightarrow> State_Monad.return True
      | _ \<Rightarrow>
        State_Monad.bind (perform e Now) (\<lambda>r.
          State_Monad.bind (spin e (read_clock r + work) spins) (\<lambda>over.
            if over then State_Monad.bind (perform e (SleepFor idle)) (\<lambda>_. cpu_worker e work idle spins n)

            else State_Monad.return False)))"

definition cpu_workers :: "worker_env \<Rightarrow> params \<Rightarrow> nat \<Rightarrow> nat \<Rightarrow> bool worker_prog" where
  "cpu_workers e ps =
    cpu_worker e (wrap64 (cpu_load ps * Millisecond)) (wrap64 (wrap64 (100 - cpu_load ps) * Millisecond))"


section \<open>The loop of the memory fault\<close>

datatype memory_call = Select | ReadMemInfo

datatype memory_reply = Cancelled | Ticked | MemInfo "(nat \<times> nat) option"

type_synonym memory_env = "(memory_call, memory_reply) env"
type_synonym 'a memory_prog = "(memory_call, memory_reply, 'a) prog"

definition meminfo_of :: "memory_reply \<Rightarrow> (nat \<times> nat) option" where
  "meminfo_of r = (case r of MemInfo m \<Rightarrow> m | _ \<Rightarrow> None)"

text \<open>
  The chunks held when the loop returns (\<open>Inr\<close>) or when the fuel ran out (\<open>Inl\<close>).
\<close>

fun memory_loop :: "memory_env \<Rightarrow> int \<Rightarrow> nat \<Rightarrow> nat \<Rightarrow> (nat + nat) memory_prog" where
  "memory_loop e ceilingPct chunks 0 = State_Monad.return (Inl chunks)"
| "memory_loop e ceilingPct chunks (Suc n) =
    State_Monad.bind (perform e Select) (\<lambda>r.
      case r of
        Cancelled \<Rightarrow> State_Monad.return (Inr 0)
      | _ \<Rightarrow>
        State_Monad.bind (perform e ReadMemInfo) (\<lambda>r.
          if meminfo_of r = None then memory_loop e ceilingPct (memory_tick ceilingPct None None chunks) n
          else State_Monad.bind (perform e ReadMemInfo) (\<lambda>r'.
            memory_loop e ceilingPct (memory_tick ceilingPct (meminfo_of r) (meminfo_of r') chunks) n)))"

text \<open>\<open>None\<close>: the interval of the ticker makes the agent panic.\<close>

definition runMemoryFault :: "memory_env \<Rightarrow> (string \<Rightarrow> string) \<Rightarrow> params \<Rightarrow> nat \<Rightarrow> (nat + nat) option memory_prog" where
  "runMemoryFault e uni ps fuel =
    (case memory_interval uni ps of
       None \<Rightarrow> State_Monad.return None
     | Some interval \<Rightarrow>
         State_Monad.bind (memory_loop e (memory_ceiling ps) 0 fuel) (\<lambda>res. State_Monad.return (Some res)))"


section \<open>Rounds of a worker\<close>

text \<open>
  A round: the look at the context, the start of the spell, readings before the deadline, the first
  reading at or after it, and the sleep.
\<close>

definition round_ok :: "int \<Rightarrow> int \<Rightarrow> (worker_call, worker_reply) trace \<Rightarrow> bool" where
  "round_ok work idle cycle \<longleftrightarrow> (\<exists>c t0 early t x.
    cycle = (WorkerCtxDone, c) # (Now, t0) # map (Pair Now) early @ [(Now, t), (SleepFor idle, x)] \<and>
    c \<noteq> Ended \<and> list_all (\<lambda>r. read_clock r < read_clock t0 + work) early \<and>
    read_clock t0 + work \<le> read_clock t)"

lemma spin_run:
  assumes "run_state (spin e deadline n) tr = (True, tr')"
  shows "\<exists>early t. tr' = tr @ map (Pair Now) early @ [(Now, t)] \<and>
    list_all (\<lambda>r. read_clock r < deadline) early \<and> deadline \<le> read_clock t"
  using assms
proof (induction n arbitrary: tr)
  case (Suc n)
  let ?r = "e tr Now"
  show ?case
  proof (cases "read_clock ?r < deadline")
    case True
    with Suc.prems have "run_state (spin e deadline n) (tr @ [(Now, ?r)]) = (True, tr')"
      by (simp add: run_state_bind)
    from Suc.IH[OF this] obtain early t where "tr' = (tr @ [(Now, ?r)]) @ map (Pair Now) early @ [(Now, t)]"
      "list_all (\<lambda>r. read_clock r < deadline) early" "deadline \<le> read_clock t" by (elim exE conjE)
    with True show ?thesis by (intro exI[of _ "?r # early"] exI[of _ t]) simp
  next
    case False
    with Suc.prems show ?thesis
      by (intro exI[of _ "[]"] exI[of _ ?r]) (simp add: run_state_bind run_state_return)
  qed
qed (simp add: run_state_return)

lemma worker_run:
  assumes "run_state (cpu_worker e work idle spins n) tr = (True, tr')"
  shows "\<exists>rounds. tr' = tr @ concat rounds @ [(WorkerCtxDone, Ended)] \<and> list_all (round_ok work idle) rounds"
  using assms
proof (induction n arbitrary: tr)
  case (Suc n)
  let ?c = "e tr WorkerCtxDone"
  show ?case
  proof (cases "?c = Ended")
    case True
    with Suc.prems show ?thesis
      by (intro exI[of _ "[]"]) (simp add: run_state_bind run_state_return)
  next
    case False
    let ?tr = "tr @ [(WorkerCtxDone, ?c)]"
    let ?t0 = "e ?tr Now"
    obtain over tr1 where spin: "run_state (spin e (read_clock ?t0 + work) spins) (?tr @ [(Now, ?t0)]) = (over, tr1)"
      by fastforce
    let ?x = "e tr1 (SleepFor idle)"
    have over: over and rest: "run_state (cpu_worker e work idle spins n) (tr1 @ [(SleepFor idle, ?x)]) = (True, tr')"
      using Suc.prems False spin
      by (cases ?c; simp add: run_state_bind run_state_return split: if_splits)+
    from spin_run[OF spin[unfolded eqTrueI[OF over]]] obtain early t
      where tr1: "tr1 = (?tr @ [(Now, ?t0)]) @ map (Pair Now) early @ [(Now, t)]"
        "list_all (\<lambda>r. read_clock r < read_clock ?t0 + work) early" "read_clock ?t0 + work \<le> read_clock t"
      by (elim exE conjE)
    let ?round = "(WorkerCtxDone, ?c) # (Now, ?t0) # map (Pair Now) early @ [(Now, t), (SleepFor idle, ?x)]"
    have "round_ok work idle ?round" using False tr1(2,3) unfolding round_ok_def by blast
    moreover from Suc.IH[OF rest] obtain rounds
      where "tr' = (tr1 @ [(SleepFor idle, ?x)]) @ concat rounds @ [(WorkerCtxDone, Ended)]"
        "list_all (round_ok work idle) rounds" by (elim exE conjE)
    ultimately show ?thesis using tr1(1) by (intro exI[of _ "?round # rounds"]) simp
  qed
qed (simp add: run_state_return)

text \<open>
  The load of the CPU fault.  The life of a worker is a sequence of rounds, each of which spins for
  at least the asked time, neither sleeping nor looking at its context meanwhile, and then sleeps
  once; the worker returns only when its context has ended, at the start of a round.
\<close>

theorem cpu_worker_rounds:
  assumes "run_state (cpu_worker e work idle spins n) [] = (True, tr)"
  shows "\<exists>rounds. tr = concat rounds @ [(WorkerCtxDone, Ended)] \<and> list_all (round_ok work idle) rounds"
  using worker_run[OF assms] by simp


section \<open>Workers end\<close>

text \<open>A clock that advances with every reading, and a context that has ended from some call on.\<close>

definition ticking :: "worker_env \<Rightarrow> (nat \<Rightarrow> int) \<Rightarrow> bool" where
  "ticking e f \<longleftrightarrow> strict_mono f \<and> (\<forall>tr. e tr Now = Clock (f (length tr)))"

definition ends_from :: "worker_env \<Rightarrow> nat \<Rightarrow> bool" where
  "ends_from e k \<longleftrightarrow> (\<forall>tr. k \<le> length tr \<longrightarrow> e tr WorkerCtxDone = Ended)"

lemma strict_mono_gains:
  fixes f :: "nat \<Rightarrow> int"
  assumes "strict_mono f"
  shows "f m + int k \<le> f (m + k)"
proof (induction k)
  case (Suc k)
  have "f (m + k) < f (m + Suc k)" using assms by (simp add: strict_mono_def)
  with Suc show ?case by simp
qed simp

lemma spin_ends:
  assumes "ticking e f" "deadline \<le> f (length tr) + int n"
  shows "fst (run_state (spin e deadline (Suc n)) tr) \<and> prefix tr (snd (run_state (spin e deadline (Suc n)) tr))"
  using assms(2)
proof (induction n arbitrary: tr)
  case 0
  then show ?case using assms(1) by (simp add: ticking_def run_state_bind run_state_return read_clock_def)
next
  case (Suc n)
  let ?tr = "tr @ [(Now, e tr Now)]"
  have "f (length tr) + 1 \<le> f (length ?tr)"
    using strict_mono_gains[of f "length tr" 1] assms(1) by (simp add: ticking_def)
  with Suc.prems have "deadline \<le> f (length ?tr) + int n" by simp
  from Suc.IH[OF this] assms(1) show ?case
    by (subst (1 2) spin.simps) (auto simp: ticking_def run_state_bind run_state_return intro: append_prefixD)
qed

lemma worker_ends:
  assumes "ticking e f" "ends_from e k" "work \<le> int spins" "k \<le> length tr + n"
  shows "fst (run_state (cpu_worker e work idle (Suc spins) (Suc n)) tr)"
  using assms(4)
proof (induction n arbitrary: tr)
  case 0
  then show ?case using assms(2) by (simp add: ends_from_def run_state_bind run_state_return)
next
  case (Suc n)
  let ?c = "e tr WorkerCtxDone"
  let ?tr = "tr @ [(WorkerCtxDone, ?c)]"
  let ?t0 = "e ?tr Now"
  let ?s = "spin e (read_clock ?t0 + work) (Suc spins)"
  have "f (length ?tr) \<le> f (length (?tr @ [(Now, ?t0)]))"
    using assms(1) by (simp add: ticking_def strict_mono_less_eq)
  then have "read_clock ?t0 + work \<le> f (length (?tr @ [(Now, ?t0)])) + int spins"
    using assms(1,3) by (simp add: ticking_def read_clock_def)
  from spin_ends[OF assms(1) this] obtain tr1
    where run: "run_state ?s (?tr @ [(Now, ?t0)]) = (True, tr1)" and grows: "prefix (?tr @ [(Now, ?t0)]) tr1"
    by (metis prod.collapse)
  let ?tr2 = "tr1 @ [(SleepFor idle, e tr1 (SleepFor idle))]"
  have "length tr < length ?tr2" using prefix_length_le[OF grows] by simp
  with Suc.prems have "k \<le> length ?tr2 + n" by simp
  from Suc.IH[OF this] have rest: "fst (run_state (cpu_worker e work idle (Suc spins) (Suc n)) ?tr2)" .
  show ?case
  proof (cases "?c = Ended")
    case False
    then have "run_state (cpu_worker e work idle (Suc spins) (Suc (Suc n))) tr =
        run_state (cpu_worker e work idle (Suc spins) (Suc n)) ?tr2"
      using run by (cases ?c; subst cpu_worker.simps)
        (simp_all del: spin.simps cpu_worker.simps add: run_state_bind run_state_return)
    with rest show ?thesis by simp
  qed (simp add: run_state_bind run_state_return)
qed

text \<open>
  A worker ends.  On a clock that advances with every reading, a worker whose context has ended
  from some call on returns, given fuel for its spells and for the calls made until then.
\<close>

theorem cpu_worker_ends:
  assumes "ticking e f" "ends_from e k" "work \<le> int spins" "k \<le> n"
  shows "fst (run_state (cpu_worker e work idle (Suc spins) (Suc n)) [])"
  using worker_ends[OF assms(1-3), of "[]"] assms(4) by simp


section \<open>The memory held\<close>

text \<open>The readings a run of the loop took, tick by tick.\<close>

definition ticks_in :: "(memory_call, memory_reply) trace \<Rightarrow> nat" where
  "ticks_in tr = length (filter (\<lambda>(c, r). c = Select \<and> r \<noteq> Cancelled) tr)"

definition chunks_of :: "nat + nat \<Rightarrow> nat" where
  "chunks_of res = (case res of Inl n \<Rightarrow> n | Inr n \<Rightarrow> n)"

lemma memory_tick_le: "memory_tick ceilingPct a b chunks \<le> Suc chunks" "chunks \<le> memory_tick ceilingPct a b chunks"
  by (auto simp: memory_tick_def Let_def split: option.splits prod.splits)

lemma ticks_in_simps [simp]:
  "ticks_in [] = 0" "ticks_in (tr @ tr') = ticks_in tr + ticks_in tr'"
  "ticks_in [(Select, r)] = (if r = Cancelled then 0 else 1)" "ticks_in [(ReadMemInfo, r)] = 0"
  by (simp_all add: ticks_in_def)

lemma memory_loop_bound:
  "chunks_of (fst (run_state (memory_loop e ceilingPct chunks n) tr)) + ticks_in tr \<le>
     chunks + ticks_in (snd (run_state (memory_loop e ceilingPct chunks n) tr))"
proof (induction n arbitrary: chunks tr)
  case (Suc n)
  let ?run = "\<lambda>chunks tr. run_state (memory_loop e ceilingPct chunks n) tr"
  let ?r = "e tr Select" and ?tr1 = "tr @ [(Select, e tr Select)]"
  let ?m = "e ?tr1 ReadMemInfo"
  let ?tr2 = "?tr1 @ [(ReadMemInfo, ?m)]"
  let ?tr3 = "?tr2 @ [(ReadMemInfo, e ?tr2 ReadMemInfo)]"
  have step: "chunks_of (fst (?run c t)) + ticks_in tr \<le> chunks + ticks_in (snd (?run c t))"
    if "c \<le> Suc chunks" "ticks_in t = ticks_in tr + 1" for c t
    using Suc.IH[of c t] that by simp
  show ?case
  proof (cases "?r = Cancelled")
    case True
    then show ?thesis by (simp add: run_state_bind run_state_return chunks_of_def)
  next
    case False
    then have "run_state (memory_loop e ceilingPct chunks (Suc n)) tr =
        (if meminfo_of ?m = None then ?run (memory_tick ceilingPct None None chunks) ?tr2
         else ?run (memory_tick ceilingPct (meminfo_of ?m) (meminfo_of (e ?tr2 ReadMemInfo)) chunks) ?tr3)"
      by (cases ?r; simp add: run_state_bind)
    moreover have "ticks_in ?tr2 = ticks_in tr + 1" "ticks_in ?tr3 = ticks_in tr + 1"
      using False by (simp_all add: ticks_in_def)
    ultimately show ?thesis using step memory_tick_le(1) by simp
  qed
qed (simp add: chunks_of_def run_state_return)

text \<open>A returned memory fault holds nothing; a running one at most one chunk per tick.\<close>

theorem memory_fault_bounded:
  "case fst (run_state (memory_loop e ceilingPct 0 n) []) of
     Inr held \<Rightarrow> held = 0
   | Inl held \<Rightarrow> held \<le> ticks_in (snd (run_state (memory_loop e ceilingPct 0 n) []))"
proof -
  have ret: "fst (run_state (memory_loop e ceilingPct c n) tr) = Inr held \<Longrightarrow> held = 0" for c n tr held
    by (induction n arbitrary: c tr)
       (auto simp: run_state_bind run_state_return split: memory_reply.splits if_splits)
  then show ?thesis
    using memory_loop_bound[of e ceilingPct 0 n "[]"] by (auto simp: chunks_of_def split: sum.splits)
qed

end
