(* ===== verification/WebTerminal.thy ===== *)
theory WebTerminal
  imports Resources GoPath Float64
begin

text \<open>
  The terminal in the browser, \<open>src/cmd/serve.go\<close>, and the routes of the two HTTP servers that offer
  it (also \<open>src/cmd/server.go\<close>): \<open>wsHandler\<close> connects a web socket to a shell on a VM.

  The connection is an environment of calls.  \<open>json.Unmarshal\<close> of a message into a map is a parameter:
  \<open>None\<close> is its error; a result (it accepts JSON objects, and \<open>null\<close>) is the \<open>type\<close> if that is a
  string, the \<open>cols\<close> and \<open>rows\<close> if they are numbers, and the zero values otherwise.  The loop over
  the messages carries fuel; it ends when a read fails.

  Shown: a VM is dialed at most ten times; the session and the connection are closed in reverse order
  on every path; what arrives and is rejected by the decoder reaches the shell unchanged and in order,
  and what the shell prints is forwarded completely up to the first read error.
\<close>

datatype ws_call =
    WSSleep int
  | WSDial string
  | WSNewSession
  | WSRequestPty string int int
  | WSStdinPipe
  | WSStdoutPipe
  | WSStderrPipe
  | WSShell
  | WSRead
  | WSStdin string
  | WSWindow int int
  | WSSendError string
  | WSEndSession
  | WSCloseSSH

datatype ws_reply = WOk string | WErr string

type_synonym ws_env = "(ws_call, ws_reply) env"
type_synonym 'a ws_prog = "(ws_call, ws_reply, 'a) prog"

record ws_object =
  obj_type :: string
  obj_cols :: f64
  obj_rows :: f64

type_synonym ws_decoder = "string \<Rightarrow> ws_object option"


section \<open>The session\<close>

text \<open>The attempts left, and the number of the next one.\<close>

fun ws_dial :: "ws_env \<Rightarrow> string \<Rightarrow> nat \<Rightarrow> nat \<Rightarrow> string option \<Rightarrow> string option ws_prog" where
  "ws_dial e addr 0 attempt err = State_Monad.return err"
| "ws_dial e addr (Suc n) attempt err =
    State_Monad.bind
      (if 0 < attempt then State_Monad.bind (perform e (WSSleep 2000000000)) (\<lambda>_. State_Monad.return ())
       else State_Monad.return ()) (\<lambda>_.
      State_Monad.bind (perform e (WSDial addr)) (\<lambda>r.
        case r of
          WOk _ \<Rightarrow> State_Monad.return None
        | WErr err \<Rightarrow> ws_dial e addr n (Suc attempt) (Some err)))"

definition handle_message :: "ws_env \<Rightarrow> ws_decoder \<Rightarrow> string \<Rightarrow> unit ws_prog" where
  "handle_message e dec data =
    (case dec data of
       Some msg \<Rightarrow>
         if obj_type msg = ''resize'' then
           State_Monad.bind (perform e (WSWindow (f64_to_int (obj_rows msg)) (f64_to_int (obj_cols msg))))
             (\<lambda>_. State_Monad.return ())
         else State_Monad.return ()
     | None \<Rightarrow> State_Monad.bind (perform e (WSStdin data)) (\<lambda>_. State_Monad.return ()))"

fun ws_loop :: "ws_env \<Rightarrow> ws_decoder \<Rightarrow> nat \<Rightarrow> bool ws_prog" where
  "ws_loop e dec 0 = State_Monad.return False"
| "ws_loop e dec (Suc n) =
    State_Monad.bind (perform e WSRead) (\<lambda>r.
      case r of
        WErr _ \<Rightarrow> State_Monad.return True
      | WOk data \<Rightarrow> State_Monad.bind (handle_message e dec data) (\<lambda>_. ws_loop e dec n))"

text \<open>A step whose failure ends the session with a message to the browser.\<close>

definition or_error :: "ws_env \<Rightarrow> ws_call \<Rightarrow> string \<Rightarrow> bool ws_prog \<Rightarrow> bool ws_prog" where
  "or_error e c what go =
    State_Monad.bind (perform e c) (\<lambda>r.
      case r of
        WErr err \<Rightarrow> State_Monad.bind (perform e (WSSendError (what @ err))) (\<lambda>_. State_Monad.return True)
      | WOk _ \<Rightarrow> go)"

definition ws_session :: "ws_env \<Rightarrow> ws_decoder \<Rightarrow> nat \<Rightarrow> bool ws_prog" where
  "ws_session e dec fuel =
    or_error e (WSRequestPty ''xterm-256color'' 24 80) ''failed to request PTY: ''
      (or_error e WSStdinPipe ''failed to get stdin: ''
        (or_error e WSStdoutPipe ''failed to get stdout: ''
          (or_error e WSStderrPipe ''failed to get stderr: ''
            (or_error e WSShell ''failed to start shell: '' (ws_loop e dec fuel)))))"

definition ws_open :: "ws_env \<Rightarrow> ws_decoder \<Rightarrow> nat \<Rightarrow> bool ws_prog" where
  "ws_open e dec fuel =
    State_Monad.bind (perform e WSNewSession) (\<lambda>r.
      case r of
        WErr err \<Rightarrow>
          State_Monad.bind (perform e (WSSendError (''failed to create session: '' @ err)))
            (\<lambda>_. State_Monad.return True)
      | WOk _ \<Rightarrow> with_defer e WSEndSession (ws_session e dec fuel))"

text \<open>\<open>True\<close>: the handler has returned.\<close>

definition wsHandler :: "ws_env \<Rightarrow> ws_decoder \<Rightarrow> nat \<Rightarrow> int \<Rightarrow> bool ws_prog" where
  "wsHandler e dec fuel vmID =
    (let sshAddr = ''172.16.'' @ fmt_d vmID @ ''.2:22'' in
     State_Monad.bind (ws_dial e sshAddr 10 0 None) (\<lambda>err.
       case err of
         Some err \<Rightarrow>
           State_Monad.bind (perform e (WSSendError (''failed to connect to VM: '' @ err)))
             (\<lambda>_. State_Monad.return True)
       | None \<Rightarrow> with_defer e WSCloseSSH (ws_open e dec fuel)))"

text \<open>
  The goroutines that copy the shell's output: the messages sent for a sequence of reads, each with
  the bytes read and whether it failed.
\<close>

fun pump :: "(string \<times> bool) list \<Rightarrow> string list" where
  "pump [] = []"
| "pump ((data, err) # reads) =
    (if data \<noteq> '''' then [data] else []) @ (if err then [] else pump reads)"


section \<open>The routes\<close>

datatype web_answer =
    IndexPage
  | PageNotFound
  | BadVM
  | OpenTerminal int
  | ApiRequest
  | RedirectTo string

datatype web_route = RIndex | RTerminal | RApi

definition terminal_routes :: "(string \<times> web_route) list" where
  "terminal_routes = [(''/'', RIndex), (''/ws'', RTerminal)]"

definition server_routes :: "(string \<times> web_route) list" where
  "server_routes = [(''/api/'', RApi), (''/ws'', RTerminal), (''/'', RIndex)]"

definition index_page :: "string \<Rightarrow> web_answer" where
  "index_page path = (if path \<noteq> ''/'' then PageNotFound else IndexPage)"

text \<open>The argument \<open>vm\<close> of the query; the stand-alone terminal knows the number of VMs.\<close>

definition StartWebTerminal :: "int \<Rightarrow> string \<Rightarrow> string \<Rightarrow> web_answer" where
  "StartWebTerminal vmCount path vm =
    (case mux_route terminal_routes path of
       Redirect p \<Rightarrow> RedirectTo p
     | NotFound \<Rightarrow> PageNotFound
     | Routed RIndex \<Rightarrow> index_page path
     | Routed _ \<Rightarrow>
         (case Atoi vm of
            None \<Rightarrow> BadVM
          | Some vmID \<Rightarrow> if vmID < 0 \<or> vmCount \<le> vmID then BadVM else OpenTerminal vmID))"

definition server_web :: "string \<Rightarrow> string \<Rightarrow> web_answer" where
  "server_web path vm =
    (case mux_route server_routes path of
       Redirect p \<Rightarrow> RedirectTo p
     | NotFound \<Rightarrow> PageNotFound
     | Routed RIndex \<Rightarrow> index_page path
     | Routed RApi \<Rightarrow> ApiRequest
     | Routed RTerminal \<Rightarrow>
         (case Atoi vm of
            None \<Rightarrow> BadVM
          | Some vmID \<Rightarrow> if vmID < 0 then BadVM else OpenTerminal vmID))"


section \<open>Connections are closed\<close>

fun ws_cleanup :: "ws_call \<Rightarrow> ws_reply \<Rightarrow> ws_call option" where
  "ws_cleanup (WSDial _) (WOk _) = Some WSCloseSSH"
| "ws_cleanup WSNewSession (WOk _) = Some WSEndSession"
| "ws_cleanup _ _ = None"

definition ws_release :: "ws_call \<Rightarrow> bool" where
  "ws_release c \<longleftrightarrow> c = WSCloseSSH \<or> c = WSEndSession"

lemma ws_release_simps [simp]:
  "ws_release WSCloseSSH" "ws_release WSEndSession" "\<not> ws_release (WSSleep n)" "\<not> ws_release (WSDial a)"
  "\<not> ws_release WSNewSession" "\<not> ws_release (WSRequestPty t h w)" "\<not> ws_release WSStdinPipe"
  "\<not> ws_release WSStdoutPipe" "\<not> ws_release WSStderrPipe" "\<not> ws_release WSShell" "\<not> ws_release WSRead"
  "\<not> ws_release (WSStdin s)" "\<not> ws_release (WSWindow h w)" "\<not> ws_release (WSSendError s)"
  by (simp_all add: ws_release_def)

interpretation ws_res: resources ws_cleanup ws_release
proof
  fix c r x assume "ws_cleanup c r = Some x"
  then show "ws_release x" by (cases c; cases r) auto
qed

lemma ws_plain:
  assumes "\<And>a. c \<noteq> WSDial a" "c \<noteq> WSNewSession" "\<not> ws_release c"
  shows "balanced ws_cleanup ws_release (perform e c)"
proof (rule ws_res.balanced_perform[OF assms(3)])
  fix r show "ws_cleanup c r = None" using assms(1,2) by (cases c; cases r) auto
qed

lemmas ws_intros = ws_res.balanced_return ws_res.balanced_bind ws_res.balanced_if ws_plain

lemma balanced_message: "balanced ws_cleanup ws_release (handle_message e dec data)"
  unfolding handle_message_def by (auto intro!: ws_intros split: option.splits)

lemma balanced_loop: "balanced ws_cleanup ws_release (ws_loop e dec n)"
  by (induction n) (auto intro!: ws_intros balanced_message split: ws_reply.splits)

lemma balanced_or_error:
  assumes "\<And>a. c \<noteq> WSDial a" "c \<noteq> WSNewSession" "\<not> ws_release c" "balanced ws_cleanup ws_release go"
  shows "balanced ws_cleanup ws_release (or_error e c what go)"
  unfolding or_error_def
  by (rule ws_res.balanced_bind[OF ws_plain[OF assms(1-3)]])
     (auto intro!: ws_intros assms(4) split: ws_reply.splits)

lemma balanced_session: "balanced ws_cleanup ws_release (ws_session e dec fuel)"
  unfolding ws_session_def by (intro balanced_or_error balanced_loop) simp_all

lemma balanced_open: "balanced ws_cleanup ws_release (ws_open e dec fuel)"
  unfolding ws_open_def
proof (rule ws_res.balanced_acquire)
  let ?go = "\<lambda>r. case r of
      WErr err \<Rightarrow> State_Monad.bind (perform e (WSSendError (''failed to create session: '' @ err)))
         (\<lambda>_. State_Monad.return True)
    | WOk _ \<Rightarrow> with_defer e WSEndSession (ws_session e dec fuel)"
  show "balanced ws_cleanup ws_release (?go r)" if "ws_cleanup WSNewSession r = None" for r
    using that by (cases r) (auto intro!: ws_intros)
  show "\<exists>p. balanced ws_cleanup ws_release p \<and> ?go r = with_defer e x p"
    if "ws_cleanup WSNewSession r = Some x" for r x
    using that balanced_session by (cases r) auto
qed simp

text \<open>Dialing owes the connection exactly if it returns without an error.\<close>

lemma ws_dial_owed:
  assumes "owed ws_cleanup ws_release st0 tr = Some st" "0 < n \<or> err \<noteq> None"
  shows "owed ws_cleanup ws_release st0 (snd (run_state (ws_dial e addr n attempt err) tr)) =
    Some (if fst (run_state (ws_dial e addr n attempt err) tr) = None then WSCloseSSH # st else st)"
  using assms
proof (induction n arbitrary: attempt err tr)
  case (Suc n)
  define tr1 where "tr1 = (if 0 < attempt then tr @ [(WSSleep 2000000000, e tr (WSSleep 2000000000))] else tr)"
  have o1: "owed ws_cleanup ws_release st0 tr1 = Some st"
    using Suc.prems by (simp add: tr1_def owed_append)
  have run: "run_state (ws_dial e addr (Suc n) attempt err) tr =
      (case e tr1 (WSDial addr) of
         WOk x \<Rightarrow> (None, tr1 @ [(WSDial addr, WOk x)])
       | WErr why \<Rightarrow> run_state (ws_dial e addr n (Suc attempt) (Some why)) (tr1 @ [(WSDial addr, WErr why)]))"
    by (cases "e tr1 (WSDial addr)") (auto simp: tr1_def run_state_bind run_state_return)
  show ?case
  proof (cases "e tr1 (WSDial addr)")
    case (WOk x)
    then show ?thesis unfolding run using o1 by (simp add: owed_append)
  next
    case (WErr why)
    have "owed ws_cleanup ws_release st0 (tr1 @ [(WSDial addr, WErr why)]) = Some st"
      using o1 by (simp add: owed_append)
    from Suc.IH[OF this, of "Some why" "Suc attempt"] show ?thesis unfolding run WErr by simp
  qed
qed (simp add: run_state_return)

lemma ws_dial_count:
  "length (filter (\<lambda>(c, r). c = WSDial addr) (snd (run_state (ws_dial e addr n attempt err) tr))) \<le>
   length (filter (\<lambda>(c, r). c = WSDial addr) tr) + n"
proof (induction n arbitrary: attempt err tr)
  case (Suc n)
  have "length (filter (\<lambda>(c, r). c = WSDial addr) (snd (run_state (ws_dial e addr n a err) (tr @ xs)))) \<le>
      length (filter (\<lambda>(c, r). c = WSDial addr) tr) + Suc n"
    if "length (filter (\<lambda>(c, r). c = WSDial addr) xs) \<le> 1" for a err xs
    using Suc[of a err "tr @ xs"] that by simp
  from this[of "[_, _]"] this[of "[_]"] show ?case
    by (auto simp: run_state_bind run_state_return split: ws_reply.splits)
qed (simp add: run_state_return)

text \<open>
  A terminal leaves nothing open.  Whatever the VM and the browser answer, the handler closes
  the session and the connection it opened, each exactly once and the session first.
\<close>

theorem terminal_closes:
  "owed ws_cleanup ws_release [] (snd (run_state (wsHandler e dec fuel vmID) [])) = Some []"
proof -
  let ?addr = "''172.16.'' @ fmt_d vmID @ ''.2:22''"
  obtain err tr where dial: "run_state (ws_dial e ?addr 10 0 None) [] = (err, tr)" by fastforce
  have o: "owed ws_cleanup ws_release [] tr = Some (if err = None then [WSCloseSSH] else [])"
    using ws_dial_owed[of "[]" "[]" "[]" 10 None e ?addr 0] dial by simp
  show ?thesis
  proof (cases err)
    case None
    have "owed ws_cleanup ws_release [] (snd (run_state (ws_open e dec fuel) tr)) = Some [WSCloseSSH]"
      using balanced_open o None by (simp add: balanced_def)
    then show ?thesis
      unfolding wsHandler_def Let_def run_state_bind dial
      by (simp add: None run_with_defer owed_append)
  next
    case (Some why)
    then show ?thesis using o
      unfolding wsHandler_def Let_def run_state_bind dial
      by (simp add: run_state_bind run_state_return owed_append)
  qed
qed

section \<open>What is typed reaches the shell\<close>

definition read_of :: "ws_call \<times> ws_reply \<Rightarrow> string option" where
  "read_of ev = (case ev of (WSRead, WOk data) \<Rightarrow> Some data | _ \<Rightarrow> None)"

definition stdin_of :: "ws_call \<times> ws_reply \<Rightarrow> string option" where
  "stdin_of ev = (case ev of (WSStdin data, _) \<Rightarrow> Some data | _ \<Rightarrow> None)"

lemma map_filter_append: "List.map_filter f (xs @ ys) = List.map_filter f xs @ List.map_filter f ys"
  by (simp add: List.map_filter_def)

lemma handle_message_adds:
  "\<exists>xs. snd (run_state (handle_message e dec data) tr) = tr @ xs \<and>
    List.map_filter read_of xs = [] \<and>
    List.map_filter stdin_of xs = (if dec data = None then [data] else [])"
  by (cases "dec data")
     (auto simp: handle_message_def run_state_bind run_state_return List.map_filter_def read_of_def stdin_of_def)

lemma ws_loop_adds:
  "\<exists>xs. snd (run_state (ws_loop e dec n) tr) = tr @ xs \<and>
    List.map_filter stdin_of xs = filter (\<lambda>d. dec d = None) (List.map_filter read_of xs)"
proof (induction n arbitrary: tr)
  case (Suc n)
  show ?case
  proof (cases "e tr WSRead")
    case (WErr why)
    then show ?thesis by (simp add: run_state_bind run_state_return List.map_filter_def read_of_def stdin_of_def)
  next
    case (WOk data)
    let ?tr = "tr @ [(WSRead, WOk data)]"
    obtain xs where xs: "snd (run_state (handle_message e dec data) ?tr) = ?tr @ xs"
      "List.map_filter read_of xs = []" "List.map_filter stdin_of xs = (if dec data = None then [data] else [])"
      using handle_message_adds[of e dec data ?tr] by blast
    obtain ys where ys: "snd (run_state (ws_loop e dec n) (?tr @ xs)) = (?tr @ xs) @ ys"
      "List.map_filter stdin_of ys = filter (\<lambda>d. dec d = None) (List.map_filter read_of ys)"
      using Suc.IH[of "?tr @ xs"] by blast
    have run: "run_state (ws_loop e dec (Suc n)) tr = run_state (ws_loop e dec n) (?tr @ xs)"
      using WOk xs(1) by (simp add: run_state_bind split_beta)
    have r: "read_of (WSRead, WOk data) = Some data" "stdin_of (WSRead, WOk data) = None"
      by (simp_all add: read_of_def stdin_of_def)
    let ?all = "(WSRead, WOk data) # xs @ ys"
    show ?thesis
    proof (intro exI[of _ ?all] conjI)
      show "snd (run_state (ws_loop e dec (Suc n)) tr) = tr @ ?all" unfolding run using ys(1) by simp
      show "List.map_filter stdin_of ?all = filter (\<lambda>d. dec d = None) (List.map_filter read_of ?all)"
        using xs ys r map_filter_append[of stdin_of "[(WSRead, WOk data)]" "xs @ ys"]
          map_filter_append[of read_of "[(WSRead, WOk data)]" "xs @ ys"]
        by (simp add: map_filter_append List.map_filter_simps)
    qed
  qed
qed (simp add: run_state_return)

text \<open>The loop ends only with a failed read.\<close>

lemma ws_loop_end:
  "fst (run_state (ws_loop e dec n) tr) \<Longrightarrow>
    \<exists>ys why. snd (run_state (ws_loop e dec n) tr) = ys @ [(WSRead, WErr why)]"
proof (induction n arbitrary: tr)
  case (Suc n)
  then show ?case by (cases "e tr WSRead") (auto simp: run_state_bind run_state_return split_beta)
qed (simp add: run_state_return)

text \<open>The loop ends: fuel above the number of messages until reads fail is enough.\<close>

lemma ws_loop_enough:
  assumes "\<And>tr. k \<le> length (List.map_filter read_of tr) \<Longrightarrow> \<exists>why. e tr WSRead = WErr why"
  shows "0 < n \<Longrightarrow> k < n + length (List.map_filter read_of tr) \<Longrightarrow> fst (run_state (ws_loop e dec n) tr)"
proof (induction n arbitrary: tr)
  case (Suc n)
  show ?case
  proof (cases "e tr WSRead")
    case (WErr why)
    then show ?thesis by (simp add: run_state_bind run_state_return)
  next
    case (WOk data)
    let ?tr = "tr @ [(WSRead, WOk data)]"
    have read: "read_of (WSRead, WOk data) = Some data" by (simp add: read_of_def)
    obtain xs where xs: "snd (run_state (handle_message e dec data) ?tr) = ?tr @ xs" "List.map_filter read_of xs = []"
      using handle_message_adds[of e dec data ?tr] by blast
    have more: "length (List.map_filter read_of (?tr @ xs)) = Suc (length (List.map_filter read_of tr))"
      using xs(2) read by (simp add: map_filter_append List.map_filter_simps)
    moreover have "length (List.map_filter read_of tr) < k"
      using assms[of tr] WOk by (cases "k \<le> length (List.map_filter read_of tr)") auto
    ultimately have "fst (run_state (ws_loop e dec n) (?tr @ xs))"
      using Suc.prems by (intro Suc.IH) simp_all
    then show ?thesis using WOk xs(1) by (simp add: run_state_bind split_beta)
  qed
qed simp

text \<open>
  C39. Typed text reaches the shell.  While the loop over the messages runs, with any decoder, the
  shell is sent exactly the messages read that the decoder rejects, unchanged and in their order; a
  message it accepts, typed or pasted, is never sent.  (The program's decoder is \<open>json.Unmarshal\<close> into
  a map, which accepts JSON objects and also \<open>null\<close>.)
\<close>

theorem terminal_input:
  "\<exists>xs. snd (run_state (ws_loop e dec n) tr) = tr @ xs \<and>
    List.map_filter stdin_of xs = filter (\<lambda>d. dec d = None) (List.map_filter read_of xs)"
  using ws_loop_adds[of e dec n tr] by blast

text \<open>Output is forwarded completely, up to the first failed read, and without empty messages.\<close>

lemma pump_complete:
  "concat (pump reads) = concat (map fst (takeWhile (\<lambda>r. \<not> snd r) reads)) @
     (case dropWhile (\<lambda>r. \<not> snd r) reads of [] \<Rightarrow> [] | r # _ \<Rightarrow> fst r)"
  by (induction reads rule: pump.induct) auto

text \<open>A VM is dialed at most ten times.\<close>

lemma terminal_dials:
  "length (filter (\<lambda>(c, r). c = WSDial addr) (snd (run_state (ws_dial e addr 10 0 None) []))) \<le> 10"
  using ws_dial_count[of addr e 10 0 None "[]"] by simp

text \<open>The server opens a terminal for any number, whether or not a VM has it.\<close>

lemma server_opens_any_vm: "0 \<le> n \<Longrightarrow> int64_range n \<Longrightarrow> server_web ''/ws'' (fmt_d n) = OpenTerminal n"
proof -
  assume n: "0 \<le> n" "int64_range n"
  have "cleanPath ''/ws'' = ''/ws''"
    using cleanPath_plain[of "[''ws'']"] by (simp add: plain_component_def)
  then have "mux_route server_routes ''/ws'' = Routed RTerminal"
    by (simp add: mux_route_def mux_find_def server_routes_def mux_match_def HasSuffix_def HasPrefix_def longer_def)
  then show ?thesis using n Atoi_fmt_d[of n] by (simp add: server_web_def)
qed

end
