(* ===== verification/Client.thy ===== *)
theory Client
  imports ApiFleet ApiScenario WebTerminal GoFlag GoWire
begin

text \<open>
  Requests from end to end: the router of the REST API (\<open>Handler\<close> in \<open>src/api/server.go\<close>) behind that
  of the server, and the command-line client \<open>src/onfirec/main.go\<close>.

  A request carries its decoded bodies, as in the handlers.  The client's HTTP calls are an
  environment; a JSON body is the list of its keys and values, whose strings arrive as
  \<open>json_string\<close> says; re-indenting JSON for printing is a parameter.  An exit is a value.  \<open>deliver\<close>
  takes a call to the server: the path is read off the URL, the body by the tags of the structs.

  Shown: a request the client makes for a fleet or scenario reaches exactly the handler meant for
  it, with the identifier the user typed, if the identifier needs no escaping in a URL and the
  server's URL ends with its host and port; with a slash after it the request is redirected and nothing
  is done; the options of \<open>fleet create\<close> arrive at the server;
  options written after the scenario file, as the client's own usage text shows them, are ignored.
\<close>

section \<open>The router\<close>

datatype api_route = RFleets | RFleet | RScenarios | RScenario | RVMs | RSpec

definition api_routes :: "(string \<times> api_route) list" where
  "api_routes =
    [(''/api/v1/fleets'', RFleets), (''/api/v1/fleets/'', RFleet), (''/api/v1/scenarios'', RScenarios),
     (''/api/v1/scenarios/'', RScenario), (''/api/v1/vms/'', RVMs), (''/api/v1/openapi.yaml'', RSpec)]"

record request =
  rq_method :: string
  rq_path :: string
  rq_fleet :: "fleetCreateRequest option"
  rq_scenario :: "scenarioCreateRequest option"

text \<open>What a handler takes from outside.\<close>

record outside =
  out_load :: "string \<Rightarrow> plan_error + Scenario"
  out_spec :: string
  out_fleets :: "string list"
  out_scenarios :: "string list"
  out_uuid :: string
  out_now :: int

datatype api_result = Answer response | Moved string | NoRoute

datatype api_job = NoJob | FleetJob fleet_job | ScenarioJob scenario_job

definition job_of :: "('a \<Rightarrow> api_job) \<Rightarrow> 'a option \<Rightarrow> api_job" where
  "job_of f x = (case x of None \<Rightarrow> NoJob | Some y \<Rightarrow> f y)"

definition Handler :: "outside \<Rightarrow> request \<Rightarrow> Server \<Rightarrow> api_result \<times> api_job \<times> Server" where
  "Handler out rq s =
    (case mux_route api_routes (rq_path rq) of
       NotFound \<Rightarrow> (NoRoute, NoJob, s)
     | Redirect p \<Rightarrow> (Moved p, NoJob, s)
     | Routed route \<Rightarrow>
        (case route of
           RFleets \<Rightarrow>
             (case handleFleets (out_fleets out) (out_uuid out) (out_now out) (rq_method rq) (rq_fleet rq) s of
                (resp, job, s') \<Rightarrow> (Answer resp, job_of FleetJob job, s'))
         | RFleet \<Rightarrow>
             (case handleFleet (rq_method rq) (rq_path rq) s of (resp, s') \<Rightarrow> (Answer resp, NoJob, s'))
         | RScenarios \<Rightarrow>
             (case handleScenarios (out_load out) (out_scenarios out) (out_uuid out) (out_now out)
                (rq_method rq) (rq_scenario rq) s of
                (resp, job, s') \<Rightarrow> (Answer resp, job_of ScenarioJob job, s'))
         | RScenario \<Rightarrow>
             (case handleScenario (out_now out) (rq_method rq) (rq_path rq) s of
                (resp, s') \<Rightarrow> (Answer resp, NoJob, s'))
         | RVMs \<Rightarrow>
             (case handleVM (out_scenarios out) (out_now out) (rq_method rq) (rq_path rq) s of
                (resp, s') \<Rightarrow> (Answer resp, NoJob, s'))
         | RSpec \<Rightarrow> (Answer (Resp 200 (RawBody (out_spec out))), NoJob, s)))"

text \<open>The server passes on what its own router gives to the API.\<close>

definition serve_api :: "outside \<Rightarrow> request \<Rightarrow> Server \<Rightarrow> api_result \<times> api_job \<times> Server" where
  "serve_api out rq s =
    (case server_web (rq_path rq) '''' of
       ApiRequest \<Rightarrow> Handler out rq s
     | RedirectTo p \<Rightarrow> (Moved p, NoJob, s)
     | _ \<Rightarrow> (NoRoute, NoJob, s))"


section \<open>The client's calls\<close>

type_synonym json = flag_set

datatype client_call =
    HttpGet string
  | HttpPost string "json option"
  | HttpDelete string

datatype client_reply = CFailed string | CReply int string

type_synonym client_env = "(client_call, client_reply) env"
type_synonym 'a client_prog = "(client_call, client_reply, 'a) prog"

datatype outcome = Exited int | Output "string list"

text \<open>The body, unless the call fails or the status is an error (then the client exits with 1).\<close>

definition body_of :: "client_reply \<Rightarrow> string option" where
  "body_of r = (case r of CFailed _ \<Rightarrow> None | CReply code data \<Rightarrow> if 400 \<le> code then None else Some data)"

definition apiGet :: "client_env \<Rightarrow> string \<Rightarrow> string \<Rightarrow> string option client_prog" where
  "apiGet e url path = State_Monad.bind (perform e (HttpGet (url @ path))) (\<lambda>r. State_Monad.return (body_of r))"

definition apiPost :: "client_env \<Rightarrow> string \<Rightarrow> string \<Rightarrow> json option \<Rightarrow> string option client_prog" where
  "apiPost e url path body =
    State_Monad.bind (perform e (HttpPost (url @ path) body)) (\<lambda>r. State_Monad.return (body_of r))"

definition apiDelete :: "client_env \<Rightarrow> string \<Rightarrow> string \<Rightarrow> string option client_prog" where
  "apiDelete e url path =
    State_Monad.bind (perform e (HttpDelete (url @ path))) (\<lambda>r. State_Monad.return (body_of r))"

definition or_fatal :: "string option client_prog \<Rightarrow> (string \<Rightarrow> string list) \<Rightarrow> outcome client_prog" where
  "or_fatal p out =
    State_Monad.bind p (\<lambda>r. State_Monad.return (case r of None \<Rightarrow> Exited 1 | Some data \<Rightarrow> Output (out data)))"

definition looksLikeUUID :: "string \<Rightarrow> bool" where
  "looksLikeUUID s \<longleftrightarrow> length s = 36 \<and>
    list_all (\<lambda>(i, c). if i \<in> {8, 13, 18, 23} then c = CHR ''-'' else is_digit c \<or> is_hex_letter c)
      (zip [0..<36] s)"

definition envOrDefault :: "string \<Rightarrow> string \<Rightarrow> string" where
  "envOrDefault v def = (if v \<noteq> '''' then v else def)"


section \<open>The client's commands\<close>

definition with_flags :: "flag_set \<Rightarrow> string list \<Rightarrow> (flag_set \<Rightarrow> string list \<Rightarrow> outcome client_prog) \<Rightarrow> outcome client_prog" where
  "with_flags fs args go =
    (case Parse fs args of ExitHelp \<Rightarrow> State_Monad.return (Exited 0) | ExitError \<Rightarrow> State_Monad.return (Exited 2)
     | Parsed fs rest \<Rightarrow> go fs rest)"

definition create_flags :: flag_set where
  "create_flags =
    [(''count'', FInt 1), (''kernel'', FStr ''''), (''rootfs'', FStr ''''), (''cloud-init-iso'', FStr ''''),
     (''mem'', FInt 0), (''vcpus'', FInt 0), (''disk'', FInt 0)]"

definition create_body :: "flag_set \<Rightarrow> json" where
  "create_body fs =
    [(''count'', FInt (int_flag fs ''count'')), (''kernel'', FStr (str_flag fs ''kernel'')),
     (''rootfs'', FStr (str_flag fs ''rootfs'')), (''cloud_init_iso'', FStr (str_flag fs ''cloud-init-iso'')),
     (''mem_mb'', FInt (int_flag fs ''mem'')), (''vcpus'', FInt (int_flag fs ''vcpus'')),
     (''disk_mb'', FInt (int_flag fs ''disk''))]"

definition fleetCreate :: "client_env \<Rightarrow> (string \<Rightarrow> string) \<Rightarrow> string \<Rightarrow> string list \<Rightarrow> outcome client_prog" where
  "fleetCreate e pretty url args =
    with_flags create_flags args (\<lambda>fs _.
      or_fatal (apiPost e url ''/api/v1/fleets'' (Some (create_body fs))) (\<lambda>d. [pretty d]))"

definition fleetList :: "client_env \<Rightarrow> (string \<Rightarrow> string) \<Rightarrow> string \<Rightarrow> outcome client_prog" where
  "fleetList e pretty url = or_fatal (apiGet e url ''/api/v1/fleets'') (\<lambda>d. [pretty d])"

definition fleetDelete :: "client_env \<Rightarrow> string \<Rightarrow> string list \<Rightarrow> outcome client_prog" where
  "fleetDelete e url args =
    with_flags [] args (\<lambda>_ rest.
      let fid = arg0 rest in
      if fid = '''' then State_Monad.return (Exited 1)
      else if \<not> looksLikeUUID fid then State_Monad.return (Exited 1)
      else or_fatal (apiDelete e url (''/api/v1/fleets/'' @ fid)) (\<lambda>_. [''fleet '' @ fid @ '' deleted'']))"

definition client_fleetCmd :: "client_env \<Rightarrow> (string \<Rightarrow> string) \<Rightarrow> string \<Rightarrow> string list \<Rightarrow> outcome client_prog" where
  "client_fleetCmd e pretty url args =
    (case args of
       [] \<Rightarrow> State_Monad.return (Exited 1)
     | sub # rest \<Rightarrow>
        if sub = ''create'' then fleetCreate e pretty url rest
        else if sub = ''list'' then fleetList e pretty url
        else if sub = ''delete'' then fleetDelete e url rest
        else State_Monad.return (Exited 1))"

definition run_flags :: flag_set where
  "run_flags =
    [(''scale'', FStr ''''), (''web-port'', FInt 8888), (''kernel'', FStr ''''), (''rootfs'', FStr ''''),
     (''cloud-init-iso'', FStr '''')]"

definition run_body :: "string \<Rightarrow> flag_set \<Rightarrow> json" where
  "run_body file fs =
    [(''scenario_file'', FStr file), (''scale'', FStr (str_flag fs ''scale'')),
     (''web_port'', FInt (int_flag fs ''web-port'')), (''kernel'', FStr (str_flag fs ''kernel'')),
     (''rootfs'', FStr (str_flag fs ''rootfs'')), (''cloud_init_iso'', FStr (str_flag fs ''cloud-init-iso''))]"

definition scenarioRun :: "client_env \<Rightarrow> (string \<Rightarrow> string) \<Rightarrow> string \<Rightarrow> string list \<Rightarrow> outcome client_prog" where
  "scenarioRun e pretty url args =
    with_flags run_flags args (\<lambda>fs rest.
      if arg0 rest = '''' then State_Monad.return (Exited 1)
      else or_fatal (apiPost e url ''/api/v1/scenarios'' (Some (run_body (arg0 rest) fs))) (\<lambda>d. [pretty d]))"

definition scenarioSubcmd :: "string list \<Rightarrow> (string \<Rightarrow> outcome client_prog) \<Rightarrow> outcome client_prog" where
  "scenarioSubcmd args fn =
    with_flags [] args (\<lambda>_ rest.
      if arg0 rest = '''' then State_Monad.return (Exited 1) else fn (arg0 rest))"

definition client_scenarioCmd :: "client_env \<Rightarrow> (string \<Rightarrow> string) \<Rightarrow> string \<Rightarrow> string list \<Rightarrow> outcome client_prog" where
  "client_scenarioCmd e pretty url args =
    (case args of
       [] \<Rightarrow> State_Monad.return (Exited 1)
     | sub # rest \<Rightarrow>
        if sub = ''run'' then scenarioRun e pretty url rest
        else if sub = ''status'' then scenarioSubcmd rest (\<lambda>sid.
          or_fatal (apiGet e url (''/api/v1/scenarios/'' @ sid)) (\<lambda>d. [pretty d]))
        else if sub = ''hint'' then scenarioSubcmd rest (\<lambda>sid.
          or_fatal (apiPost e url (''/api/v1/scenarios/'' @ sid @ ''/hint'') None) (\<lambda>d. [pretty d]))
        else if sub = ''abort'' then scenarioSubcmd rest (\<lambda>sid.
          or_fatal (apiDelete e url (''/api/v1/scenarios/'' @ sid)) (\<lambda>_. [''scenario '' @ sid @ '' aborted'']))
        else State_Monad.return (Exited 1))"

text \<open>\<open>strings.Replace(s, old, new, 1)\<close>, for an \<open>old\<close> that is not empty.\<close>

fun replace_first :: "string \<Rightarrow> string \<Rightarrow> string \<Rightarrow> string" where
  "replace_first s x y =
    (if HasPrefix s x then y @ drop (length x) s
     else case s of [] \<Rightarrow> [] | c # cs \<Rightarrow> c # replace_first cs x y)"

declare replace_first.simps [simp del]

definition terminalCmd :: "string \<Rightarrow> string list \<Rightarrow> outcome client_prog" where
  "terminalCmd url args =
    with_flags [] args (\<lambda>_ rest.
      let vmID = arg0 rest in
      State_Monad.return
        (if vmID = '''' then Exited 1
         else Output [''Web terminal: '' @ url @ ''/?vm='' @ vmID,
                ''WebSocket:    '' @ replace_first url ''http://'' ''ws://'' @ ''/ws?vm='' @ vmID]))"

definition client_main :: "client_env \<Rightarrow> (string \<Rightarrow> string) \<Rightarrow> string \<Rightarrow> string list \<Rightarrow> outcome client_prog" where
  "client_main e pretty env_server args =
    with_flags [(''server'', FStr (envOrDefault env_server ''http://localhost:8888''))] args (\<lambda>fs args.
      let url = str_flag fs ''server'' in
      case args of
        [] \<Rightarrow> State_Monad.return (Exited 1)
      | cmd # rest \<Rightarrow>
         if cmd = ''fleet'' then client_fleetCmd e pretty url rest
         else if cmd = ''scenario'' then client_scenarioCmd e pretty url rest
         else if cmd = ''terminal'' then terminalCmd url rest
         else State_Monad.return (Exited 1))"


section \<open>Reading a body by the tags of the request structs\<close>

definition fleet_request_of :: "json \<Rightarrow> fleetCreateRequest" where
  "fleet_request_of b =
    \<lparr>fcr_Count = int_flag b ''count'', fcr_Kernel = json_string (str_flag b ''kernel''), fcr_RootFS = json_string (str_flag b ''rootfs''),
     fcr_CloudInitISO = json_string (str_flag b ''cloud_init_iso''), fcr_MemMB = int_flag b ''mem_mb'',
     fcr_VCPUs = int_flag b ''vcpus'', fcr_DiskMB = int_flag b ''disk_mb''\<rparr>"

definition scenario_request_of :: "json \<Rightarrow> scenarioCreateRequest" where
  "scenario_request_of b =
    \<lparr>scr_ScenarioFile = json_string (str_flag b ''scenario_file''), scr_Kernel = json_string (str_flag b ''kernel''),
     scr_RootFS = json_string (str_flag b ''rootfs''), scr_CloudInitISO = json_string (str_flag b ''cloud_init_iso''),
     scr_FirecrackerBin = json_string (str_flag b ''firecracker_bin''), scr_Scale = json_string (str_flag b ''scale''),
     scr_Disk = json_string (str_flag b ''disk''), scr_WebPort = int_flag b ''web_port''\<rparr>"

section \<open>Requests reach their handlers\<close>

text \<open>The paths below a prefix of plain components.\<close>

lemma resource_path:
  assumes "list_all plain_component cs" "cs \<noteq> []"
  shows "cleanPath (''/api/v1/'' @ Join cs ''/'') = ''/api/v1/'' @ Join cs ''/''"
    "last (''/api/v1/'' @ Join cs ''/'') \<noteq> CHR ''/''"
proof -
  have j: "''/api/v1/'' @ Join cs ''/'' = CHR ''/'' # Join (''api'' # ''v1'' # cs) ''/''"
    using assms(2) by (cases cs) simp_all
  have "list_all plain_component (''api'' # ''v1'' # cs)" using assms(1) by (simp add: plain_component_def)
  then show "cleanPath (''/api/v1/'' @ Join cs ''/'') = ''/api/v1/'' @ Join cs ''/''"
    unfolding j by (rule cleanPath_plain) simp
  show "last (''/api/v1/'' @ Join cs ''/'') \<noteq> CHR ''/''" using Join_last[OF assms] by simp
qed

lemma served_by_api:
  assumes "list_all plain_component cs" "cs \<noteq> []" "rq_path rq = ''/api/v1/'' @ Join cs ''/''"
  shows "serve_api out rq s = Handler out rq s"
proof -
  let ?p = "''/api/v1/'' @ Join cs ''/''"
  have f: "filter (\<lambda>r. mux_match (fst r) ?p) server_routes = [(''/api/'', RApi), (''/'', RIndex)]"
    by (simp add: server_routes_def mux_match_def HasSuffix_def HasPrefix_def)
  have n: "?p @ ''/'' \<notin> set (map fst server_routes)" by (simp add: server_routes_def)
  have "mux_route server_routes ?p = Routed RApi"
    by (rule mux_route_longer[OF resource_path[OF assms(1,2)] n f]) simp
  then show ?thesis by (simp add: serve_api_def server_web_def assms(3))
qed

lemma fleet_route:
  assumes "plain_component i"
  shows "mux_route api_routes (''/api/v1/fleets/'' @ i) = Routed RFleet"
proof (rule mux_route_unique)
  have p: "''/api/v1/fleets/'' @ i = ''/api/v1/'' @ Join [''fleets'', i] ''/''" by simp
  have c: "list_all plain_component [''fleets'', i]" using assms by (simp add: plain_component_def)
  show "cleanPath (''/api/v1/fleets/'' @ i) = ''/api/v1/fleets/'' @ i"
    "last (''/api/v1/fleets/'' @ i) \<noteq> CHR ''/''" unfolding p using resource_path[OF c] by simp_all
  show "filter (\<lambda>r. mux_match (fst r) (''/api/v1/fleets/'' @ i)) api_routes = [(''/api/v1/fleets/'', RFleet)]"
    by (simp add: api_routes_def mux_match_def HasSuffix_def HasPrefix_def)
  show "(''/api/v1/fleets/'' @ i) @ ''/'' \<notin> set (map fst api_routes)" by (simp add: api_routes_def)
qed

lemma scenario_route:
  assumes "list_all plain_component cs" "cs \<noteq> []"
  shows "mux_route api_routes (''/api/v1/scenarios/'' @ Join cs ''/'') = Routed RScenario"
proof (rule mux_route_unique)
  let ?t = "Join cs ''/''"
  have p: "''/api/v1/scenarios/'' @ ?t = ''/api/v1/'' @ Join (''scenarios'' # cs) ''/''"
    using assms(2) by (cases cs) simp_all
  have c: "list_all plain_component (''scenarios'' # cs)" using assms by (simp add: plain_component_def)
  show "cleanPath (''/api/v1/scenarios/'' @ ?t) = ''/api/v1/scenarios/'' @ ?t"
    "last (''/api/v1/scenarios/'' @ ?t) \<noteq> CHR ''/''" unfolding p using resource_path[OF c] by simp_all
  show "filter (\<lambda>r. mux_match (fst r) (''/api/v1/scenarios/'' @ ?t)) api_routes = [(''/api/v1/scenarios/'', RScenario)]"
    by (simp add: api_routes_def mux_match_def HasSuffix_def HasPrefix_def)
  show "(''/api/v1/scenarios/'' @ ?t) @ ''/'' \<notin> set (map fst api_routes)" by (simp add: api_routes_def)
qed

lemma uuid_plain:
  assumes "looksLikeUUID i"
  shows "plain_component i" "\<not> is_flag i"
proof -
  have len: "length i = 36" using assms by (simp add: looksLikeUUID_def)
  have at: "if k \<in> {8, 13, 18, 23} then i ! k = CHR ''-'' else is_digit (i ! k) \<or> is_hex_letter (i ! k)"
    if "k < 36" for k
    using assms that len unfolding looksLikeUUID_def by (auto simp: list_all_length)
  have "c \<noteq> CHR ''/''" if c: "c \<in> set i" for c
  proof -
    obtain k where "k < 36" "i ! k = c" using c len by (auto simp: in_set_conv_nth)
    then show ?thesis using at[of k] by (auto simp: is_digit_def is_hex_letter_def split: if_splits)
  qed
  moreover have "i \<noteq> ''''" "i \<noteq> ''.''" "i \<noteq> ''..''" using len by auto
  ultimately show "plain_component i" by (auto simp: plain_component_def)
  have "hd i = i ! 0" using len by (cases i) auto
  then show "\<not> is_flag i" using at[of 0] by (auto simp: is_flag_def is_digit_def is_hex_letter_def)
qed

definition plain_request :: "string \<Rightarrow> string \<Rightarrow> request" where
  "plain_request meth path = \<lparr>rq_method = meth, rq_path = path, rq_fleet = None, rq_scenario = None\<rparr>"

definition answered :: "response \<times> Server \<Rightarrow> api_result \<times> api_job \<times> Server" where
  "answered r = (Answer (fst r), NoJob, snd r)"

lemma serve_fleet:
  assumes "plain_component i"
  shows "serve_api out (plain_request meth (''/api/v1/fleets/'' @ i)) s =
    answered (handleFleet meth (''/api/v1/fleets/'' @ i) s)"
proof -
  let ?rq = "plain_request meth (''/api/v1/fleets/'' @ i)"
  have p: "rq_path ?rq = ''/api/v1/'' @ Join [''fleets'', i] ''/''" by (simp add: plain_request_def)
  have c: "list_all plain_component [''fleets'', i]" using assms by (simp add: plain_component_def)
  have "serve_api out ?rq s = Handler out ?rq s" by (rule served_by_api[OF c _ p]) simp
  then show ?thesis using fleet_route[OF assms]
    by (simp add: Handler_def plain_request_def answered_def split_beta)
qed

lemma serve_scenario:
  assumes "list_all plain_component cs" "cs \<noteq> []" "rq_path rq = ''/api/v1/scenarios/'' @ Join cs ''/''"
  shows "serve_api out rq s =
    answered (handleScenario (out_now out) (rq_method rq) (''/api/v1/scenarios/'' @ Join cs ''/'') s)"
proof -
  have p: "rq_path rq = ''/api/v1/'' @ Join (''scenarios'' # cs) ''/''"
    using assms(2,3) by (cases cs) simp_all
  have c: "list_all plain_component (''scenarios'' # cs)" using assms by (simp add: plain_component_def)
  have "serve_api out rq s = Handler out rq s" by (rule served_by_api[OF c _ p]) simp
  then show ?thesis using scenario_route[OF assms(1,2)]
    by (simp add: Handler_def assms(3) answered_def split_beta)
qed

lemma TrimPrefix_append: "TrimPrefix (p @ s) p = s"
  by (simp add: TrimPrefix_def HasPrefix_def)

lemma SplitN2_plain: "CHR ''/'' \<notin> set i \<Longrightarrow> SplitN2 (CHR ''/'') i = [i]"
  by (simp add: SplitN2_def)

lemma SplitN2_sub: "CHR ''/'' \<notin> set i \<Longrightarrow> SplitN2 (CHR ''/'') (i @ ''/hint'') = [i, ''hint'']"
  by (auto simp: SplitN2_def takeWhile_append dropWhile_append)

lemma calls_or_fatal_get: "calls (or_fatal (apiGet e url path) f) = [HttpGet (url @ path)]"
  and calls_or_fatal_post: "calls (or_fatal (apiPost e url path b) f) = [HttpPost (url @ path) b]"
  and calls_or_fatal_delete: "calls (or_fatal (apiDelete e url path) f) = [HttpDelete (url @ path)]"
  by (simp_all add: calls_def or_fatal_def apiGet_def apiPost_def apiDelete_def run_state_bind run_state_return)

lemmas calls_or_fatal = calls_or_fatal_get calls_or_fatal_post calls_or_fatal_delete

text \<open>The client's own flag set, when the first argument is a command.\<close>

lemma client_main_dispatch:
  assumes "\<not> is_flag cmd"
  shows "client_main e pretty env_server (cmd # rest) =
    (let url = envOrDefault env_server ''http://localhost:8888'' in
     if cmd = ''fleet'' then client_fleetCmd e pretty url rest
     else if cmd = ''scenario'' then client_scenarioCmd e pretty url rest
     else if cmd = ''terminal'' then terminalCmd url rest
     else State_Monad.return (Exited 1))"
  using assms by (simp add: client_main_def with_flags_def str_flag_def)

lemma command_words [simp]:
  "\<not> is_flag ''fleet''" "\<not> is_flag ''scenario''"
  by (simp_all add: is_flag_def)

text \<open>
  The server behind a URL answers a call of the client.  The URL's path decides; an absent body is
  the empty object.  Calls whose path needs escaping are left open (\<open>None\<close>).
\<close>

definition with_body :: "json \<Rightarrow> request \<Rightarrow> request" where
  "with_body b rq = rq\<lparr>rq_fleet := Some (fleet_request_of b), rq_scenario := Some (scenario_request_of b)\<rparr>"

definition deliver :: "outside \<Rightarrow> client_call \<Rightarrow> Server \<Rightarrow> (api_result \<times> api_job \<times> Server) option" where
  "deliver out c s =
    (case c of
       HttpGet u \<Rightarrow> map_option (\<lambda>p. serve_api out (plain_request ''GET'' p) s) (request_path u)
     | HttpDelete u \<Rightarrow> map_option (\<lambda>p. serve_api out (plain_request ''DELETE'' p) s) (request_path u)
     | HttpPost u b \<Rightarrow>
         map_option (\<lambda>p. serve_api out (with_body (case b of None \<Rightarrow> [] | Some b \<Rightarrow> b) (plain_request ''POST'' p)) s)
           (request_path u))"

lemma deliver_server:
  assumes "server_url url" "list_all (\<lambda>c. unreserved c \<or> c = CHR ''/'') p" "p \<noteq> []" "hd p = CHR ''/''"
  shows "deliver out (HttpGet (url @ p)) s = Some (serve_api out (plain_request ''GET'' p) s)"
    "deliver out (HttpDelete (url @ p)) s = Some (serve_api out (plain_request ''DELETE'' p) s)"
    "deliver out (HttpPost (url @ p) b) s =
      Some (serve_api out (with_body (case b of None \<Rightarrow> [] | Some b \<Rightarrow> b) (plain_request ''POST'' p)) s)"
  by (simp_all add: deliver_def request_path_server[OF assms])

text \<open>An identifier that is one component of a path and needs no escaping.\<close>

definition url_component :: "string \<Rightarrow> bool" where
  "url_component c \<longleftrightarrow> c \<noteq> '''' \<and> c \<noteq> ''.'' \<and> c \<noteq> ''..'' \<and> list_all unreserved c"

lemma url_component_plain:
  assumes "url_component c"
  shows "plain_component c" "list_all (\<lambda>c. unreserved c \<or> c = CHR ''/'') c"
  using assms unreserved_plain by (auto simp: url_component_def plain_component_def list_all_iff)

lemma slash_path:
  "list_all (\<lambda>c. unreserved c \<or> c = CHR ''/'') ''/api/v1/fleets''"
  "list_all (\<lambda>c. unreserved c \<or> c = CHR ''/'') ''/api/v1/fleets/''"
  "list_all (\<lambda>c. unreserved c \<or> c = CHR ''/'') ''/api/v1/scenarios/''"
  "list_all (\<lambda>c. unreserved c \<or> c = CHR ''/'') ''/hint''"
  by (simp_all add: unreserved_def)

lemma uuid_component:
  assumes "looksLikeUUID i"
  shows "url_component i"
proof -
  have "unreserved c" if c: "c \<in> set i" for c
  proof -
    obtain k where "k < 36" "i ! k = c" using c assms by (auto simp: in_set_conv_nth looksLikeUUID_def)
    moreover from this have "if k \<in> {8, 13, 18, 23} then c = CHR ''-'' else is_digit c \<or> is_hex_letter c"
      using assms unfolding looksLikeUUID_def by (auto simp: list_all_length)
    ultimately show ?thesis
      by (auto simp: unreserved_def is_digit_def is_hex_letter_def Let_def split: if_splits)
  qed
  then show ?thesis using uuid_plain(1)[OF assms]
    by (auto simp: url_component_def plain_component_def list_all_iff)
qed

text \<open>
  Deleting a fleet from the command line.  For an identifier of the form the client accepts, the
  client sends one request, and the server answers it by deleting the fleet of that identifier and
  nothing else.
\<close>

theorem client_delete_served:
  assumes "looksLikeUUID fid" "server_url (envOrDefault env_server ''http://localhost:8888'')"
  shows "\<exists>c. calls (client_main e pretty env_server [''fleet'', ''delete'', fid]) = [c] \<and>
    deliver out c s = Some (answered (deleteFleet fid s))"
proof -
  let ?url = "envOrDefault env_server ''http://localhost:8888''" and ?p = "''/api/v1/fleets/'' @ fid"
  note u = uuid_plain[OF assms(1)]
  have ne: "fid \<noteq> ''''" using u(1) by (simp add: plain_component_def)
  have "client_main e pretty env_server [''fleet'', ''delete'', fid] =
      or_fatal (apiDelete e ?url ?p) (\<lambda>_. [''fleet '' @ fid @ '' deleted''])"
    using u assms ne
    by (simp add: client_main_dispatch Let_def client_fleetCmd_def fleetDelete_def with_flags_def arg0_def)
  then have "calls (client_main e pretty env_server [''fleet'', ''delete'', fid]) = [HttpDelete (?url @ ?p)]"
    by (simp only: calls_or_fatal)
  moreover have "serve_api out (plain_request ''DELETE'' ?p) s = answered (deleteFleet fid s)"
    using serve_fleet[OF u(1), of out "''DELETE''" s] TrimPrefix_append[of "''/api/v1/fleets/''" fid] ne
    by (simp add: handleFleet_def Let_def)
  moreover have "list_all (\<lambda>c. unreserved c \<or> c = CHR ''/'') ?p"
    using slash_path(2) url_component_plain(2)[OF uuid_component[OF assms(1)]] by (simp only: list_all_append simp_thms)
  ultimately show ?thesis using deliver_server(2)[OF assms(2), of ?p out s] by simp
qed

text \<open>
  C33. The scenario commands.  For an identifier that is one path component of unreserved characters
  and not an option, and a server URL of \<open>http://\<close>, a host and perhaps a port, the client's
  \<open>status\<close>, \<open>hint\<close> and \<open>abort\<close> send one request each, and the server, which reads the path off the
  URL, answers it with the status, a hint or the end of the scenario of that identifier.
\<close>

theorem client_scenario_served:
  assumes "url_component sid" "\<not> is_flag sid" "server_url (envOrDefault env_server ''http://localhost:8888'')"
  shows "(\<exists>c. calls (client_main e pretty env_server [''scenario'', ''status'', sid]) = [c] \<and>
      deliver out c s = Some (answered (getScenario (out_now out) sid s))) \<and>
    (\<exists>c. calls (client_main e pretty env_server [''scenario'', ''hint'', sid]) = [c] \<and>
      deliver out c s = Some (answered (hintScenario (out_now out) sid s))) \<and>
    (\<exists>c. calls (client_main e pretty env_server [''scenario'', ''abort'', sid]) = [c] \<and>
      deliver out c s = Some (answered (deleteScenario sid s)))"
proof -
  let ?url = "envOrDefault env_server ''http://localhost:8888''" and ?p = "''/api/v1/scenarios/'' @ sid"
  note pc = url_component_plain[OF assms(1)]
  have sid: "sid \<noteq> ''''" "CHR ''/'' \<notin> set sid" using pc(1) by (auto simp: plain_component_def)
  have main: "client_main e pretty env_server (''scenario'' # rest) = client_scenarioCmd e pretty ?url rest" for rest
    by (simp add: client_main_dispatch Let_def)
  note cmd = client_scenarioCmd_def scenarioSubcmd_def with_flags_def arg0_def
  have one: "list_all plain_component [sid]" "list_all plain_component [sid, ''hint'']"
    using pc(1) by (simp_all add: plain_component_def)
  have plain: "serve_api out (plain_request meth ?p) s = answered (handleScenario (out_now out) meth ?p s)" for meth
    using serve_scenario[OF one(1), of "plain_request meth ?p" out s] by (simp add: plain_request_def)
  have hint: "serve_api out (with_body b (plain_request meth (?p @ ''/hint''))) s =
      answered (handleScenario (out_now out) meth (?p @ ''/hint'') s)" for b meth
    using serve_scenario[OF one(2), of "with_body b (plain_request meth (?p @ ''/hint''))" out s]
    by (simp add: plain_request_def with_body_def)
  have handle: "handleScenario now meth ?p s =
      (if meth = ''GET'' then getScenario now sid s else if meth = ''DELETE'' then deleteScenario sid s
       else (Resp 405 (ErrorText ''method not allowed''), s))" for now meth
    using sid TrimPrefix_append[of "''/api/v1/scenarios/''" sid]
    by (simp add: handleScenario_def SplitN2_plain Let_def)
  have handle_hint: "handleScenario now ''POST'' (?p @ ''/hint'') s = hintScenario now sid s" for now
    using sid TrimPrefix_append[of "''/api/v1/scenarios/''" "sid @ ''/hint''"]
    by (simp add: handleScenario_def SplitN2_sub Let_def)
  have chars: "list_all (\<lambda>c. unreserved c \<or> c = CHR ''/'') ?p"
      "list_all (\<lambda>c. unreserved c \<or> c = CHR ''/'') (?p @ ''/hint'')"
    using slash_path(3,4) pc(2) by (simp_all only: list_all_append simp_thms)
  note send = deliver_server[OF assms(3) chars(1)] deliver_server[OF assms(3) chars(2)]
  show ?thesis
  proof (intro conjI)
    show "\<exists>c. calls (client_main e pretty env_server [''scenario'', ''status'', sid]) = [c] \<and>
        deliver out c s = Some (answered (getScenario (out_now out) sid s))"
      using assms(2) sid(1) plain handle send
      by (intro exI[of _ "HttpGet (?url @ ?p)"]) (simp add: main cmd calls_or_fatal)
    show "\<exists>c. calls (client_main e pretty env_server [''scenario'', ''hint'', sid]) = [c] \<and>
        deliver out c s = Some (answered (hintScenario (out_now out) sid s))"
      using assms(2) sid(1) hint handle_hint send
      by (intro exI[of _ "HttpPost (?url @ ?p @ ''/hint'') None"]) (simp add: main cmd calls_or_fatal)
    show "\<exists>c. calls (client_main e pretty env_server [''scenario'', ''abort'', sid]) = [c] \<and>
        deliver out c s = Some (answered (deleteScenario sid s))"
      using assms(2) sid(1) plain handle send
      by (intro exI[of _ "HttpDelete (?url @ ?p)"]) (simp add: main cmd calls_or_fatal)
  qed
qed

text \<open>
  With a slash at the end of the server's URL the same command is redirected: the client follows with
  a GET of the clean path, so that nothing is deleted.
\<close>

lemma abort_redirected:
  "calls (client_main e pretty ''http://lab:8888/'' [''scenario'', ''abort'', ''s-1'']) =
      [HttpDelete ''http://lab:8888//api/v1/scenarios/s-1'']"
  "deliver out (HttpDelete ''http://lab:8888//api/v1/scenarios/s-1'') s =
      Some (Moved ''/api/v1/scenarios/s-1'', NoJob, s)"
proof -
  show "calls (client_main e pretty ''http://lab:8888/'' [''scenario'', ''abort'', ''s-1'']) =
      [HttpDelete ''http://lab:8888//api/v1/scenarios/s-1'']"
    by (simp add: client_main_dispatch Let_def client_scenarioCmd_def scenarioSubcmd_def with_flags_def arg0_def
        calls_or_fatal envOrDefault_def is_flag_def)
  have p: "request_path ''http://lab:8888//api/v1/scenarios/s-1'' = Some ''//api/v1/scenarios/s-1''"
    by (simp add: request_path_def url_body_def TrimPrefix_def HasPrefix_def unreserved_def)
  have c: "cleanPath ''//api/v1/scenarios/s-1'' = ''/api/v1/scenarios/s-1''"
    by (simp add: cleanPath_def path_Clean_def clean_step_def Let_def)
  have "mux_route server_routes ''//api/v1/scenarios/s-1'' = Redirect ''/api/v1/scenarios/s-1''"
    unfolding mux_route_def Let_def c
    by (simp add: server_routes_def mux_find_def mux_match_def HasSuffix_def HasPrefix_def longer_def)
  then show "deliver out (HttpDelete ''http://lab:8888//api/v1/scenarios/s-1'') s =
      Some (Moved ''/api/v1/scenarios/s-1'', NoJob, s)"
    by (simp add: deliver_def p serve_api_def server_web_def plain_request_def)
qed

definition sample_uuid :: string where
  "sample_uuid = ''0b29a1de-4f7c-4d6e-9A11-c0ffee123456''"

lemma server_url_local: "server_url ''http://localhost:8888''"
  by (simp add: server_url_def HasPrefix_def strip_port_def is_digit_def unreserved_def)

theorem client_delete_served_witness:
  "\<exists>c. calls (client_main (\<lambda>_ _. CReply 204 '''') id '''' [''fleet'', ''delete'', sample_uuid]) = [c] \<and>
    deliver out c s = Some (answered (deleteFleet sample_uuid s))"
proof -
  have "looksLikeUUID sample_uuid" by (simp add: looksLikeUUID_def sample_uuid_def is_digit_def is_hex_letter_def upt_rec)
  from client_delete_served[OF this, of "''''" "\<lambda>_ _. CReply 204 ''''" id out s] show ?thesis
    using server_url_local by (simp add: envOrDefault_def)
qed

theorem client_scenario_served_witness:
  "\<forall>out s. \<exists>c. calls (client_main (\<lambda>_ _. CReply 200 ''{}'') id ''http://lab:8888'' [''scenario'', ''hint'', ''s-1'']) = [c] \<and>
    deliver out c s = Some (answered (hintScenario (out_now out) ''s-1'' s))"
proof (intro allI)
  fix out s
  have "url_component ''s-1''" "\<not> is_flag ''s-1''" "server_url (envOrDefault ''http://lab:8888'' ''http://localhost:8888'')"
    by (simp_all add: url_component_def unreserved_def is_flag_def envOrDefault_def server_url_def HasPrefix_def
        strip_port_def is_digit_def)
  from client_scenario_served[OF this, of "\<lambda>_ _. CReply 200 ''{}''" id out s]
  show "\<exists>c. calls (client_main (\<lambda>_ _. CReply 200 ''{}'') id ''http://lab:8888'' [''scenario'', ''hint'', ''s-1'']) = [c] \<and>
      deliver out c s = Some (answered (hintScenario (out_now out) ''s-1'' s))" by blast
qed


section \<open>Options of the client\<close>








text \<open>
  Options after the scenario file.  What follows the file on the command line of
  \<open>scenario run\<close> has no effect: the request is the one for the file alone, with no scaling and
  the default port, although the usage text of the client shows its options there.
\<close>

theorem options_after_file_ignored:
  assumes "file \<noteq> ''''" "hd file \<noteq> CHR ''-''"
  shows "client_main e pretty env_server (''scenario'' # ''run'' # file # rest) =
      client_main e pretty env_server [''scenario'', ''run'', file] \<and>
    scr_Scale (scenario_request_of (run_body file run_flags)) = '''' \<and>
    calls (client_main e pretty env_server (''scenario'' # ''run'' # file # rest)) =
      [HttpPost (envOrDefault env_server ''http://localhost:8888'' @ ''/api/v1/scenarios'')
        (Some (run_body file run_flags))]"
proof -
  have nf: "\<not> is_flag file" using assms by (simp add: not_flag)
  have run: "client_main e pretty env_server (''scenario'' # ''run'' # file # r) =
      or_fatal (apiPost e (envOrDefault env_server ''http://localhost:8888'') ''/api/v1/scenarios''
        (Some (run_body file run_flags))) (\<lambda>d. [pretty d])" for r
    using nf assms(1)
    by (simp add: client_main_dispatch Let_def client_scenarioCmd_def scenarioRun_def with_flags_def arg0_def)
  have "scr_Scale (scenario_request_of (run_body file run_flags)) = ''''"
    by (simp add: scenario_request_of_def run_body_def run_flags_def str_flag_def json_string.simps)
  then show ?thesis by (simp add: run calls_or_fatal)

qed

theorem options_after_file_ignored_witness:
  "client_main (\<lambda>_ _. CReply 201 ''{}'') id '''' [''scenario'', ''run'', ''disk-full.yaml'', ''--scale'', ''web=2''] =
    client_main (\<lambda>_ _. CReply 201 ''{}'') id '''' [''scenario'', ''run'', ''disk-full.yaml'']"
  using options_after_file_ignored[of "''disk-full.yaml''" "\<lambda>_ _. CReply 201 ''{}''" id "''''" "[''--scale'', ''web=2'']"]
  by simp

end
