(* ===== verification/Spec2Isabelle.thy ===== *)
theory Spec2Isabelle
  imports ApiWorld LaunchHost AgentState AgentMetrics Processes AgentWorkers Client
begin

text \<open>
  A verification library for onfire, a chaos-engineering platform on Firecracker microVMs.

  \<^bold>\<open>The program.\<close>  The server binary (\<open>src/cmd\<close>) launches microVMs.  \<open>src/vm\<close> gives every VM a
  configuration of its own, a TAP device, a copy of the root image and a cloud-init image, and
  drives its machine through the Firecracker SDK.  \<open>src/scenario\<close> reads a scenario (tiers of VMs,
  services, faults, objectives, hints, rules of the score), turns it into a plan of VMs, launches and
  provisions them, injects the faults on schedule by posting them to the agent on each VM, polls the
  objectives and keeps the score.  \<open>src/agent\<close> is that agent: it starts and stops faults on its own
  machine and answers with metrics and the states of services.  \<open>src/api\<close> is a REST server over
  fleets and scenarios with a shared pool of VM identifiers; \<open>src/onfirec\<close> is its client; a terminal
  in the browser (\<open>src/cmd/serve.go\<close>) is a shell on a VM over SSH.

  \<^bold>\<open>Conventions.\<close>
  \<^item> Names are those of the source.  Structs are records, \<open>int\<close> is the unbounded integer with
    \<open>wrap64\<close> written where the source can overflow, \<open>float64\<close> is the type \<open>f64\<close> of binary64 numbers
    with rounding, strings are lists of bytes, maps are finite maps and the iteration of a map is a
    parameter that may be any order of its keys.
  \<^item> A function with effects is a state-monad program over the trace of the calls it makes
    (theory \<open>Prelude\<close>).  The outside world is an environment, any function from the trace so far and
    the call to the reply; statements hold for all environments, so for every failure and timing.
    \<open>defer\<close> is \<open>with_defer\<close> (theory \<open>Resources\<close>); what a program still owes is a function of its trace.
  \<^item> Goroutines are labelled step relations whose steps are the sections under a mutex or, for
    goroutines that share nothing, the single calls; runs are lists of steps (\<open>steps\<close>), invariants are
    lifted to runs by the locale \<open>step_invariant\<close>.
  \<^item> Errors, panics and exits are values.
  \<^item> Parameters: the YAML and JSON decoders, the tables of Unicode, the Firecracker SDK, HTTP, SSH,
    \<open>exec\<close>, environment variables, fresh UUIDs.  Go's own \<open>strings\<close>, \<open>strconv\<close>, \<open>fmt\<close>, \<open>time\<close>,
    \<open>path\<close> and \<open>flag\<close> are modelled as far as the program uses them, and so are the host and path of a
    URL (paths that need no escaping) and what JSON does to a string that is not UTF-8.
  \<^item> What a program leaves on the host is counted generously: a command that fails may have done a part
    of its work, and a removal that fails has removed nothing.
\<close>

text \<open>
  \<^bold>\<open>Theories and what they show.\<close>

  \<^item> \<open>Prelude\<close>, \<open>Resources\<close>: programs, traces, step relations, deferred releases; the locales
    \<open>step_invariant\<close> and \<open>resources\<close>.
  \<^item> \<open>GoLib\<close>, \<open>Float64\<close>, \<open>GoTime\<close>, \<open>GoParseFloat\<close>, \<open>GoPath\<close>, \<open>GoFlag\<close>, \<open>GoWire\<close>: the standard library;
    printing and parsing are inverse, rounding is monotone and exact on small integers, \<open>ParseDuration\<close>
    and \<open>ParseFloat\<close> scan as the library does, the host and the path of a URL are found again.
  \<^item> \<open>VMConfig\<close> (\<open>src/vm/config.go\<close>): VMs share no resource, but a cloud-init image not named \<open>.iso\<close>;
    exactly the complete configurations are valid.
  \<^item> \<open>Host\<close>, \<open>HostSetup\<close> (\<open>tap.go\<close>, \<open>rootfs.go\<close>, \<open>cloudinit.go\<close>), \<open>Machine\<close> (\<open>machine.go\<close>, \<open>vm.go\<close>): what each
    step leaves on the host, on every error path, the part of a failed copy included.
  \<^item> \<open>VMLaunch\<close>, \<open>LaunchHost\<close>: the launchers in any environment and on the real host; what a launch
    acquired is given back in reverse order, what stays on the host all the same is listed (logs, network
    settings, generated images, what failed half-way, what the host refused to remove), and the machine
    that boots is the VM's own.
  \<^item> \<open>ScenarioTypes\<close> (\<open>src/scenario/types.go\<close>), \<open>ScenarioPlan\<close> (\<open>parser.go\<close>): the score and its bounds,
    validation, the plan and its indexes, the resolution of targets.
  \<^item> \<open>Runner\<close>, \<open>Provision\<close>, \<open>RunOutput\<close>, \<open>RunLoop\<close>, \<open>RunLife\<close> (\<open>src/scenario/runner.go\<close>): hints and score, the
    delivery of faults and the check of objectives; provisioning over SSH; the texts; the concurrent
    phase of a run; its whole life from the launch of its machines to its return, in which no fault comes
    before eight seconds and the provisioning are over.
  \<^item> \<open>AgentFaults\<close>, \<open>AgentWorkers\<close>, \<open>AgentState\<close> (\<open>src/agent/faults.go\<close>, \<open>main.go\<close>), \<open>AgentMetrics\<close>
    (\<open>metrics.go\<close>): the commands and loops of each fault, the registry of running faults with
    interleaved calls and timers, in which no context is lost unless a start and a stop of one ID
    overlap, the readers of \<open>/proc\<close>.
  \<^item> \<open>VMIDs\<close>, \<open>ApiServer\<close> (\<open>src/api/server.go\<close>), \<open>ApiFleet\<close> (\<open>fleet.go\<close>), \<open>ApiScenario\<close> (\<open>scenario.go\<close>),
    \<open>ApiSystem\<close>: the handlers one by one, and the server as a concurrent system: no leak of identifiers, and
    exclusive ownership while no live fleet is deleted.
  \<^item> \<open>ApiRuns\<close>, \<open>ApiWorld\<close>: how the parts meet.  The hosts of the URLs the run of one scenario requests are
    not VMs of others, if the pages of its objectives begin with a slash; server, goroutines and runs as one system, in which no two machines share an identifier,
    unless a live fleet is deleted.
  \<^item> \<open>Goroutines\<close>, \<open>Processes\<close>, \<open>Commands\<close>, \<open>WebTerminal\<close> (\<open>src/cmd\<close>): goroutines side by side, the
    processes from launch to exit, the command line, the terminal.
  \<^item> \<open>Client\<close> (\<open>src/onfirec/main.go\<close>): requests from the typed command, over the path of the URL and the
    JSON body, to the handler.

  \<^bold>\<open>Bounds and fuel.\<close>  The loops of the disk and memory faults, of the CPU workers and of the
  terminal's reader need not end, so they carry fuel and say whether they ended.  For the disk fault
  and the terminal, fuel above the number of calls or messages before the cancellation or the read error is
  shown to be enough; for a CPU worker, fuel for its spells and for the calls before the end of its
  context; of the memory fault every fuel gives the bounds that are shown, and its end is not claimed.
  The allocation of identifiers is total, since its measure is the number of used identifiers above the
  candidate.  Dialing has the source's bounds of 15 (provisioning) and 10 (terminal) attempts.  Steps
  of goroutines are unbounded; liveness is stated as the existence of steps that need no help.

  \<^bold>\<open>Not modelled.\<close>  \<open>src/main.go\<close> only calls \<open>Execute\<close>; \<open>src/api/embed.go\<close> and \<open>src/web/embed.go\<close>
  embed files at build time.  Usage texts and progress lines are left out, as are the re-indenting of
  JSON in the client, the bytes written to memory chunks and to the fill file, and the upgrade of a
  connection to a web socket, which is its library's.  Redirects in the answers to a run's requests,
  and paths that are escaped on the way, are left to the HTTP library.  The Go memory model below sections under a
  mutex is not modelled: fields a section guards are read and written by that section only.  The
  test helper, the web page, the OpenAPI document and the build scripts are not Go code of the
  program.
\<close>

text \<open>The override parsers of the command line and of the REST API are the same functions.\<close>

lemma cmd_overrides_same:
  "cmd_parseScaleOverrides = parseScaleOverrides" "cmd_parseDiskOverrides = parseDiskOverrides"
proof -
  have eq: "cmd_override = parse_override"
    by (intro ext) (simp add: cmd_override_def parse_override_def)
  show "cmd_parseScaleOverrides = parseScaleOverrides"
    by (rule ext) (simp add: cmd_parseScaleOverrides_def parseScaleOverrides_def eq)
  show "cmd_parseDiskOverrides = parseDiskOverrides"
    by (rule ext) (simp add: cmd_parseDiskOverrides_def parseDiskOverrides_def eq)
qed

end
